(* ===== verification/Prelude.thy ===== *)
theory Prelude
  imports Main "HOL-Library.Word"
begin

text \<open>
  What every other theory of the library shares: Go's fixed-width integers as words, the
  outcome of a call that may panic, a result type for calls that return an error, and the
  generic lemmas on lists, options and words that the component proofs use.

  The Go type \<open>int64\<close> (and \<open>int\<close>, which has 64 bits on the platforms the services are built
  for) is \<open>64 word\<close>, read with \<open>sint\<close>; \<open>int32\<close> is \<open>32 word\<close>. Go's integer operators
  \<open>+\<close> and \<open>*\<close> wrap around, as the word operators do. A Go \<open>string\<close> is a sequence of bytes,
  which is what Isabelle's \<open>string\<close> is.
\<close>

text \<open>How the in-memory store, on which the examples run, computes.\<close>

named_theorems mem_store

type_synonym int64 = "64 word"
type_synonym int32 = "32 word"

text \<open>A Go call either returns or panics.\<close>

datatype 'a outcome = Returned 'a | Panicked string

fun returned :: "'a outcome \<Rightarrow> bool" where
  "returned (Returned _) = True"
| "returned (Panicked _) = False"

lemma returned_iff: "returned x \<longleftrightarrow> (\<exists>v. x = Returned v)"
  by (cases x) auto

section \<open>Signed 64-bit integers\<close>

abbreviation int64_min :: int where "int64_min \<equiv> - (2 ^ 63)"
abbreviation int64_max :: int where "int64_max \<equiv> 2 ^ 63 - 1"

definition in_int64 :: "int \<Rightarrow> bool" where
  "in_int64 i \<longleftrightarrow> int64_min \<le> i \<and> i \<le> int64_max"

lemma sint64_bounds: "int64_min \<le> sint (w :: int64)" "sint (w :: int64) \<le> int64_max"
  using sint_greater_eq [of w] sint_less [of w] by auto

lemma in_int64_sint [simp, intro]: "in_int64 (sint (w :: int64))"
  using sint64_bounds [of w] by (simp add: in_int64_def)

lemma sint_of_int64: "in_int64 i \<Longrightarrow> sint (of_int i :: int64) = i"
  by (simp add: in_int64_def sint_sbintrunc' signed_take_bit_int_eq_self)

lemma sint_mult64:
  "in_int64 (sint a * sint b) \<Longrightarrow> sint (a * b) = sint a * sint (b :: int64)"
proof -
  assume h: "in_int64 (sint a * sint b)"
  have "a * b = (of_int (sint a * sint b) :: int64)" by simp
  then show ?thesis using sint_of_int64 [OF h] by metis
qed

lemma sint_add64:
  "in_int64 (sint a + sint b) \<Longrightarrow> sint (a + b) = sint a + sint (b :: int64)"
proof -
  assume h: "in_int64 (sint a + sint b)"
  have "a + b = (of_int (sint a + sint b) :: int64)" by simp
  then show ?thesis using sint_of_int64 [OF h] by metis
qed

lemma sint64_eqI: "sint a = sint b \<Longrightarrow> a = (b :: int64)"
  by (simp add: signed_word_eqI)

lemma sint64_0 [simp]: "sint (0 :: int64) = 0"
  by simp

section \<open>Lists\<close>

lemma filter_map_upd:
  "(\<And>x. x \<in> set xs \<Longrightarrow> P (f x) = P x) \<Longrightarrow> filter P (map f xs) = map f (filter P xs)"
  by (induction xs) auto

lemma distinct_map_append1:
  "distinct (map f (xs @ [x])) \<longleftrightarrow> distinct (map f xs) \<and> f x \<notin> f ` set xs"
  by auto

lemma find_Some_set: "find P xs = Some x \<Longrightarrow> x \<in> set xs \<and> P x"
  by (auto simp: find_Some_iff)

lemma find_None_iff': "find P xs = None \<longleftrightarrow> (\<forall>x \<in> set xs. \<not> P x)"
  by (auto simp: find_None_iff)

end
