(* ===== verification/Errors.thy ===== *)
theory Errors
  imports GoStrings
begin

text \<open>
  The package \<open>shared/errors\<close> and Go's \<open>error\<close> values as the services build them: the typed
  application errors, plain errors, errors wrapped with \<open>%w\<close>, and the sentinel
  \<open>gorm.ErrRecordNotFound\<close>. \<open>errors.As\<close> and \<open>errors.Is\<close> walk the chain of wrapped errors.
  The gRPC status that \<open>mapError\<close> of both servers turns an error into.
\<close>

section \<open>Typed application errors\<close>

record app_error =
  Code :: string
  Message :: string
  Status :: int

definition ErrNotFound :: "string \<Rightarrow> app_error" where
  "ErrNotFound msg =
     (let msg' = (if msg = '''' then ''resource not found'' else msg)
      in \<lparr>Code = ''ERR_NOT_FOUND'', Message = msg', Status = 404\<rparr>)"

definition ErrInvalidInput :: "string \<Rightarrow> app_error" where
  "ErrInvalidInput msg =
     (let msg' = (if msg = '''' then ''invalid input'' else msg)
      in \<lparr>Code = ''ERR_INVALID_INPUT'', Message = msg', Status = 400\<rparr>)"

definition ErrInternalError :: "string \<Rightarrow> app_error" where
  "ErrInternalError msg =
     (let msg' = (if msg = '''' then ''internal server error'' else msg)
      in \<lparr>Code = ''ERR_INTERNAL'', Message = msg', Status = 500\<rparr>)"

definition ErrInvalidOrderState :: "string \<Rightarrow> app_error" where
  "ErrInvalidOrderState msg =
     (let msg' = (if msg = '''' then ''invalid order state'' else msg)
      in \<lparr>Code = ''ERR_INVALID_ORDER_STATE'', Message = msg', Status = 409\<rparr>)"

lemmas app_error_defs =
  ErrNotFound_def ErrInvalidInput_def ErrInternalError_def ErrInvalidOrderState_def

lemma Code_simps [simp]:
  "Code (ErrNotFound m) = ''ERR_NOT_FOUND''"
  "Code (ErrInvalidInput m) = ''ERR_INVALID_INPUT''"
  "Code (ErrInternalError m) = ''ERR_INTERNAL''"
  "Code (ErrInvalidOrderState m) = ''ERR_INVALID_ORDER_STATE''"
  by (simp_all add: app_error_defs Let_def)

lemma Message_simps [simp]:
  "m \<noteq> [] \<Longrightarrow> Message (ErrNotFound m) = m"
  "m \<noteq> [] \<Longrightarrow> Message (ErrInvalidInput m) = m"
  "m \<noteq> [] \<Longrightarrow> Message (ErrInternalError m) = m"
  "m \<noteq> [] \<Longrightarrow> Message (ErrInvalidOrderState m) = m"
  by (simp_all add: app_error_defs Let_def)

section \<open>Go errors\<close>

text \<open>
  \<open>ErrorString\<close> is a plain error with its text (from \<open>errors.New\<close>, or from a library),
  \<open>WrapErr p e\<close> is \<open>fmt.Errorf(p + "%w", e)\<close>, and \<open>AppErr\<close> a \<open>*AppError\<close>.
\<close>

datatype go_error =
    AppErr app_error
  | ErrRecordNotFound
  | ErrorString string
  | WrapErr string go_error

fun Error :: "go_error \<Rightarrow> string" where
  "Error (AppErr e) = Message e"
| "Error ErrRecordNotFound = ''record not found''"
| "Error (ErrorString s) = s"
| "Error (WrapErr p e) = p @ Error e"

text \<open>\<open>errors.As(err, &appErr)\<close>: the first \<open>*AppError\<close> of the chain.\<close>

fun as_AppError :: "go_error \<Rightarrow> app_error option" where
  "as_AppError (AppErr e) = Some e"
| "as_AppError (WrapErr _ e) = as_AppError e"
| "as_AppError _ = None"

text \<open>\<open>errors.Is(err, gorm.ErrRecordNotFound)\<close>.\<close>

fun is_RecordNotFound :: "go_error \<Rightarrow> bool" where
  "is_RecordNotFound ErrRecordNotFound = True"
| "is_RecordNotFound (WrapErr _ e) = is_RecordNotFound e"
| "is_RecordNotFound _ = False"

section \<open>gRPC status errors\<close>

datatype grpc_code = NotFound | InvalidArgument | FailedPrecondition | Internal | Unimplemented

type_synonym grpc_status = "grpc_code \<times> string"

text \<open>\<open>mapError\<close> of the order service's gRPC server.\<close>

definition order_mapError :: "go_error \<Rightarrow> grpc_status" where
  "order_mapError err =
     (case as_AppError err of
        Some appErr \<Rightarrow>
          if Code appErr = ''ERR_NOT_FOUND'' then (NotFound, Message appErr)
          else if Code appErr = ''ERR_INVALID_INPUT'' then (InvalidArgument, Message appErr)
          else if Code appErr = ''ERR_INVALID_ORDER_STATE'' then (FailedPrecondition, Message appErr)
          else (Internal, Error err)
      | None \<Rightarrow> (Internal, Error err))"

text \<open>\<open>mapError\<close> of the billing service's gRPC server, a second copy of the same switch.\<close>

definition billing_mapError :: "go_error \<Rightarrow> grpc_status" where
  "billing_mapError err =
     (case as_AppError err of
        Some appErr \<Rightarrow>
          if Code appErr = ''ERR_NOT_FOUND'' then (NotFound, Message appErr)
          else if Code appErr = ''ERR_INVALID_INPUT'' then (InvalidArgument, Message appErr)
          else if Code appErr = ''ERR_INVALID_ORDER_STATE'' then (FailedPrecondition, Message appErr)
          else (Internal, Error err)
      | None \<Rightarrow> (Internal, Error err))"

lemma order_mapError_App [simp]:
  "fst (order_mapError (AppErr (ErrNotFound m))) = NotFound"
  "fst (order_mapError (AppErr (ErrInvalidInput m))) = InvalidArgument"
  "fst (order_mapError (AppErr (ErrInvalidOrderState m))) = FailedPrecondition"
  "fst (order_mapError (AppErr (ErrInternalError m))) = Internal"
  by (simp_all add: order_mapError_def)

lemma order_mapError_text: "snd (order_mapError (AppErr e)) = Message e"
  by (simp add: order_mapError_def)

lemma billing_mapError_eq: "billing_mapError = order_mapError"
  by (rule ext) (simp only: billing_mapError_def order_mapError_def)

lemma order_mapError_Wrap: "fst (order_mapError (WrapErr p e)) = fst (order_mapError e)"
  by (simp add: order_mapError_def split: option.splits)

lemma billing_mapError_not_app: "as_AppError err = None \<Longrightarrow> billing_mapError err = (Internal, Error err)"
  by (simp add: billing_mapError_def)

end
