(* ===== verification/Money.thy ===== *)
theory Money
  imports Errors
begin

text \<open>
  The package \<open>shared/money\<close>: the \<open>Money\<close> value type and its text form in the database,
  \<open>amount|currency\<close> (\<open>Value\<close> writes it, \<open>Scan\<close> reads it), and the round trip between them.
\<close>

record Money =
  Amount :: int64
  Currency :: string

text \<open>What a database driver hands to \<open>Scan\<close>: a string, a byte slice, or another type.\<close>

datatype driver_value = DriverString string | DriverBytes string | DriverOther

datatype money_error =
    InvalidType
  | InvalidFormat string
  | InvalidAmount num_error

definition Money_Value :: "Money \<Rightarrow> driver_value" where
  "Money_Value m = DriverString (show_int64 (Amount m) @ ''|'' @ Currency m)"

definition Money_Scan :: "driver_value \<Rightarrow> money_error + Money" where
  "Money_Scan value =
     (case (case value of DriverString v \<Rightarrow> Some v | DriverBytes v \<Rightarrow> Some v | DriverOther \<Rightarrow> None) of
        None \<Rightarrow> Inl InvalidType
      | Some str \<Rightarrow>
          let parts = Split str (CHR ''|'') in
          if length parts \<noteq> 2 then Inl (InvalidFormat str)
          else case ParseInt (parts ! 0) of
                 Inl err \<Rightarrow> Inl (InvalidAmount err)
               | Inr amount \<Rightarrow> Inr \<lparr>Amount = amount, Currency = parts ! 1\<rparr>)"

lemma pipe_not_in_amount: "CHR ''|'' \<notin> set (show_int64 w)"
  by (auto simp: show_int64_def is_digit_def dest!: show_int_chars)

lemma Split_money:
  "Split (show_int64 w @ CHR ''|'' # c) (CHR ''|'') = show_int64 w # Split c (CHR ''|'')"
  by (rule Split_append [OF pipe_not_in_amount])

text \<open>
  A \<open>Money\<close> written to a text column by \<open>Value\<close> is read back by \<open>Scan\<close> unchanged
  exactly when its currency contains no \<open>|\<close>; with a \<open>|\<close> in the currency the stored text is
  rejected as malformed, so \<open>Scan\<close> never returns a different amount or currency.
\<close>

lemma Money_Scan_Value:
  "Money_Scan (Money_Value m) =
     (if CHR ''|'' \<in> set (Currency m)
      then Inl (InvalidFormat (show_int64 (Amount m) @ ''|'' @ Currency m)) else Inr m)"
proof (cases "CHR ''|'' \<in> set (Currency m)")
  case True
  then have "count_list (Currency m) (CHR ''|'') \<noteq> 0"
    by (simp add: count_list_0_iff)
  then have "length (Split (Currency m) (CHR ''|'')) \<noteq> 1"
    by (simp add: Split_length)
  with True show ?thesis
    by (simp add: Money_Scan_def Money_Value_def Let_def Split_money)
next
  case False
  then show ?thesis
    by (simp add: Money_Scan_def Money_Value_def Let_def Split_money Split_no_sep)
qed

end
