(* ===== verification/Float64.thy ===== *)
theory Float64
  imports Prelude
begin

text \<open>
  Go's \<open>float64\<close> as far as the currency converter uses it: conversion from \<open>int64\<close>,
  multiplication and conversion back. A finite value is \<open>Float m s\<close>, standing for
  \<open>m / 2^s\<close>; IEEE 754 binary64 arithmetic rounds every result to 53 significant bits, to
  the nearest value and to the even one on a tie (\<open>rne53\<close>). The products formed by the
  converter lie between \<open>2^-7\<close> and \<open>2^65\<close> in magnitude (or are 0), far from overflow and
  from the subnormal range, so the exponent needs no bounds here.
\<close>

datatype float64 = Float int nat

fun bitlen :: "nat \<Rightarrow> nat" where
  "bitlen n = (if n = 0 then 0 else Suc (bitlen (n div 2)))"

declare bitlen.simps [simp del]

text \<open>Round a magnitude to 53 significant bits, nearest, ties to even.\<close>

definition rne53 :: "nat \<Rightarrow> nat" where
  "rne53 n =
     (let k = bitlen n - 53; q = n div 2 ^ k; r = n mod 2 ^ k in
      if k = 0 then n
      else if 2 ^ (k - 1) < r \<or> (r = 2 ^ (k - 1) \<and> odd q) then (q + 1) * 2 ^ k
      else q * 2 ^ k)"

definition round_float :: "int \<Rightarrow> int" where
  "round_float i = sgn i * int (rne53 (nat \<bar>i\<bar>))"

definition float64_of_int64 :: "int64 \<Rightarrow> float64" where
  "float64_of_int64 w = Float (round_float (sint w)) 0"

fun float64_mul :: "float64 \<Rightarrow> float64 \<Rightarrow> float64" where
  "float64_mul (Float m s) (Float n t) = Float (round_float (m * n)) (s + t)"

text \<open>
  \<open>int64(f)\<close> truncates towards zero. A value that does not fit is implementation-dependent
  in Go; the model takes the amd64 instruction's answer, the least \<open>int64\<close>.
\<close>

fun int64_of_float64 :: "float64 \<Rightarrow> int64" where
  "int64_of_float64 (Float m s) =
     (let t = sgn m * (\<bar>m\<bar> div 2 ^ s)
      in if in_int64 t then of_int t else of_int int64_min)"

section \<open>Rounding to 53 bits\<close>

lemma bitlen_bounds: "n < 2 ^ bitlen n \<and> (0 < n \<longrightarrow> 2 ^ bitlen n \<le> 2 * n)"
proof (induction n rule: bitlen.induct)
  case (1 n)
  show ?case
  proof (cases "n = 0")
    case True
    then show ?thesis by (simp add: bitlen.simps)
  next
    case False
    with 1 have IH: "n div 2 < 2 ^ bitlen (n div 2)"
      "0 < n div 2 \<longrightarrow> 2 ^ bitlen (n div 2) \<le> 2 * (n div 2)" by auto
    have eq: "(2::nat) ^ bitlen n = 2 * 2 ^ bitlen (n div 2)"
      using False by (subst bitlen.simps) simp
    have "2 ^ bitlen (n div 2) \<le> n"
    proof (cases "n div 2 = 0")
      case True
      then show ?thesis using False by (simp add: bitlen.simps)
    next
      case False
      then show ?thesis using IH(2) by auto
    qed
    with IH(1) show ?thesis unfolding eq by linarith
  qed
qed

lemma bitlen_le: "n < 2 ^ b \<Longrightarrow> bitlen n \<le> b"
proof (rule ccontr)
  assume h: "n < 2 ^ b" and "\<not> bitlen n \<le> b"
  then have b: "Suc b \<le> bitlen n" by simp
  then have "0 < n" by (cases "n = 0") (auto simp: bitlen.simps)
  then have "2 ^ bitlen n \<le> 2 * n" using bitlen_bounds by blast
  moreover have "(2::nat) ^ Suc b \<le> 2 ^ bitlen n" using b by (rule power_increasing) simp
  ultimately show False using h by simp
qed

lemma rne53_exact: "n < 2 ^ 53 \<Longrightarrow> rne53 n = n"
  using bitlen_le [of n 53] by (simp add: rne53_def Let_def)

lemma rne53_cases:
  "rne53 n = n div 2 ^ (bitlen n - 53) * 2 ^ (bitlen n - 53) \<or>
   rne53 n = (n div 2 ^ (bitlen n - 53) + 1) * 2 ^ (bitlen n - 53)
     \<and> n mod 2 ^ (bitlen n - 53) \<noteq> 0"
  by (auto simp: rne53_def Let_def)

text \<open>Rounding is at most half a unit in the last place away.\<close>

lemma rne53_error:
  assumes "bitlen n \<le> 53 + k"
  shows "2 * rne53 n \<le> 2 * n + 2 ^ k" and "2 * n \<le> 2 * rne53 n + 2 ^ k"
proof -
  define j q r where "j = bitlen n - 53" and "q = n div 2 ^ j * 2 ^ j" and "r = n mod 2 ^ j"
  have jk: "(2::nat) ^ j \<le> 2 ^ k" using assms by (simp add: j_def power_increasing)
  have n: "n = q + r" by (simp add: q_def r_def mult.commute)
  have r: "r < 2 ^ j" by (simp add: r_def)
  have half: "j \<noteq> 0 \<Longrightarrow> (2::nat) ^ j = 2 * 2 ^ (j - 1)" by (cases j) auto
  have "rne53 n = n \<or> rne53 n = q + 2 ^ j \<and> 2 ^ j \<le> 2 * r \<or> rne53 n = q \<and> 2 * r \<le> 2 ^ j"
    using half by (auto simp: rne53_def Let_def j_def [symmetric] q_def r_def)
  then show "2 * rne53 n \<le> 2 * n + 2 ^ k" and "2 * n \<le> 2 * rne53 n + 2 ^ k"
    using n r jk by (auto simp del: power_increasing_iff)
qed

text \<open>Rounding never crosses a multiple of the last place.\<close>

lemma rne53_ge_multiple:
  assumes "bitlen n \<le> 53 + k" and "2 ^ k dvd y" and "y \<le> n"
  shows "y \<le> rne53 n"
proof -
  define j where "j = bitlen n - 53"
  have "(2::nat) ^ j dvd 2 ^ k" using assms(1) by (simp add: j_def le_imp_power_dvd)
  with assms(2) obtain z where z: "y = z * 2 ^ j" by (metis dvd_trans dvd_def mult.commute)
  have "z \<le> n div 2 ^ j" using assms(3) unfolding z
    by (metis div_le_mono nonzero_mult_div_cancel_right power_not_zero zero_neq_numeral)
  then have "y \<le> n div 2 ^ j * 2 ^ j" unfolding z by simp
  also have "\<dots> \<le> rne53 n" using rne53_cases [of n] by (auto simp: j_def)
  finally show ?thesis .
qed

lemma rne53_le_multiple:
  assumes "bitlen n \<le> 53 + k" and "2 ^ k dvd y" and "n \<le> y"
  shows "rne53 n \<le> y"
proof -
  define j where "j = bitlen n - 53"
  have "(2::nat) ^ j dvd 2 ^ k" using assms(1) by (simp add: j_def le_imp_power_dvd)
  with assms(2) obtain z where z: "y = z * 2 ^ j" by (metis dvd_trans dvd_def mult.commute)
  have n: "n = n div 2 ^ j * 2 ^ j + n mod 2 ^ j" by (simp add: mult.commute)
  have le: "n div 2 ^ j * 2 ^ j \<le> y" using assms(3) n by linarith
  have "(n div 2 ^ j + 1) * 2 ^ j \<le> y" if "n mod 2 ^ j \<noteq> 0"
  proof -
    have "n div 2 ^ j * 2 ^ j < z * 2 ^ j" using that n assms(3) unfolding z by linarith
    then have "n div 2 ^ j < z" by simp
    then have "(n div 2 ^ j + 1) * 2 ^ j \<le> z * 2 ^ j" by (intro mult_right_mono) auto
    then show ?thesis unfolding z .
  qed
  then show ?thesis using rne53_cases [of n] le by (auto simp: j_def)
qed

text \<open>The relative error is at most \<open>2^-53\<close>.\<close>

lemma rne53_relative: "2 ^ 53 * rne53 n \<le> (2 ^ 53 + 1) * n"
proof (cases "bitlen n \<le> 53")
  case True
  then show ?thesis by (simp add: rne53_def Let_def)
next
  case False
  define j where "j = bitlen n - 53"
  have j: "bitlen n = 53 + j" using False by (simp add: j_def)
  have "0 < n" using False by (cases "n = 0") (auto simp: bitlen.simps)
  then have "2 ^ (53 + j) \<le> 2 * n" using bitlen_bounds [of n] j by simp
  moreover have "2 * rne53 n \<le> 2 * n + 2 ^ j" using rne53_error(1) [of n j] j by simp
  ultimately show ?thesis by (simp add: power_add)
qed

lemma round_float_nonneg: "0 \<le> i \<Longrightarrow> round_float i = int (rne53 (nat i))"
  by (cases "i = 0") (auto simp: round_float_def rne53_exact)

end
