(* ===== verification/Currency.thy ===== *)
theory Currency
  imports Money Float64
begin

text \<open>
  The package \<open>shared/currency\<close>: the \<open>Converter\<close> interface, the table of static rates as the
  \<open>float64\<close> values nearest to the decimal constants, and \<open>StaticConverter.ToUSD\<close>; how exact
  the conversion is, in integer arithmetic.
\<close>

type_synonym Converter = "int64 \<Rightarrow> string \<Rightarrow> string + int64"

definition staticRates :: "string \<Rightarrow> float64 option" where
  "staticRates =
     [''USD'' \<mapsto> Float 1 0,
      ''EUR'' \<mapsto> Float 4908923593833841 52,
      ''RUB'' \<mapsto> Float 6341068275337658 59]"

definition ToUSD :: "int64 \<Rightarrow> string \<Rightarrow> string + int64" where
  "ToUSD amount frm =
     (if frm = ''USD'' then Inr amount
      else case staticRates frm of
             None \<Rightarrow> Inl (''unsupported currency: '' @ frm)
           | Some rate \<Rightarrow>
               let converted = int64_of_float64 (float64_mul (float64_of_int64 amount) rate)
               in Inr converted)"

text \<open>The two constants are the nearest doubles to 1.09 and 0.011 (within half a last place).\<close>

lemma staticRates_nearest:
  "2 * \<bar>100 * 4908923593833841 - 109 * 2 ^ 52\<bar> \<le> (100 :: int)"
  "2 * \<bar>1000 * 6341068275337658 - 11 * 2 ^ 59\<bar> \<le> (1000 :: int)"
  "2 ^ 52 \<le> (4908923593833841 :: int)" "(6341068275337658 :: int) < 2 ^ 53"
  by simp_all

section \<open>Which currencies convert\<close>

lemma ToUSD_USD [simp]: "ToUSD a ''USD'' = Inr a"
  by (simp add: ToUSD_def)

lemma ToUSD_Inr_iff: "(\<exists>r. ToUSD a c = Inr r) \<longleftrightarrow> c \<in> {''USD'', ''EUR'', ''RUB''}"
  by (auto simp: ToUSD_def staticRates_def)

section \<open>Conversion of non-negative amounts\<close>

text \<open>The conversion by a positive rate \<open>m / 2^s\<close>, on natural numbers.\<close>

definition convert_nat :: "nat \<Rightarrow> nat \<Rightarrow> nat \<Rightarrow> nat" where
  "convert_nat m s a = rne53 (rne53 a * m) div 2 ^ s"

lemma int64_of_float64_mul:
  assumes "0 \<le> sint a" and "convert_nat m s (nat (sint a)) < 2 ^ 63"
  shows "sint (int64_of_float64 (float64_mul (float64_of_int64 a) (Float (int m) s)))
         = int (convert_nat m s (nat (sint a)))"
proof -
  let ?p = "rne53 (rne53 (nat (sint a)) * m)"
  have "round_float (sint a) * int m = int (rne53 (nat (sint a)) * m)"
    using assms(1) by (simp add: round_float_nonneg)
  then have e: "round_float (round_float (sint a) * int m) = int ?p"
    by (metis nat_int of_nat_0_le_iff round_float_nonneg)
  have t: "sgn (int ?p) * (\<bar>int ?p\<bar> div 2 ^ s) = int (convert_nat m s (nat (sint a)))"
    by (cases "?p = 0") (simp_all add: convert_nat_def zdiv_int)
  have b: "in_int64 (int (convert_nat m s (nat (sint a))))"
    using assms(2) by (simp add: in_int64_def)
  show ?thesis
    unfolding float64_of_int64_def float64_mul.simps int64_of_float64.simps e Let_def add_0 t
    using b by (simp only: if_True sint_of_int64)
qed

lemma ToUSD_EUR:
  assumes "0 \<le> sint a" and "convert_nat 4908923593833841 52 (nat (sint a)) < 2 ^ 63"
  shows "\<exists>r. ToUSD a ''EUR'' = Inr r
             \<and> sint r = int (convert_nat 4908923593833841 52 (nat (sint a)))"
  using int64_of_float64_mul [OF assms] by (simp add: ToUSD_def staticRates_def Let_def)

lemma ToUSD_RUB:
  assumes "0 \<le> sint a" and "convert_nat 6341068275337658 59 (nat (sint a)) < 2 ^ 63"
  shows "\<exists>r. ToUSD a ''RUB'' = Inr r
             \<and> sint r = int (convert_nat 6341068275337658 59 (nat (sint a)))"
  using int64_of_float64_mul [OF assms] by (simp add: ToUSD_def staticRates_def Let_def)

text \<open>A converted amount is never more than 1.09 times the original, up to rounding.\<close>

lemma convert_nat_le:
  assumes "m \<le> 2 ^ s + 2 ^ (s - 1)" and "2 \<le> s"
  shows "convert_nat m s a \<le> 2 * a"
proof -
  let ?x = "rne53 a" and ?y = "rne53 (rne53 a * m)"
  have x: "2 ^ 53 * ?x \<le> (2 ^ 53 + 1) * a" by (rule rne53_relative)
  have y: "2 ^ 53 * ?y \<le> (2 ^ 53 + 1) * (?x * m)" by (rule rne53_relative)
  have s: "(2::nat) ^ s = 2 * 2 ^ (s - 1)" using assms(2) by (cases s) auto
  have m: "2 * m \<le> 3 * 2 ^ s" using assms(1) s by linarith
  have "2 ^ 53 * (2 ^ 53 * (2 * ?y)) \<le> 2 ^ 53 * ((2 ^ 53 + 1) * (?x * (2 * m)))"
    using y by (simp add: mult.commute)
  also have "\<dots> = (2 ^ 53 + 1) * ((2 ^ 53 * ?x) * (2 * m))" by (simp only: ac_simps)
  also have "\<dots> \<le> (2 ^ 53 + 1) * (((2 ^ 53 + 1) * a) * (3 * 2 ^ s))"
    by (intro mult_le_mono2 mult_le_mono [OF x m])
  also have "\<dots> \<le> 2 ^ 53 * (2 ^ 53 * (4 * a * 2 ^ s))" by simp
  finally have "2 ^ 53 * (2 ^ 53 * (2 * ?y)) \<le> 2 ^ 53 * (2 ^ 53 * (4 * a * 2 ^ s))" .
  then have "?y \<le> 2 * a * 2 ^ s" by simp
  then have "?y div 2 ^ s \<le> 2 * a * 2 ^ s div 2 ^ s" by (rule div_le_mono)
  then show ?thesis by (simp add: convert_nat_def)
qed

text \<open>
  Where the product is below \<open>2^(53+k)\<close> and its last place is well below one unit of the
  result, rounding to 53 bits moves the truncated quotient by at most one, and not at all
  unless the exact product sits just under a whole number.
\<close>

lemma rounded_quotient:
  assumes k: "bitlen p \<le> 53 + k" "k \<le> s"
    and lo: "N * 2 ^ s \<le> p" and hi: "2 * p + 2 ^ k < 2 * ((N + 1) * 2 ^ s)"
  shows "rne53 p div 2 ^ s = N"
proof -
  have d: "(2::nat) ^ k dvd N * 2 ^ s" using k(2) by (simp add: le_imp_power_dvd)
  have a: "N * 2 ^ s \<le> rne53 p" by (rule rne53_ge_multiple [OF k(1) d lo])
  have b: "rne53 p < (N + 1) * 2 ^ s" using rne53_error(1) [OF k(1)] hi by linarith
  have "rne53 p div 2 ^ s < N + 1" using b by (simp add: less_mult_imp_div_less)
  moreover have "N \<le> rne53 p div 2 ^ s" using a by (simp add: less_eq_div_iff_mult_less_eq)
  ultimately show ?thesis by simp
qed

lemma bitlen_product: "a < 2 ^ 45 \<Longrightarrow> m < 2 ^ 53 \<Longrightarrow> bitlen (a * m) \<le> 53 + 45"
proof -
  assume "a < 2 ^ 45" and "m < 2 ^ 53"
  then have "a * m < 2 ^ 45 * 2 ^ 53" by (intro mult_strict_mono) auto
  then show ?thesis by (intro bitlen_le) simp
qed

lemma convert_EUR_exact:
  assumes "a < 2 ^ 45"
  shows "convert_nat 4908923593833841 52 a = 109 * a div 100"
proof -
  let ?m = "4908923593833841 :: nat" and ?N = "109 * a div 100"
  have c: "100 * (a * ?m) = (109 * a) * 2 ^ 52 + 36 * a" by simp
  have N: "100 * ?N \<le> 109 * a" "109 * a \<le> 100 * ?N + 99" by auto
  have lo: "?N * 2 ^ 52 \<le> a * ?m"
  proof -
    have "100 * (?N * 2 ^ 52) \<le> (109 * a) * 2 ^ 52" using N(1) by simp
    then show ?thesis using c by linarith
  qed
  have hi: "2 * (a * ?m) + 2 ^ 45 < 2 * ((?N + 1) * 2 ^ 52)"
  proof -
    have "200 * (a * ?m) \<le> 2 * ((100 * ?N + 99) * 2 ^ 52) + 72 * a" using c N(2) by simp
    then show ?thesis using assms by simp
  qed
  have "rne53 (a * ?m) div 2 ^ 52 = ?N"
    by (rule rounded_quotient [OF bitlen_product [OF assms] _ lo hi]) simp_all
  then show ?thesis using assms by (simp add: convert_nat_def rne53_exact)
qed

lemma convert_RUB_bounds:
  assumes "a < 2 ^ 45"
  shows "convert_nat 6341068275337658 59 a \<le> 11 * a div 1000"
    and "11 * a div 1000 \<le> convert_nat 6341068275337658 59 a + 1"
    and "\<not> 1000 dvd a \<Longrightarrow> convert_nat 6341068275337658 59 a = 11 * a div 1000"
proof -
  let ?m = "6341068275337658 :: nat" and ?N = "11 * a div 1000"
  have c: "1000 * (a * ?m) + 368 * a = (11 * a) * 2 ^ 59" by simp
  have N: "1000 * ?N \<le> 11 * a" "11 * a \<le> 1000 * ?N + 999" by auto
  have bl: "bitlen (a * ?m) \<le> 53 + 45" by (rule bitlen_product [OF assms]) simp
  have e: "convert_nat ?m 59 a = rne53 (a * ?m) div 2 ^ 59"
    using assms by (simp add: convert_nat_def rne53_exact)
  have hi: "2 * (a * ?m) + 2 ^ 45 < 2 * ((?N + 1) * 2 ^ 59)"
    using c N(2) by simp
  show "convert_nat ?m 59 a \<le> ?N"
  proof -
    have "2 * rne53 (a * ?m) \<le> 2 * (a * ?m) + 2 ^ 45" by (rule rne53_error(1) [OF bl])
    then have "rne53 (a * ?m) < (?N + 1) * 2 ^ 59" using hi by linarith
    then show ?thesis using less_mult_imp_div_less [of "rne53 (a * ?m)" "?N + 1" "2 ^ 59"]
      by (simp add: e)
  qed
  show "?N \<le> convert_nat ?m 59 a + 1"
  proof -
    have "2 * (a * ?m) \<le> 2 * rne53 (a * ?m) + 2 ^ 45" by (rule rne53_error(2) [OF bl])
    moreover have "1000 * (?N * 2 ^ 59) \<le> 1000 * (a * ?m) + 368 * a"
      using N(1) unfolding c by simp
    ultimately have "?N * 2 ^ 59 \<le> rne53 (a * ?m) + 2 ^ 59" using assms by simp
    then have "?N * 2 ^ 59 div 2 ^ 59 \<le> (rne53 (a * ?m) + 2 ^ 59) div 2 ^ 59"
      by (rule div_le_mono)
    then show ?thesis by (simp add: e)
  qed
  show "convert_nat ?m 59 a = ?N" if nd: "\<not> 1000 dvd a"
  proof -
    have "11 * a mod 1000 \<noteq> 0"
    proof
      assume "11 * a mod 1000 = 0"
      then obtain k where "11 * a = 1000 * k" by auto
      then have "a = 1000 * (91 * k - a)" by simp
      then show False using nd by (metis dvd_triv_left)
    qed
    then have "1000 * ?N + 1 \<le> 11 * a"
      using mult_div_mod_eq [of 1000 "11 * a"] by linarith
    then have "(1000 * ?N + 1) * 2 ^ 59 \<le> 1000 * (a * ?m) + 368 * a"
      unfolding c by (rule mult_right_mono) simp
    then have lo: "?N * 2 ^ 59 \<le> a * ?m" using assms by simp
    show ?thesis unfolding e
      by (rule rounded_quotient [OF bl _ lo hi]) simp
  qed
qed

lemma euro_exact:
  assumes "0 \<le> sint a" and "sint a < 2 ^ 45"
  shows "\<exists>r. ToUSD a ''EUR'' = Inr r \<and> sint r = 109 * sint a div 100"
proof -
  have b: "nat (sint a) < 2 ^ 45" using assms by simp
  have e: "convert_nat 4908923593833841 52 (nat (sint a)) = 109 * nat (sint a) div 100"
    by (rule convert_EUR_exact [OF b])
  have "109 * nat (sint a) div 100 < 2 ^ 63" using b by simp
  with ToUSD_EUR [OF assms(1)] have "\<exists>r. ToUSD a ''EUR'' = Inr r
      \<and> sint r = int (109 * nat (sint a) div 100)" unfolding e by blast
  then show ?thesis using assms(1) by (simp add: zdiv_int)
qed

lemma rouble_bounds:
  assumes "0 \<le> sint a" and "sint a < 2 ^ 45"
  shows "\<exists>r. ToUSD a ''RUB'' = Inr r \<and> sint r \<le> 11 * sint a div 1000
             \<and> 11 * sint a div 1000 - 1 \<le> sint r
             \<and> (sint a mod 1000 = 0 \<or> sint r = 11 * sint a div 1000)"
proof -
  define n where "n = nat (sint a)"
  have n: "sint a = int n" using assms(1) by (simp add: n_def)
  have b: "n < 2 ^ 45" using assms(2) n by simp
  note B = convert_RUB_bounds [OF b]
  have "convert_nat 6341068275337658 59 n < 2 ^ 63" using B(1) b by simp
  then obtain r where r: "ToUSD a ''RUB'' = Inr r"
      "sint r = int (convert_nat 6341068275337658 59 n)"
    using ToUSD_RUB [OF assms(1)] unfolding n_def by blast
  have d: "11 * sint a div 1000 = int (11 * n div 1000)" using n by (simp add: zdiv_int)
  have m: "sint a mod 1000 = int (n mod 1000)" using n by (simp add: zmod_int)
  have "n mod 1000 = 0 \<or> convert_nat 6341068275337658 59 n = 11 * n div 1000"
    using B(3) by (auto simp: dvd_eq_mod_eq_0)
  then show ?thesis using r B(1,2) unfolding d m by auto
qed

text \<open>
  Conversion from euros is exact: for every amount from 0 to \<open>2^45 - 1\<close> the converted
  amount is the whole part of 1.09 times it, although the code multiplies binary floats.
\<close>

lemma ToUSD_EUR_exact:
  assumes "0 \<le> sint a" and "sint a < 2 ^ 45"
  shows "\<exists>r. ToUSD a ''EUR'' = Inr r \<and> sint r = 109 * sint a div 100"
  using assms by (rule euro_exact)

lemma ToUSD_EUR_exact_witness:
  "\<exists>r. ToUSD 500 ''EUR'' = Inr r \<and> sint r = 545"
  using ToUSD_EUR_exact [of 500] by simp

text \<open>
  Conversion from roubles never rounds up: for every amount from 0 to \<open>2^45 - 1\<close> the
  result is the whole part of 0.011 times it, or one less; one less can only happen when the
  amount is a multiple of 1000, that is when the exact product is a whole number.
\<close>

lemma ToUSD_RUB_bounds:
  assumes "0 \<le> sint a" and "sint a < 2 ^ 45"
  shows "\<exists>r. ToUSD a ''RUB'' = Inr r \<and> sint r \<le> 11 * sint a div 1000
             \<and> 11 * sint a div 1000 - 1 \<le> sint r
             \<and> (sint a mod 1000 = 0 \<or> sint r = 11 * sint a div 1000)"
  using assms by (rule rouble_bounds)

lemma ToUSD_RUB_bounds_witness:
  "\<exists>r. ToUSD 1500 ''RUB'' = Inr r \<and> sint r = 16"
  using ToUSD_RUB_bounds [of 1500] by auto

lemma convert_RUB_23000: "convert_nat 6341068275337658 59 23000 = 252"
  by (simp add: convert_nat_def rne53_def bitlen.simps Let_def)

text \<open>
  The rouble conversion does lose a unit: 23000 RUB are worth exactly 253 USD at the
  rate 0.011 in the table, and the code answers 252.
\<close>

lemma ToUSD_RUB_loses_unit:
  "ToUSD 23000 ''RUB'' = Inr 252 \<and> 11 * 23000 = 253 * (1000 :: int)"
proof -
  have "sint (23000 :: int64) = 23000" by simp
  with convert_RUB_23000 have "convert_nat 6341068275337658 59 (nat (sint (23000 :: int64))) = 252"
    by simp
  with ToUSD_RUB [of 23000] obtain r where "ToUSD 23000 ''RUB'' = Inr r" and "sint r = 252"
    by auto
  moreover have "r = 252" by (rule sint64_eqI) (simp add: \<open>sint r = 252\<close>)
  ultimately show ?thesis by simp
qed

end
