(* ===== verification/Utf8.thy ===== *)
theory Utf8
  imports GoStrings
begin

text \<open>
  How Go's \<open>encoding/json\<close> writes a string between quotes (\<open>escape\<close>) and reads one back
  (\<open>unquote\<close>), byte by byte, with the UTF-8 decoding of \<open>unicode/utf8\<close> that both use; and
  the scanner that finds the closing quote. On valid UTF-8 reading undoes writing.
\<close>

section \<open>Runes\<close>

definition byte :: "char \<Rightarrow> nat" where
  "byte c = of_char c"

definition byte_in :: "char \<Rightarrow> nat \<Rightarrow> nat \<Rightarrow> bool" where
  "byte_in c lo hi \<longleftrightarrow> lo \<le> byte c \<and> byte c \<le> hi"

text \<open>The range of the second byte, which depends on some first bytes.\<close>

definition second_lo :: "char \<Rightarrow> nat" where
  "second_lo c = (if byte c = 224 then 160 else if byte c = 240 then 144 else 128)"

definition second_hi :: "char \<Rightarrow> nat" where
  "second_hi c = (if byte c = 237 then 159 else if byte c = 244 then 143 else 191)"

text \<open>The number of bytes of the first rune of a byte string, 0 where it is not valid UTF-8.\<close>

definition rune_size :: "string \<Rightarrow> nat" where
  "rune_size s =
     (case s of
        [] \<Rightarrow> 0
      | c # cs \<Rightarrow>
          if byte c < 128 then 1
          else if byte_in c 194 223 then
            (case cs of c1 # _ \<Rightarrow> if byte_in c1 128 191 then 2 else 0 | _ \<Rightarrow> 0)
          else if byte_in c 224 239 then
            (case cs of
               c1 # c2 # _ \<Rightarrow>
                 if byte_in c1 (second_lo c) (second_hi c) \<and> byte_in c2 128 191 then 3 else 0
             | _ \<Rightarrow> 0)
          else if byte_in c 240 244 then
            (case cs of
               c1 # c2 # c3 # _ \<Rightarrow>
                 if byte_in c1 (second_lo c) (second_hi c) \<and> byte_in c2 128 191
                    \<and> byte_in c3 128 191 then 4 else 0
             | _ \<Rightarrow> 0)
          else 0)"

function utf8_valid :: "string \<Rightarrow> bool" where
  "utf8_valid [] = True"
| "utf8_valid (c # cs) =
     (rune_size (c # cs) \<noteq> 0 \<and> utf8_valid (drop (rune_size (c # cs) - 1) cs))"
  by pat_completeness auto
termination by (relation "measure length") auto

text \<open>The UTF-8 bytes of a code point (\<open>utf8.EncodeRune\<close>).\<close>

definition encode_rune :: "nat \<Rightarrow> string" where
  "encode_rune r =
     (if r < 128 then [char_of r]
      else if r < 2048 then [char_of (192 + r div 64), char_of (128 + r mod 64)]
      else if r < 65536 then
        [char_of (224 + r div 4096), char_of (128 + r div 64 mod 64), char_of (128 + r mod 64)]
      else
        [char_of (240 + r div 262144), char_of (128 + r div 4096 mod 64),
         char_of (128 + r div 64 mod 64), char_of (128 + r mod 64)])"

definition replacement :: string where
  "replacement = [CHR 0xEF, CHR 0xBF, CHR 0xBD]"

text \<open>What a JSON text keeps of a byte string: each byte that is not UTF-8 is replaced.\<close>

function to_valid :: "string \<Rightarrow> string" where
  "to_valid [] = []"
| "to_valid (c # cs) =
     (if rune_size (c # cs) = 0 then replacement @ to_valid cs
      else take (rune_size (c # cs)) (c # cs) @ to_valid (drop (rune_size (c # cs) - 1) cs))"
  by pat_completeness auto
termination by (relation "measure length") auto

section \<open>Writing a string\<close>

definition hex_char :: "nat \<Rightarrow> char" where
  "hex_char d = (if d < 10 then digit_char d else char_of (87 + d))"

abbreviation backslash :: char where "backslash \<equiv> CHR 0x5C"
abbreviation dquote :: char where "dquote \<equiv> CHR 0x22"

definition escape_ascii :: "char \<Rightarrow> string" where
  "escape_ascii c =
     (if c = dquote \<or> c = backslash then [backslash, c]
      else if byte c = 8 then [backslash, CHR ''b'']
      else if byte c = 12 then [backslash, CHR ''f'']
      else if byte c = 10 then [backslash, CHR ''n'']
      else if byte c = 13 then [backslash, CHR ''r'']
      else if byte c = 9 then [backslash, CHR ''t'']
      else if byte c < 32 \<or> c = CHR ''<'' \<or> c = CHR ''>'' \<or> c = CHR ''&'' then
        [backslash, CHR ''u'', CHR ''0'', CHR ''0'', hex_char (byte c div 16), hex_char (byte c mod 16)]
      else [c])"

text \<open>\<open>appendString\<close> with HTML escaping, without the surrounding quotes.\<close>

function escape :: "string \<Rightarrow> string" where
  "escape [] = []"
| "escape (c # cs) =
     (if byte c < 128 then escape_ascii c @ escape cs
      else if rune_size (c # cs) = 0 then backslash # ''ufffd'' @ escape cs
      else if take 3 (c # cs) = [CHR 0xE2, CHR 0x80, CHR 0xA8] then backslash # ''u2028'' @ escape (drop 2 cs)
      else if take 3 (c # cs) = [CHR 0xE2, CHR 0x80, CHR 0xA9] then backslash # ''u2029'' @ escape (drop 2 cs)
      else take (rune_size (c # cs)) (c # cs) @ escape (drop (rune_size (c # cs) - 1) cs))"
  by pat_completeness auto
termination by (relation "measure length") auto

section \<open>Reading a string\<close>

definition hex_val :: "char \<Rightarrow> nat option" where
  "hex_val c =
     (if is_digit c then Some (digit_val c)
      else if byte_in c 97 102 then Some (byte c - 87)
      else if byte_in c 65 70 then Some (byte c - 55)
      else None)"

text \<open>Four hexadecimal digits at the start of a byte string.\<close>

definition hex4 :: "string \<Rightarrow> nat option" where
  "hex4 s =
     (case s of
        a # b # c # d # _ \<Rightarrow>
          (case (hex_val a, hex_val b, hex_val c, hex_val d) of
             (Some w, Some x, Some y, Some z) \<Rightarrow> Some (4096 * w + 256 * x + 16 * y + z)
           | _ \<Rightarrow> None)
      | _ \<Rightarrow> None)"

text \<open>The scanner of string tokens: the bytes before the closing quote, and what follows it.\<close>

fun scan_string :: "string \<Rightarrow> (string \<times> string) option" where
  "scan_string [] = None"
| "scan_string (c # cs) =
     (if c = dquote then Some ([], cs)
      else if c = backslash then
        (case cs of
           [] \<Rightarrow> None
         | e # r \<Rightarrow>
             if e \<in> {CHR ''b'', CHR ''f'', CHR ''n'', CHR ''r'', CHR ''t'', backslash, CHR ''/'', dquote} then
               (case scan_string r of None \<Rightarrow> None | Some (x, y) \<Rightarrow> Some (c # e # x, y))
             else if e = CHR ''u'' \<and> hex4 r \<noteq> None then
               (case scan_string (drop 4 r) of
                  None \<Rightarrow> None | Some (x, y) \<Rightarrow> Some (c # e # take 4 r @ x, y))
             else None)
      else if byte c < 32 then None
      else (case scan_string cs of None \<Rightarrow> None | Some (x, y) \<Rightarrow> Some (c # x, y)))"

definition simple_escape :: "char \<Rightarrow> char option" where
  "simple_escape e =
     (if e \<in> {dquote, backslash, CHR ''/'', CHR 0x27} then Some e
      else if e = CHR ''b'' then Some (char_of (8::nat))
      else if e = CHR ''f'' then Some (char_of (12::nat))
      else if e = CHR ''n'' then Some (char_of (10::nat))
      else if e = CHR ''r'' then Some (char_of (13::nat))
      else if e = CHR ''t'' then Some (char_of (9::nat))
      else None)"

definition is_surrogate :: "nat \<Rightarrow> bool" where
  "is_surrogate r \<longleftrightarrow> 55296 \<le> r \<and> r < 57344"

text \<open>\<open>utf16.DecodeRune\<close> of an escape and the escape that follows it, if they are a pair.\<close>

definition surrogate_pair :: "nat \<Rightarrow> string \<Rightarrow> nat option" where
  "surrogate_pair r1 s =
     (case s of
        b # u # r \<Rightarrow>
          (if b = backslash \<and> u = CHR ''u'' then
             (case hex4 r of
                Some r2 \<Rightarrow>
                  if r1 < 56320 \<and> 56320 \<le> r2 \<and> r2 < 57344
                  then Some ((r1 - 55296) * 1024 + (r2 - 56320) + 65536) else None
              | None \<Rightarrow> None)
           else None)
      | _ \<Rightarrow> None)"

text \<open>\<open>unquoteBytes\<close>, on the bytes between the quotes.\<close>

function unquote :: "string \<Rightarrow> string option" where
  "unquote [] = Some []"
| "unquote (c # cs) =
     (if c = backslash then
        (case cs of
           [] \<Rightarrow> None
         | e # r \<Rightarrow>
             if e = CHR ''u'' then
               (case hex4 r of
                  None \<Rightarrow> None
                | Some rr \<Rightarrow>
                    if is_surrogate rr then
                      (case surrogate_pair rr (drop 4 r) of
                         Some p \<Rightarrow> map_option ((@) (encode_rune p)) (unquote (drop 10 r))
                       | None \<Rightarrow> map_option ((@) replacement) (unquote (drop 4 r)))
                    else map_option ((@) (encode_rune rr)) (unquote (drop 4 r)))
             else (case simple_escape e of
                     None \<Rightarrow> None
                   | Some x \<Rightarrow> map_option ((#) x) (unquote r)))
      else if c = dquote \<or> byte c < 32 then None
      else if byte c < 128 then map_option ((#) c) (unquote cs)
      else if rune_size (c # cs) = 0 then map_option ((@) replacement) (unquote cs)
      else map_option ((@) (take (rune_size (c # cs)) (c # cs)))
             (unquote (drop (rune_size (c # cs) - 1) cs)))"
  by pat_completeness auto
termination by (relation "measure length") auto

declare escape.simps(2) [simp del] unquote.simps(2) [simp del] scan_string.simps(2) [simp del]

section \<open>Round trip\<close>

lemma byte_less: "byte c < 256"
  by (simp add: byte_def)

lemma byte_inject: "byte c = byte d \<longleftrightarrow> c = d"
  by (simp add: byte_def)

lemma rune_cases:
  assumes "rune_size (c # cs) \<noteq> 0" and "\<not> byte c < 128"
  obtains (two) c1 r where "cs = c1 # r" "rune_size (c # cs) = 2" "byte_in c 194 223"
      "byte_in c1 128 191"
    | (three) c1 c2 r where "cs = c1 # c2 # r" "rune_size (c # cs) = 3" "byte_in c 224 239"
      "\<not> byte_in c 194 223" "byte_in c1 (second_lo c) (second_hi c)" "byte_in c2 128 191"
    | (four) c1 c2 c3 r where "cs = c1 # c2 # c3 # r" "rune_size (c # cs) = 4" "byte_in c 240 244"
      "\<not> byte_in c 194 223" "\<not> byte_in c 224 239"
      "byte_in c1 (second_lo c) (second_hi c)" "byte_in c2 128 191" "byte_in c3 128 191"
  using assms unfolding rune_size_def
  by (auto split: list.splits if_splits)

lemma second_lo_ge: "128 \<le> second_lo c"
  by (simp add: second_lo_def)

text \<open>A rune is decided by its own bytes, and all bytes of a longer rune are high.\<close>

lemma rune_size_take:
  assumes "rune_size (c # cs) \<noteq> 0" and "\<not> byte c < 128"
  shows "rune_size (take (rune_size (c # cs)) (c # cs) @ t) = rune_size (c # cs)"
    and "take (rune_size (c # cs)) (c # cs) = c # take (rune_size (c # cs) - 1) cs"
    and "length (take (rune_size (c # cs) - 1) cs) = rune_size (c # cs) - 1"
    and "\<forall>x \<in> set (take (rune_size (c # cs)) (c # cs)). 128 \<le> byte x"
  using assms(2) second_lo_ge [of c]
  by (cases rule: rune_cases [OF assms]; force simp: rune_size_def byte_in_def)+

lemma scan_high_bytes:
  "\<forall>x \<in> set xs. 128 \<le> byte x \<Longrightarrow>
   scan_string (xs @ s) = (case scan_string s of None \<Rightarrow> None | Some (x, y) \<Rightarrow> Some (xs @ x, y))"
proof (induction xs)
  case Nil
  then show ?case by (auto split: option.splits)
next
  case (Cons a xs)
  then have "a \<noteq> dquote" "a \<noteq> backslash" "\<not> byte a < 32" by (auto simp: byte_def)
  with Cons show ?case by (auto simp: scan_string.simps(2) split: option.splits)
qed

lemma hex_val_hex_char [simp]: "d < 16 \<Longrightarrow> hex_val (hex_char d) = Some d"
proof (cases "d < 10")
  case True
  then show ?thesis by (simp add: hex_val_def hex_char_def)
next
  case False
  moreover assume "d < 16"
  ultimately show ?thesis
    by (simp add: hex_val_def hex_char_def byte_in_def byte_def is_digit_def)
qed

lemma char_of_byte [simp]: "char_of (byte c) = c"
  by (simp add: byte_def)

lemma hex4_ascii:
  "byte c < 128 \<Longrightarrow>
   hex4 (CHR ''0'' # CHR ''0'' # hex_char (byte c div 16) # hex_char (byte c mod 16) # t) = Some (byte c)"
proof -
  assume "byte c < 128"
  moreover have "hex_val (CHR ''0'') = Some 0" by (simp add: hex_val_def is_digit_def digit_val_def)
  ultimately show ?thesis by (simp add: hex4_def less_mult_imp_div_less)
qed

lemma byte_eqs:
  "byte c = 8 \<Longrightarrow> c = char_of (8::nat)" "byte c = 12 \<Longrightarrow> c = char_of (12::nat)"
  "byte c = 10 \<Longrightarrow> c = char_of (10::nat)" "byte c = 13 \<Longrightarrow> c = char_of (13::nat)"
  "byte c = 9 \<Longrightarrow> c = char_of (9::nat)"
  using char_of_byte [of c] by (metis char_of_byte)+

lemma unquote_escape_ascii:
  assumes "byte c < 128"
  shows "unquote (escape_ascii c @ t) = map_option ((#) c) (unquote t)"
proof -
  have enc: "encode_rune (byte c) = [c]" using assms by (simp add: encode_rune_def)
  have app1: "(@) [c] = (#) c" by (rule ext) simp
  have nsur: "\<not> is_surrogate (byte c)" using assms by (simp add: is_surrogate_def)
  have u: "unquote (backslash # CHR ''u'' # CHR ''0'' # CHR ''0'' # hex_char (byte c div 16) #
      hex_char (byte c mod 16) # t) = map_option ((#) c) (unquote t)"
    using assms by (simp add: unquote.simps(2) hex4_ascii nsur enc app1)
  have plain: "unquote (c # t) = map_option ((#) c) (unquote t)"
    if "c \<noteq> dquote" "c \<noteq> backslash" "\<not> byte c < 32"
    using that assms by (simp add: unquote.simps(2))
  show ?thesis
    using u plain
    by (auto simp: escape_ascii_def unquote.simps(2) [of backslash] simple_escape_def dest: byte_eqs)
qed

lemma scan_escape_ascii:
  assumes "byte c < 128"
  shows "scan_string (escape_ascii c @ t) =
         (case scan_string t of None \<Rightarrow> None | Some (x, y) \<Rightarrow> Some (escape_ascii c @ x, y))"
proof -
  have u: "scan_string (backslash # CHR ''u'' # CHR ''0'' # CHR ''0'' # hex_char (byte c div 16) #
      hex_char (byte c mod 16) # t) =
      (case scan_string t of None \<Rightarrow> None | Some (x, y) \<Rightarrow>
        Some (backslash # CHR ''u'' # CHR ''0'' # CHR ''0'' # hex_char (byte c div 16) #
          hex_char (byte c mod 16) # x, y))"
    using assms by (auto simp: scan_string.simps(2) [of backslash] hex4_ascii split: option.splits)
  show ?thesis
    using u by (auto simp: escape_ascii_def scan_string.simps(2) split: option.splits)
qed

lemma scan_u_escape:
  "hex4 [a, b, c, d] \<noteq> None \<Longrightarrow>
   scan_string (backslash # CHR ''u'' # a # b # c # d # t) =
     (case scan_string t of None \<Rightarrow> None | Some (x, y) \<Rightarrow>
       Some (backslash # CHR ''u'' # a # b # c # d # x, y))"
proof -
  assume "hex4 [a, b, c, d] \<noteq> None"
  moreover have "hex4 (a # b # c # d # t) = hex4 [a, b, c, d]" by (simp add: hex4_def)
  ultimately show ?thesis
    by (auto simp: scan_string.simps(2) [of backslash] split: option.splits)
qed

lemma hex4_consts:
  "hex4 (''fffd'' @ t) = Some 65533" "hex4 (''2028'' @ t) = Some 8232" "hex4 (''2029'' @ t) = Some 8233"
  by (simp_all add: hex4_def hex_val_def is_digit_def digit_val_def byte_in_def byte_def)

text \<open>Every written string is a well-formed string token.\<close>

lemma scan_escape: "scan_string (escape s @ dquote # rest) = Some (escape s, rest)"
proof (induction s rule: escape.induct)
  case 1
  show ?case by (simp add: scan_string.simps(2))
next
  case (2 c cs)
  have sp: "hex4 ''fffd'' \<noteq> None" "hex4 ''2028'' \<noteq> None" "hex4 ''2029'' \<noteq> None"
    using hex4_consts [of "[]"] by simp_all
  show ?case
  proof (cases "byte c < 128 \<or> rune_size (c # cs) = 0")
    case True
    then show ?thesis
      using "2.IH"(1,2) sp by (auto simp: escape.simps(2) scan_escape_ascii scan_u_escape)
  next
    case False
    then have hi: "\<forall>x \<in> set (take (rune_size (c # cs)) (c # cs)). 128 \<le> byte x"
      by (intro rune_size_take(4)) auto
    show ?thesis
    proof (cases "take 3 (c # cs) \<in> {[CHR 0xE2, CHR 0x80, CHR 0xA8], [CHR 0xE2, CHR 0x80, CHR 0xA9]}")
      case True
      then show ?thesis
        using False "2.IH"(3,4) sp
        by (auto simp: escape.simps(2) scan_u_escape)
    next
      case no: False
      then show ?thesis
        using False "2.IH"(5) scan_high_bytes [OF hi]
        by (auto simp: escape.simps(2))
    qed
  qed
qed

lemma rune_size_separators:
  "take 3 (c # cs) = [CHR 0xE2, CHR 0x80, x] \<Longrightarrow> byte_in x 128 191 \<Longrightarrow> rune_size (c # cs) = 3"
proof -
  assume t: "take 3 (c # cs) = [CHR 0xE2, CHR 0x80, x]" and x: "byte_in x 128 191"
  then have c: "c = CHR 0xE2" by simp
  moreover obtain r where "cs = CHR 0x80 # x # r"
    using t by (cases cs; cases "tl cs") auto
  ultimately show ?thesis
    using x by (simp add: rune_size_def byte_in_def second_lo_def second_hi_def byte_def)
qed

lemma encode_separators:
  "encode_rune 8232 = [CHR 0xE2, CHR 0x80, CHR 0xA8]" "encode_rune 8233 = [CHR 0xE2, CHR 0x80, CHR 0xA9]"
proof -
  have "char_of (226 :: nat) = CHR 0xE2" "char_of (128 :: nat) = CHR 0x80"
    "char_of (168 :: nat) = CHR 0xA8" "char_of (169 :: nat) = CHR 0xA9" by code_simp+
  then show "encode_rune 8232 = [CHR 0xE2, CHR 0x80, CHR 0xA8]"
    "encode_rune 8233 = [CHR 0xE2, CHR 0x80, CHR 0xA9]" by (simp_all add: encode_rune_def)
qed

lemma encode_replacement: "encode_rune 65533 = replacement"
proof -
  have "char_of (239 :: nat) = CHR 0xEF" "char_of (191 :: nat) = CHR 0xBF" "char_of (189 :: nat) = CHR 0xBD"
    by code_simp+
  then show ?thesis by (simp add: encode_rune_def replacement_def)
qed

lemma unquote_u_escape:
  "unquote (backslash # CHR ''u'' # ''fffd'' @ t) = map_option ((@) replacement) (unquote t)"
  "unquote (backslash # CHR ''u'' # ''2028'' @ t) = map_option ((@) [CHR 0xE2, CHR 0x80, CHR 0xA8]) (unquote t)"
  "unquote (backslash # CHR ''u'' # ''2029'' @ t) = map_option ((@) [CHR 0xE2, CHR 0x80, CHR 0xA9]) (unquote t)"
  using hex4_consts [of t] encode_replacement encode_separators
  by (simp_all add: unquote.simps(2) [of backslash] is_surrogate_def)

text \<open>A rune of several bytes is read as it is.\<close>

lemma unquote_high_rune:
  assumes n: "rune_size (c # cs) \<noteq> 0" and hi: "\<not> byte c < 128"
  shows "unquote (take (rune_size (c # cs)) (c # cs) @ t)
         = map_option ((@) (take (rune_size (c # cs)) (c # cs))) (unquote t)"
proof -
  let ?n = "rune_size (c # cs)"
  note R = rune_size_take [OF n hi]
  define w where "w = take (?n - 1) cs @ t"
  have sz: "rune_size (c # w) = ?n" using R(1) [of t] by (simp add: R(2) w_def)
  have parts: "drop (?n - 1) w = t" "take ?n (c # w) = take ?n (c # cs)"
    using R(2,3) n by (simp_all add: w_def take_Cons')
  have "c \<noteq> backslash" "c \<noteq> dquote" "\<not> byte c < 32" using hi by (auto simp: byte_def)
  then have "unquote (c # w) = map_option ((@) (take ?n (c # w))) (unquote (drop (?n - 1) w))"
    using hi n unfolding unquote.simps(2) [of c w] sz by simp
  moreover have "take ?n (c # cs) @ t = c # w" by (simp only: R(2) w_def append_Cons)
  ultimately show ?thesis by (simp only: parts)
qed

text \<open>Reading undoes writing, up to the bytes that are not UTF-8.\<close>

lemma unquote_escape_any: "unquote (escape s) = Some (to_valid s)"
proof (induction s rule: escape.induct)
  case 1
  show ?case by simp
next
  case (2 c cs)
  let ?n = "rune_size (c # cs)"
  consider (ascii) "byte c < 128" | (bad) "\<not> byte c < 128" "?n = 0"
    | (sep8) "\<not> byte c < 128" "?n \<noteq> 0" "take 3 (c # cs) = [CHR 0xE2, CHR 0x80, CHR 0xA8]"
    | (sep9) "\<not> byte c < 128" "?n \<noteq> 0" "take 3 (c # cs) = [CHR 0xE2, CHR 0x80, CHR 0xA9]"
    | (other) "\<not> byte c < 128" "?n \<noteq> 0" "take 3 (c # cs) \<noteq> [CHR 0xE2, CHR 0x80, CHR 0xA8]"
        "take 3 (c # cs) \<noteq> [CHR 0xE2, CHR 0x80, CHR 0xA9]"
    by blast
  then show ?case
  proof cases
    case ascii
    then have "?n = 1" by (simp add: rune_size_def)
    with ascii "2.IH"(1) show ?thesis by (simp add: escape.simps(2) unquote_escape_ascii)
  next
    case bad
    with "2.IH"(2) show ?thesis by (simp add: escape.simps(2) unquote_u_escape [simplified])
  next
    case sep8
    then have "?n = 3" by (intro rune_size_separators) (auto simp: byte_in_def byte_def)
    with sep8 "2.IH"(3) show ?thesis
      by (simp add: escape.simps(2) unquote_u_escape [simplified])
  next
    case sep9
    then have "?n = 3" by (intro rune_size_separators) (auto simp: byte_in_def byte_def)
    with sep9 "2.IH"(4) show ?thesis
      by (simp add: escape.simps(2) unquote_u_escape [simplified])
  next
    case other
    then have "escape (c # cs) = take ?n (c # cs) @ escape (drop (?n - 1) cs)"
      by (auto simp: escape.simps(2))
    with other "2.IH"(5) show ?thesis by (simp add: unquote_high_rune)
  qed
qed

lemma to_valid_id: "utf8_valid s \<Longrightarrow> to_valid s = s"
proof (induction s rule: to_valid.induct)
  case (2 c cs)
  then have n: "rune_size (c # cs) \<noteq> 0" and "to_valid (drop (rune_size (c # cs) - 1) cs) = drop (rune_size (c # cs) - 1) cs"
    by auto
  then show ?case by (simp add: take_Cons')
qed simp

lemma to_valid_Nil [simp]: "to_valid s = [] \<longleftrightarrow> s = []"
  by (cases s) (simp_all add: replacement_def)

lemma unquote_escape: "utf8_valid s \<Longrightarrow> unquote (escape s) = Some s"
  by (simp add: unquote_escape_any to_valid_id)

declare utf8_valid.simps(2) [simp del] to_valid.simps(2) [simp del]

end
