(* ===== verification/GoTime.thy ===== *)
theory GoTime
  imports GoStrings
begin

text \<open>
  Go's \<open>time.Time\<close> as the services use it: an instant, in nanoseconds since the Unix epoch
  (the zero \<open>Time\<close> is the first of January of year 1); \<open>time.Unix\<close> and \<open>Time.Unix\<close>; the
  civil date of an instant; and the RFC 3339 text that \<open>encoding/json\<close> writes and reads for
  a time, with its round trip. Texts are written in UTC, the zone of the containers the
  services run in; reading accepts any numeric offset. The reader is the strict RFC 3339
  reader of package \<open>time\<close>; the lenient layouts Go falls back to when the strict one
  refuses a text (a one-digit hour, a comma before the fraction) count as errors here.
\<close>

type_synonym gotime = int

definition zero_time :: gotime where
  "zero_time = - 62135596800 * 10 ^ 9"

text \<open>\<open>time.Unix(sec, 0)\<close> and \<open>t.Unix()\<close>.\<close>

definition time_Unix :: "int64 \<Rightarrow> gotime" where
  "time_Unix sec = sint sec * 10 ^ 9"

definition Unix :: "gotime \<Rightarrow> int64" where
  "Unix t = of_int (t div 10 ^ 9)"

section \<open>Civil dates\<close>

text \<open>
  Days are counted from the first of March of year 0, so that a leap day ends its year;
  the cycles of 400, 100, 4 and 1 years are taken off in turn.
\<close>

definition civil_of_days :: "int \<Rightarrow> int \<times> int \<times> int" where
  "civil_of_days z =
     (let n400 = z div 146097; r400 = z mod 146097;
          n100 = min 3 (r400 div 36524); r100 = r400 - n100 * 36524;
          n4 = r100 div 1461; r4 = r100 mod 1461;
          n1 = min 3 (r4 div 365); doy = r4 - n1 * 365;
          mp = (5 * doy + 2) div 153;
          d = doy - (153 * mp + 2) div 5 + 1;
          m = (if mp < 10 then mp + 3 else mp - 9);
          y = 400 * n400 + 100 * n100 + 4 * n4 + n1
      in (if m \<le> 2 then y + 1 else y, m, d))"

definition days_of_civil :: "int \<Rightarrow> int \<Rightarrow> int \<Rightarrow> int" where
  "days_of_civil y m d =
     (let y' = (if m \<le> 2 then y - 1 else y);
          mp = (if m \<le> 2 then m + 9 else m - 3);
          doy = (153 * mp + 2) div 5 + d - 1
      in 365 * y' + y' div 4 - y' div 100 + y' div 400 + doy)"

definition is_leap :: "int \<Rightarrow> bool" where
  "is_leap y \<longleftrightarrow> y mod 4 = 0 \<and> (y mod 100 \<noteq> 0 \<or> y mod 400 = 0)"

definition daysIn :: "int \<Rightarrow> int \<Rightarrow> int" where
  "daysIn m y =
     (if m = 2 then if is_leap y then 29 else 28
      else if m = 4 \<or> m = 6 \<or> m = 9 \<or> m = 11 then 30 else 31)"

text \<open>The year cycles: an equation for the day number and the leap day.\<close>

lemma year_cycles:
  fixes z :: int
  defines "n400 \<equiv> z div 146097" and "r400 \<equiv> z mod 146097"
  defines "n100 \<equiv> min 3 (r400 div 36524)"
  defines "r100 \<equiv> r400 - n100 * 36524"
  defines "n4 \<equiv> r100 div 1461" and "r4 \<equiv> r100 mod 1461"
  defines "n1 \<equiv> min 3 (r4 div 365)"
  defines "doy \<equiv> r4 - n1 * 365"
  shows "0 \<le> n100" "n100 \<le> 3" "0 \<le> n4" "n4 \<le> 24" "0 \<le> n1" "n1 \<le> 3"
    and "0 \<le> doy" "doy \<le> 365"
    and "z = 146097 * n400 + 36524 * n100 + 1461 * n4 + 365 * n1 + doy"
    and "doy = 365 \<Longrightarrow> n1 = 3 \<and> (n4 < 24 \<or> n100 = 3)"
proof -
  have r400: "0 \<le> r400" "r400 < 146097" "z = 146097 * n400 + r400"
    by (auto simp: r400_def n400_def)
  show n100: "0 \<le> n100" "n100 \<le> 3"
    using r400(1) by (auto simp: n100_def pos_imp_zdiv_nonneg_iff)
  have r100: "0 \<le> r100" "r100 \<le> 36524" "n100 < 3 \<Longrightarrow> r100 < 36524"
    using r400 unfolding r100_def n100_def by (auto simp: min_def split: if_splits)
  show n4: "0 \<le> n4" "n4 \<le> 24" using r100 by (auto simp: n4_def)
  have r4: "0 \<le> r4" "r4 < 1461" "r100 = 1461 * n4 + r4" by (auto simp: r4_def n4_def)
  show n1: "0 \<le> n1" "n1 \<le> 3" using r4 by (auto simp: n1_def pos_imp_zdiv_nonneg_iff)
  show doy: "0 \<le> doy" "doy \<le> 365"
    using r4 unfolding doy_def n1_def by (auto simp: min_def split: if_splits)
  show "z = 146097 * n400 + 36524 * n100 + 1461 * n4 + 365 * n1 + doy"
    using r400(3) r4(3) by (simp add: r100_def doy_def)
  show "doy = 365 \<Longrightarrow> n1 = 3 \<and> (n4 < 24 \<or> n100 = 3)"
  proof -
    assume h: "doy = 365"
    then have n1: "n1 = 3" using r4(1,2) unfolding doy_def n1_def
      by (auto simp: min_def split: if_splits)
    with h have "r4 = 1460" by (simp add: doy_def)
    with r4(3) r100 n4 n100 n1 show ?thesis by auto
  qed
qed

lemma civil_month_day:
  fixes doy :: int
  assumes "0 \<le> doy" "doy \<le> 365"
  defines "mp \<equiv> (5 * doy + 2) div 153"
  defines "d \<equiv> doy - (153 * mp + 2) div 5 + 1"
  shows "0 \<le> mp" "mp \<le> 11" "1 \<le> d" "d \<le> 31"
    and "mp \<in> {1, 3, 6, 8} \<Longrightarrow> d \<le> 30" and "mp = 11 \<Longrightarrow> d \<le> 29"
    and "mp = 11 \<Longrightarrow> d = 29 \<Longrightarrow> doy = 365"
proof -
  have b: "153 * mp \<le> 5 * doy + 2" "5 * doy + 2 < 153 * mp + 153" by (auto simp: mp_def)
  show mp: "0 \<le> mp" "mp \<le> 11" using assms(1,2) b by linarith+
  define q where "q = (153 * mp + 2) div 5"
  have q: "5 * q \<le> 153 * mp + 2" "153 * mp + 2 < 5 * q + 5" by (auto simp: q_def)
  have d: "d = doy - q + 1" by (simp add: d_def q_def)
  show "1 \<le> d" "d \<le> 31" using b q d by linarith+
  show "mp \<in> {1, 3, 6, 8} \<Longrightarrow> d \<le> 30" using b q d by auto
  show "mp = 11 \<Longrightarrow> d \<le> 29" "mp = 11 \<Longrightarrow> d = 29 \<Longrightarrow> doy = 365" using b q d assms(2) by auto
qed

text \<open>The year of the cycle counts, as the divisions of \<open>days_of_civil\<close> see it.\<close>

lemma year_divs:
  fixes y :: int
  assumes "y = 400 * a + 100 * b + 4 * c + e" "0 \<le> b" "b \<le> 3" "0 \<le> c" "c \<le> 24" "0 \<le> e" "e \<le> 3"
  shows "y div 400 = a" "y div 100 = 4 * a + b" "y div 4 = 100 * a + 25 * b + c"
proof -
  show "y div 400 = a"
    by (rule int_div_pos_eq [where r = "100 * b + 4 * c + e"]) (use assms in auto)
  show "y div 100 = 4 * a + b"
    by (rule int_div_pos_eq [where r = "4 * c + e"]) (use assms in auto)
  show "y div 4 = 100 * a + 25 * b + c"
    by (rule int_div_pos_eq [where r = e]) (use assms in auto)
qed

lemma leap_after:
  fixes a b c :: int
  assumes "0 \<le> b" "b \<le> 3" "0 \<le> c" "c \<le> 24" "c < 24 \<or> b = 3"
  shows "is_leap (400 * a + 100 * b + 4 * c + 4)"
proof (cases "c = 24")
  case True
  with assms have "400 * a + 100 * b + 4 * c + 4 = 400 * (a + 1)" by simp
  moreover have "400 * (a + 1) mod 4 = 0" "400 * (a + 1) mod 400 = 0" by presburger+
  ultimately show ?thesis by (simp only: is_leap_def) blast
next
  case False
  have "(400 * a + 100 * b + 4 * c + 4) mod 100 = 4 * c + 4"
    using False assms by (intro int_mod_pos_eq [where q = "4 * a + b"]) auto
  moreover have "(400 * a + 100 * b + 4 * c + 4) mod 4 = 0" by presburger
  ultimately show ?thesis using assms False by (simp add: is_leap_def)
qed

lemma civil_of_days_ok:
  assumes "civil_of_days z = (y, m, d)"
  shows "days_of_civil y m d = z" and "1 \<le> m" and "m \<le> 12" and "1 \<le> d" and "d \<le> daysIn m y"
proof -
  define n400 r400 where "n400 = z div 146097" and "r400 = z mod 146097"
  define n100 where "n100 = min 3 (r400 div 36524)"
  define r100 where "r100 = r400 - n100 * 36524"
  define n4 r4 where "n4 = r100 div 1461" and "r4 = r100 mod 1461"
  define n1 where "n1 = min 3 (r4 div 365)"
  define doy where "doy = r4 - n1 * 365"
  define mp where "mp = (5 * doy + 2) div 153"
  define y0 where "y0 = 400 * n400 + 100 * n100 + 4 * n4 + n1"
  note defs = n400_def r400_def n100_def r100_def n4_def r4_def n1_def doy_def
  have C: "0 \<le> n100" "n100 \<le> 3" "0 \<le> n4" "n4 \<le> 24" "0 \<le> n1" "n1 \<le> 3" "0 \<le> doy" "doy \<le> 365"
    "z = 146097 * n400 + 36524 * n100 + 1461 * n4 + 365 * n1 + doy"
    "doy = 365 \<Longrightarrow> n1 = 3 \<and> (n4 < 24 \<or> n100 = 3)"
    using year_cycles [of z] unfolding defs by blast+
  note M = civil_month_day [OF C(7,8), folded mp_def]
  note Y = year_divs [OF y0_def C(1-6)]
  have "civil_of_days z =
      (if (if mp < 10 then mp + 3 else mp - 9) \<le> 2 then y0 + 1 else y0,
       if mp < 10 then mp + 3 else mp - 9, doy - (153 * mp + 2) div 5 + 1)"
    unfolding civil_of_days_def
    by (simp only: Let_def defs [symmetric] mp_def [symmetric] y0_def [symmetric])
  then have ymd: "m = (if mp < 10 then mp + 3 else mp - 9)" "y = (if m \<le> 2 then y0 + 1 else y0)"
    "d = doy - (153 * mp + 2) div 5 + 1"
    using assms by auto
  have mp': "(if m \<le> 2 then m + 9 else m - 3) = mp" using ymd(1) M(1,2) by auto
  have y': "(if m \<le> 2 then y - 1 else y) = y0" using ymd(2) by auto
  show "days_of_civil y m d = z"
    unfolding days_of_civil_def Let_def mp' y' Y using C(9) ymd(3) y0_def by linarith
  show "1 \<le> m" "m \<le> 12" using ymd(1) M(1,2) by (auto split: if_splits)
  show "1 \<le> d" using M(3) ymd(3) by simp
  have feb: "is_leap y" if "m = 2" "d = 29"
  proof -
    have "mp = 11" using that(1) ymd(1) M(1,2) by (auto split: if_splits)
    then have "doy = 365" using M(7) that(2) ymd(3) by simp
    then have "n1 = 3" "n4 < 24 \<or> n100 = 3" using C(10) by auto
    then have "y = 400 * n400 + 100 * n100 + 4 * n4 + 4" using ymd(2) that(1) y0_def by simp
    with leap_after [OF C(1-4) \<open>n4 < 24 \<or> n100 = 3\<close>] show ?thesis by simp
  qed
  have mps: "m = 2 \<Longrightarrow> mp = 11" "m = 4 \<Longrightarrow> mp = 1" "m = 6 \<Longrightarrow> mp = 3" "m = 9 \<Longrightarrow> mp = 6"
    "m = 11 \<Longrightarrow> mp = 8"
    using ymd(1) M(1,2) by (auto split: if_splits)
  show "d \<le> daysIn m y"
    using mps M(4-6) ymd(3) feb unfolding daysIn_def by (cases "d = 29") auto
qed

section \<open>RFC 3339 texts\<close>

text \<open>A number with exactly \<open>k\<close> digits, leading zeros included.\<close>

fun digits_w :: "nat \<Rightarrow> nat \<Rightarrow> string" where
  "digits_w 0 n = []"
| "digits_w (Suc k) n = digits_w k (n div 10) @ [digit_char (n mod 10)]"

definition trim_zeros :: "string \<Rightarrow> string" where
  "trim_zeros s = rev (dropWhile (\<lambda>c. c = CHR ''0'') (rev s))"

definition date_of :: "gotime \<Rightarrow> int \<times> int \<times> int" where
  "date_of t = civil_of_days (t div 10 ^ 9 div 86400 + 719468)"

definition fmt_frac :: "nat \<Rightarrow> string" where
  "fmt_frac ns = (if ns = 0 then [] else ''.'' @ trim_zeros (digits_w 9 ns))"

text \<open>The layout \<open>time.RFC3339Nano\<close> for a time in UTC.\<close>

definition fmt_RFC3339Nano :: "gotime \<Rightarrow> string" where
  "fmt_RFC3339Nano t =
     (let (y, m, d) = date_of t; sod = nat (t div 10 ^ 9 mod 86400) in
      digits_w 4 (nat y) @ ''-'' @ digits_w 2 (nat m) @ ''-'' @ digits_w 2 (nat d) @ ''T'' @
      digits_w 2 (sod div 3600) @ '':'' @ digits_w 2 (sod div 60 mod 60) @ '':'' @
      digits_w 2 (sod mod 60) @ fmt_frac (nat (t mod 10 ^ 9)) @ ''Z'')"

text \<open>\<open>Time.MarshalJSON\<close> (without the quotes): the year must have at most four digits.\<close>

definition time_MarshalText :: "gotime \<Rightarrow> string option" where
  "time_MarshalText t =
     (let y = fst (date_of t) in if 0 \<le> y \<and> y \<le> 9999 then Some (fmt_RFC3339Nano t) else None)"

text \<open>A field of digits with a value between two bounds.\<close>

definition parse_field :: "string \<Rightarrow> int \<Rightarrow> int \<Rightarrow> int option" where
  "parse_field s lo hi =
     (if list_all is_digit s then
        let x = int (digits_val 0 s) in if lo \<le> x \<and> x \<le> hi then Some x else None
      else None)"

definition sub_list :: "'a list \<Rightarrow> nat \<Rightarrow> nat \<Rightarrow> 'a list" where
  "sub_list s i j = take (j - i) (drop i s)"

text \<open>The fraction of a second: at most nine digits count.\<close>

definition parse_frac :: "string \<Rightarrow> int \<times> string" where
  "parse_frac s =
     (if 2 \<le> length s \<and> hd s = CHR ''.'' \<and> is_digit (s ! 1) then
        let ds = takeWhile is_digit (tl s); k = min 9 (length ds)
        in (int (digits_val 0 (take k ds) * 10 ^ (9 - k)), dropWhile is_digit (tl s))
      else (0, s))"

text \<open>The zone: \<open>Z\<close>, or an offset whose seconds are taken off the time.\<close>

definition parse_zone :: "string \<Rightarrow> int option" where
  "parse_zone s =
     (if s = ''Z'' then Some 0
      else if length s \<noteq> 6 then None
      else case (parse_field (sub_list s 1 3) 0 23, parse_field (sub_list s 4 6) 0 59) of
             (Some hr, Some mm) \<Rightarrow>
               if (hd s = CHR ''-'' \<or> hd s = CHR ''+'') \<and> s ! 3 = CHR '':'' then
                 Some (if hd s = CHR ''-'' then - ((hr * 60 + mm) * 60) else (hr * 60 + mm) * 60)
               else None
           | _ \<Rightarrow> None)"

definition parse_RFC3339 :: "string \<Rightarrow> gotime option" where
  "parse_RFC3339 s =
     (if length s < 19 then None
      else case (parse_field (sub_list s 0 4) 0 9999, parse_field (sub_list s 5 7) 1 12) of
        (Some y, Some m) \<Rightarrow>
          (case (parse_field (sub_list s 8 10) 1 (daysIn m y), parse_field (sub_list s 11 13) 0 23,
                 parse_field (sub_list s 14 16) 0 59, parse_field (sub_list s 17 19) 0 59) of
             (Some d, Some hh, Some mi, Some ss) \<Rightarrow>
               if s ! 4 = CHR ''-'' \<and> s ! 7 = CHR ''-'' \<and> s ! 10 = CHR ''T''
                  \<and> s ! 13 = CHR '':'' \<and> s ! 16 = CHR '':'' then
                 (let (ns, rest) = parse_frac (drop 19 s) in
                  case parse_zone rest of
                    None \<Rightarrow> None
                  | Some off \<Rightarrow>
                      Some (((days_of_civil y m d - 719468) * 86400 + hh * 3600 + mi * 60 + ss - off)
                            * 10 ^ 9 + ns))
               else None
           | _ \<Rightarrow> None)
      | _ \<Rightarrow> None)"

section \<open>Round trip of the time text\<close>

lemma length_digits_w [simp]: "length (digits_w k n) = k"
  by (induction k arbitrary: n) auto

lemma digits_w_digits: "c \<in> set (digits_w k n) \<Longrightarrow> is_digit c"
  by (induction k arbitrary: n) auto

lemma digits_val_digits_w [simp]: "n < 10 ^ k \<Longrightarrow> digits_val 0 (digits_w k n) = n"
proof (induction k arbitrary: n)
  case (Suc k)
  then have "n < 10 ^ k * 10" by (simp add: mult.commute)
  then have "n div 10 < 10 ^ k" by (rule less_mult_imp_div_less)
  then have "digits_val 0 (digits_w k (n div 10)) = n div 10" by (rule Suc.IH)
  then show ?case by (simp add: digits_val_append)
qed simp

lemma parse_field_digits_w:
  "n < 10 ^ k \<Longrightarrow> lo \<le> int n \<Longrightarrow> int n \<le> hi \<Longrightarrow>
   parse_field (digits_w k n) lo hi = Some (int n)"
  by (simp add: parse_field_def list_all_iff digits_w_digits)

lemma trim_zeros_split:
  "\<exists>j. s = trim_zeros s @ replicate j (CHR ''0'')"
proof -
  let ?P = "\<lambda>c. c = CHR ''0''"
  have "takeWhile ?P (rev s) = replicate (length (takeWhile ?P (rev s))) (CHR ''0'')"
    by (rule replicate_length_same [symmetric]) (auto dest: set_takeWhileD)
  moreover have "rev s = takeWhile ?P (rev s) @ dropWhile ?P (rev s)" by simp
  ultimately have "s = rev (dropWhile ?P (rev s)) @ rev (replicate (length (takeWhile ?P (rev s))) (CHR ''0''))"
    by (metis rev_append rev_rev_ident)
  then show ?thesis by (auto simp: trim_zeros_def)
qed

lemma digits_val_zeros: "digits_val n (replicate j (CHR ''0'')) = n * 10 ^ j"
  by (induction j arbitrary: n) (auto simp: digit_val_def)

lemma parse_frac_fmt:
  assumes "ns < 10 ^ 9"
  shows "parse_frac (fmt_frac ns @ ''Z'') = (int ns, ''Z'')"
proof (cases "ns = 0")
  case True
  then show ?thesis by (simp add: fmt_frac_def parse_frac_def)
next
  case False
  let ?t = "trim_zeros (digits_w 9 ns)"
  obtain j where j: "digits_w 9 ns = ?t @ replicate j (CHR ''0'')" using trim_zeros_split by blast
  have len: "length ?t + j = 9" using arg_cong [OF j, of length] by simp
  have val: "digits_val 0 ?t * 10 ^ j = ns"
    using digits_val_digits_w [OF assms] j by (metis digits_val_append digits_val_zeros)
  have vali: "int (digits_val 0 ?t) * 10 ^ j = int ns"
    using arg_cong [OF val, of int] by simp
  have dig: "\<forall>c \<in> set ?t. is_digit c" using j digits_w_digits [of _ 9 ns]
    by (metis Un_iff set_append)
  have ne: "?t \<noteq> []" using val False by auto
  then obtain c cs where t: "?t = c # cs" by (cases ?t) auto
  have nz: "\<not> is_digit (CHR ''Z'')" by (simp add: is_digit_def)
  have tw: "takeWhile is_digit (?t @ ''Z'') = ?t" "dropWhile is_digit (?t @ ''Z'') = ''Z''"
    using dig nz by (simp_all add: takeWhile_append2 dropWhile_append2)
  have "j = 9 - length ?t" "length ?t \<le> 9" using len by auto
  then show ?thesis using False dig vali tw
    by (simp add: fmt_frac_def parse_frac_def Let_def) (simp add: t)
qed

lemma digits_w_numeral:
  "digits_w (numeral k) n = digits_w (pred_numeral k) (n div 10) @ [digit_char (n mod 10)]"
  by (subst (1) numeral_eq_Suc) (simp only: digits_w.simps)

lemma two_digits: "digits_w 2 n = [digit_char (n div 10 mod 10), digit_char (n mod 10)]"
  by (simp add: numeral_2_eq_2)

lemma four_digits: "digits_w 4 n =
   [digit_char (n div 10 div 10 div 10 mod 10), digit_char (n div 10 div 10 mod 10),
    digit_char (n div 10 mod 10), digit_char (n mod 10)]"
proof -
  have "4 = Suc (Suc (Suc (Suc 0)))" by simp
  then show ?thesis by (simp only: digits_w.simps append.simps)
qed

lemma layout_fields:
  fixes y m d h i s :: nat and r :: string
  defines "t \<equiv> digits_w 4 y @ CHR ''-'' # digits_w 2 m @ CHR ''-'' # digits_w 2 d @ CHR ''T'' #
      digits_w 2 h @ CHR '':'' # digits_w 2 i @ CHR '':'' # digits_w 2 s @ r"
  shows "sub_list t 0 4 = digits_w 4 y" "sub_list t 5 7 = digits_w 2 m"
    "sub_list t 8 10 = digits_w 2 d" "sub_list t 11 13 = digits_w 2 h"
    "sub_list t 14 16 = digits_w 2 i" "sub_list t 17 19 = digits_w 2 s"
    "drop 19 t = r" "length t = 19 + length r"
    "t ! 4 = CHR ''-''" "t ! 7 = CHR ''-''" "t ! 10 = CHR ''T''" "t ! 13 = CHR '':''"
    "t ! 16 = CHR '':''"
  by (simp_all add: t_def sub_list_def two_digits four_digits)

lemma seconds_split:
  fixes n :: nat
  assumes "n < 86400"
  shows "int (n div 3600) * 3600 + int (n div 60 mod 60) * 60 + int (n mod 60) = int n"
    and "n div 3600 < 24"
proof -
  have "n div 3600 = n div 60 div 60" by (simp add: div_mult2_eq)
  then have "n div 3600 * 3600 + n div 60 mod 60 * 60 + n mod 60 = n"
    using mult_div_mod_eq [of 60 "n div 60"] mult_div_mod_eq [of 60 n] by linarith
  then show "int (n div 3600) * 3600 + int (n div 60 mod 60) * 60 + int (n mod 60) = int n"
    by (metis (no_types) of_nat_add of_nat_mult of_nat_numeral)
  show "n div 3600 < 24" using assms by (simp add: less_mult_imp_div_less)
qed

lemma parse_fmt_RFC3339Nano:
  assumes "0 \<le> fst (date_of t)" and "fst (date_of t) \<le> 9999"
  shows "parse_RFC3339 (fmt_RFC3339Nano t) = Some t"
proof -
  obtain y m d where ymd: "date_of t = (y, m, d)" by (cases "date_of t") auto
  define sod where "sod = nat (t div 10 ^ 9 mod 86400)"
  define ns where "ns = nat (t mod 10 ^ 9)"
  define S where "S = t div 10 ^ 9"
  note C = civil_of_days_ok [OF ymd [unfolded date_of_def]]
  have y: "0 \<le> y" "y \<le> 9999" using assms ymd by auto
  have dle: "d \<le> 31" using C(5) by (auto simp: daysIn_def split: if_splits)
  have sod: "sod < 86400" "int sod = t div 10 ^ 9 mod 86400" by (auto simp: sod_def)
  have ns: "ns < 10 ^ 9" "int ns = t mod 10 ^ 9" by (auto simp: ns_def)
  have F: "fmt_RFC3339Nano t = digits_w 4 (nat y) @ CHR ''-'' # digits_w 2 (nat m) @ CHR ''-'' #
      digits_w 2 (nat d) @ CHR ''T'' # digits_w 2 (sod div 3600) @ CHR '':'' #
      digits_w 2 (sod div 60 mod 60) @ CHR '':'' # digits_w 2 (sod mod 60) @ (fmt_frac ns @ ''Z'')"
    by (simp add: fmt_RFC3339Nano_def ymd sod_def ns_def Let_def)
  have P: "parse_field (digits_w 4 (nat y)) 0 9999 = Some y"
    "parse_field (digits_w 2 (nat m)) 1 12 = Some m"
    "parse_field (digits_w 2 (nat d)) 1 (daysIn m y) = Some d"
    "parse_field (digits_w 2 (sod div 3600)) 0 23 = Some (int (sod div 3600))"
    "parse_field (digits_w 2 (sod div 60 mod 60)) 0 59 = Some (int (sod div 60 mod 60))"
    "parse_field (digits_w 2 (sod mod 60)) 0 59 = Some (int (sod mod 60))"
    using y C dle seconds_split(2) [OF sod(1)]
    by (subst parse_field_digits_w; simp)+
  have "parse_RFC3339 (fmt_RFC3339Nano t) =
      Some (((days_of_civil y m d - 719468) * 86400 + int (sod div 3600) * 3600
        + int (sod div 60 mod 60) * 60 + int (sod mod 60) - 0) * 10 ^ 9 + int ns)"
    by (simp add: parse_RFC3339_def F layout_fields P parse_frac_fmt [OF ns(1)] parse_zone_def)
  also have "(days_of_civil y m d - 719468) * 86400 + int (sod div 3600) * 3600
        + int (sod div 60 mod 60) * 60 + int (sod mod 60) - 0 = S"
  proof -
    have "(days_of_civil y m d - 719468) * 86400 + (int (sod div 3600) * 3600
        + int (sod div 60 mod 60) * 60 + int (sod mod 60)) = S"
      unfolding seconds_split(1) [OF sod(1)] C(1) sod(2) S_def [symmetric] by simp
    then show ?thesis by (simp only: add.assoc diff_0_right)
  qed
  finally show ?thesis using ns(2) S_def by simp
qed

text \<open>
  A time written to JSON is read back as the same instant, to the nanosecond: for every
  instant whose text exists (a year from 0 to 9999), reading the RFC 3339 text gives it back.
\<close>

lemma time_text_round_trip:
  "time_MarshalText t = Some s \<Longrightarrow> parse_RFC3339 s = Some t"
  by (auto simp: time_MarshalText_def Let_def parse_fmt_RFC3339Nano split: if_splits)

lemma time_text_example:
  "parse_RFC3339 ''2026-02-25T11:03:16.313676906Z'' = Some 1772017396313676906"
proof -
  have civil: "civil_of_days 739977 = (2026, 2, 25)" by code_simp
  have date: "date_of 1772017396313676906 = (2026, 2, 25)"
    by (simp add: date_of_def civil)
  have frac: "fmt_frac 313676906 = ''.313676906''"
    by (simp add: fmt_frac_def trim_zeros_def digits_w_numeral)
  have "time_MarshalText 1772017396313676906 = Some ''2026-02-25T11:03:16.313676906Z''"
    by (simp add: time_MarshalText_def fmt_RFC3339Nano_def date frac two_digits four_digits)
  then show ?thesis by (rule time_text_round_trip)
qed

end
