(* ===== verification/Json.thy ===== *)
theory Json
  imports Utf8 Money GoTime
begin

text \<open>
  Go's \<open>encoding/json\<close> as the services use it: a JSON value as a tree whose strings and
  numbers keep the bytes of the token, its compact text (\<open>print_json\<close>), the parser of texts
  (\<open>parse_json\<close>, with fuel bounded by the length of the text), and the decoding of members
  into struct fields. Nesting deeper than Go's limit of 10000 is not treated as an error.
\<close>

datatype json =
    JNull
  | JBool bool
  | JNum string
  | JStr string
  | JArr "json list"
  | JObj "(string \<times> json) list"

section \<open>Texts\<close>

fun print_json :: "json \<Rightarrow> string"
  and print_elems :: "json list \<Rightarrow> string"
  and print_members :: "(string \<times> json) list \<Rightarrow> string" where
  "print_json JNull = ''null''"
| "print_json (JBool b) = (if b then ''true'' else ''false'')"
| "print_json (JNum l) = l"
| "print_json (JStr r) = dquote # r @ [dquote]"
| "print_json (JArr js) = CHR ''['' # print_elems js @ '']''"
| "print_json (JObj ms) = CHR ''{'' # print_members ms @ ''}''"
| "print_elems [] = []"
| "print_elems [j] = print_json j"
| "print_elems (j # j' # js) = print_json j @ CHR '','' # print_elems (j' # js)"
| "print_members [] = []"
| "print_members [(k, v)] = dquote # k @ dquote # CHR '':'' # print_json v"
| "print_members ((k, v) # m # ms) =
     dquote # k @ dquote # CHR '':'' # print_json v @ CHR '','' # print_members (m # ms)"

section \<open>Parsing\<close>

definition is_ws :: "char \<Rightarrow> bool" where
  "is_ws c \<longleftrightarrow> byte c = 32 \<or> byte c = 9 \<or> byte c = 10 \<or> byte c = 13"

definition skip_ws :: "string \<Rightarrow> string" where
  "skip_ws s = dropWhile is_ws s"

text \<open>A non-empty run of digits.\<close>

definition scan_digits :: "string \<Rightarrow> (string \<times> string) option" where
  "scan_digits s =
     (let ds = takeWhile is_digit s in if ds = [] then None else Some (ds, dropWhile is_digit s))"

definition scan_frac :: "string \<Rightarrow> (string \<times> string) option" where
  "scan_frac s =
     (case s of
        [] \<Rightarrow> Some ([], [])
      | c # cs \<Rightarrow>
          if c = CHR ''.'' then map_option (\<lambda>(ds, r). (c # ds, r)) (scan_digits cs)
          else Some ([], s))"

definition scan_exp :: "string \<Rightarrow> (string \<times> string) option" where
  "scan_exp s =
     (case s of
        [] \<Rightarrow> Some ([], [])
      | c # cs \<Rightarrow>
          if c = CHR ''e'' \<or> c = CHR ''E'' then
            (case cs of
               [] \<Rightarrow> None
             | d # ds \<Rightarrow>
                 if d = CHR ''+'' \<or> d = CHR ''-''
                 then map_option (\<lambda>(x, r). (c # d # x, r)) (scan_digits ds)
                 else map_option (\<lambda>(x, r). (c # x, r)) (scan_digits cs))
          else Some ([], s))"

definition scan_int :: "string \<Rightarrow> (string \<times> string) option" where
  "scan_int s =
     (case s of
        [] \<Rightarrow> None
      | c # cs \<Rightarrow> if c = CHR ''0'' then Some ([c], cs) else scan_digits s)"

definition scan_number :: "string \<Rightarrow> (string \<times> string) option" where
  "scan_number s =
     (let (sg, s1) = (if s \<noteq> [] \<and> hd s = CHR ''-'' then ([CHR ''-''], tl s) else ([], s)) in
      case scan_int s1 of
        None \<Rightarrow> None
      | Some (i, s2) \<Rightarrow>
          (case scan_frac s2 of
             None \<Rightarrow> None
           | Some (f, s3) \<Rightarrow>
               (case scan_exp s3 of None \<Rightarrow> None | Some (e, s4) \<Rightarrow> Some (sg @ i @ f @ e, s4))))"

text \<open>A keyword at the start of a text.\<close>

definition scan_word :: "string \<Rightarrow> 'a \<Rightarrow> string \<Rightarrow> ('a \<times> string) option" where
  "scan_word w v s = (if take (length w) s = w then Some (v, drop (length w) s) else None)"

fun parse_value :: "nat \<Rightarrow> string \<Rightarrow> (json \<times> string) option"
  and parse_elems :: "nat \<Rightarrow> string \<Rightarrow> (json list \<times> string) option"
  and parse_members :: "nat \<Rightarrow> string \<Rightarrow> ((string \<times> json) list \<times> string) option" where
  "parse_value 0 s = None"
| "parse_value (Suc f) s =
     (case skip_ws s of
        [] \<Rightarrow> None
      | c # cs \<Rightarrow>
          if c = dquote then map_option (\<lambda>(r, t). (JStr r, t)) (scan_string cs)
          else if c = CHR ''['' then
            (case skip_ws cs of
               [] \<Rightarrow> None
             | d # ds \<Rightarrow> if d = CHR '']'' then Some (JArr [], ds)
                        else map_option (\<lambda>(js, t). (JArr js, t)) (parse_elems f cs))
          else if c = CHR ''{'' then
            (case skip_ws cs of
               [] \<Rightarrow> None
             | d # ds \<Rightarrow> if d = CHR ''}'' then Some (JObj [], ds)
                        else map_option (\<lambda>(ms, t). (JObj ms, t)) (parse_members f cs))
          else if c = CHR ''t'' then scan_word ''true'' (JBool True) (c # cs)
          else if c = CHR ''f'' then scan_word ''false'' (JBool False) (c # cs)
          else if c = CHR ''n'' then scan_word ''null'' JNull (c # cs)
          else map_option (\<lambda>(l, t). (JNum l, t)) (scan_number (c # cs)))"
| "parse_elems 0 s = None"
| "parse_elems (Suc f) s =
     (case parse_value f s of
        None \<Rightarrow> None
      | Some (j, r) \<Rightarrow>
          (case skip_ws r of
             [] \<Rightarrow> None
           | c # cs \<Rightarrow>
               if c = CHR '','' then map_option (\<lambda>(js, t). (j # js, t)) (parse_elems f cs)
               else if c = CHR '']'' then Some ([j], cs) else None))"
| "parse_members 0 s = None"
| "parse_members (Suc f) s =
     (case skip_ws s of
        [] \<Rightarrow> None
      | q # qs \<Rightarrow>
          if q \<noteq> dquote then None
          else (case scan_string qs of
             None \<Rightarrow> None
           | Some (k, r) \<Rightarrow>
               (case skip_ws r of
                  [] \<Rightarrow> None
                | co # cos \<Rightarrow>
                    if co \<noteq> CHR '':'' then None
                    else (case parse_value f cos of
                       None \<Rightarrow> None
                     | Some (v, r') \<Rightarrow>
                         (case skip_ws r' of
                            [] \<Rightarrow> None
                          | c # cs \<Rightarrow>
                              if c = CHR '','' then
                                map_option (\<lambda>(ms, t). ((k, v) # ms, t)) (parse_members f cs)
                              else if c = CHR ''}'' then Some ([(k, v)], cs) else None)))))"

text \<open>A whole text: one value with nothing but white space around it.\<close>

definition parse_json :: "string \<Rightarrow> json option" where
  "parse_json s =
     (case parse_value (2 * length s + 1) s of
        None \<Rightarrow> None
      | Some (j, r) \<Rightarrow> if skip_ws r = [] then Some j else None)"

section \<open>Round trip of printing and parsing\<close>

text \<open>The trees the services print: escaped strings, decimal integers.\<close>

fun wf_json :: "json \<Rightarrow> bool"
  and wf_elems :: "json list \<Rightarrow> bool"
  and wf_members :: "(string \<times> json) list \<Rightarrow> bool" where
  "wf_json (JNum l) = (\<exists>i. l = show_int i)"
| "wf_json (JStr r) = (\<exists>s. r = escape s)"
| "wf_json (JArr js) = wf_elems js"
| "wf_json (JObj ms) = wf_members ms"
| "wf_json _ = True"
| "wf_elems [] = True"
| "wf_elems (j # js) = (wf_json j \<and> wf_elems js)"
| "wf_members [] = True"
| "wf_members ((k, v) # ms) = ((\<exists>s. k = escape s) \<and> wf_json v \<and> wf_members ms)"

text \<open>What may follow a value: the end of the text, or a character that continues no number.\<close>

definition sep_start :: "string \<Rightarrow> bool" where
  "sep_start t \<longleftrightarrow> (case t of [] \<Rightarrow> True | c # _ \<Rightarrow> c \<in> {CHR '','', CHR '']'', CHR ''}''})"

lemma is_ws_simps:
  "\<not> is_ws (CHR ''['')" "\<not> is_ws (CHR '']'')" "\<not> is_ws (CHR ''{'')" "\<not> is_ws (CHR ''}'')"
  "\<not> is_ws (CHR '','')" "\<not> is_ws (CHR '':'')" "\<not> is_ws dquote" "\<not> is_ws (CHR ''n'')"
  "\<not> is_ws (CHR ''t'')" "\<not> is_ws (CHR ''f'')" "\<not> is_ws (CHR ''-'')"
  by (simp_all add: is_ws_def byte_def)

lemma is_ws_digit: "is_digit c \<Longrightarrow> \<not> is_ws c"
  by (auto simp: is_ws_def is_digit_def byte_def)

lemma skip_ws_Cons: "\<not> is_ws c \<Longrightarrow> skip_ws (c # cs) = c # cs"
  by (simp add: skip_ws_def)

lemma skip_ws_sep: "sep_start t \<Longrightarrow> skip_ws t = t"
  by (cases t) (auto simp: sep_start_def skip_ws_def is_ws_simps)

lemma sep_not_digit: "sep_start t \<Longrightarrow> takeWhile is_digit t = [] \<and> dropWhile is_digit t = t"
  by (cases t) (auto simp: sep_start_def is_digit_def)

lemma scan_digits_show_nat:
  "sep_start t \<Longrightarrow> scan_digits (show_nat n @ t) = Some (show_nat n, t)"
proof -
  assume t: "sep_start t"
  have "\<And>c. c \<in> set (show_nat n) \<Longrightarrow> is_digit c" by (rule show_nat_digits)
  then have "takeWhile is_digit (show_nat n @ t) = show_nat n"
    "dropWhile is_digit (show_nat n @ t) = t"
    using sep_not_digit [OF t] by (simp_all add: takeWhile_append2 dropWhile_append2)
  then show ?thesis by (simp add: scan_digits_def)
qed

lemma hd_show_nat_zero: "hd (show_nat n) = CHR ''0'' \<Longrightarrow> n = 0"
proof (induction n rule: show_nat.induct)
  case (1 n)
  have hd_digit: "d < 10 \<Longrightarrow> digit_char d = CHR ''0'' \<Longrightarrow> d = 0" for d
    using digit_val_digit_char [of d] by (simp add: digit_val_def)
  show ?case
  proof (cases "n < 10")
    case True
    with 1 hd_digit show ?thesis by (simp add: show_nat.simps)
  next
    case False
    then have "hd (show_nat n) = hd (show_nat (n div 10))"
      by (subst show_nat.simps) simp
    with 1 False show ?thesis by simp
  qed
qed

lemma scan_int_show_nat: "sep_start t \<Longrightarrow> scan_int (show_nat n @ t) = Some (show_nat n, t)"
proof (cases "hd (show_nat n) = CHR ''0''")
  case True
  then have "n = 0" by (rule hd_show_nat_zero)
  then show ?thesis by (simp add: scan_int_def show_nat.simps)
next
  case False
  assume "sep_start t"
  with False show ?thesis using scan_digits_show_nat [of t n]
    by (cases "show_nat n") (auto simp: scan_int_def)
qed

lemma scan_rest_sep:
  "sep_start t \<Longrightarrow> scan_frac t = Some ([], t)" "sep_start t \<Longrightarrow> scan_exp t = Some ([], t)"
  by (auto simp: sep_start_def scan_frac_def scan_exp_def split: list.splits)

lemma scan_number_show_int:
  "sep_start t \<Longrightarrow> scan_number (show_int i @ t) = Some (show_int i, t)"
  using hd_show_nat_sign(1) [of "nat i"]
  by (auto simp: scan_number_def show_int_def scan_int_show_nat scan_rest_sep)

lemma show_int_first:
  "\<exists>c cs. show_int i = c # cs \<and> (is_digit c \<or> c = CHR ''-'')"
  using show_int_chars [of _ i] by (cases "show_int i") auto

lemma parse_value_number:
  assumes "sep_start t"
  shows "parse_value (Suc f) (show_int i @ t) = Some (JNum (show_int i), t)"
proof -
  obtain c cs where c: "show_int i = c # cs" "is_digit c \<or> c = CHR ''-''"
    using show_int_first by blast
  then have "\<not> is_ws c" using is_ws_digit is_ws_simps by auto
  moreover have "c \<notin> {dquote, CHR ''['', CHR ''{'', CHR ''t'', CHR ''f'', CHR ''n''}"
    using c(2) by (auto simp: is_digit_def)
  ultimately show ?thesis
    using scan_number_show_int [OF assms, of i] c(1) by (simp add: skip_ws_Cons)
qed

lemma print_first:
  assumes "wf_json j"
  shows "\<exists>c cs. print_json j = c # cs \<and> \<not> is_ws c \<and> c \<noteq> CHR '']''"
proof (cases j)
  case (JNum l)
  with assms obtain i where "l = show_int i" by auto
  then obtain c cs where "l = c # cs" "is_digit c \<or> c = CHR ''-''"
    using show_int_first by blast
  then show ?thesis using JNum is_ws_digit is_ws_simps by (auto simp: is_digit_def)
qed (simp_all add: is_ws_simps)

lemma print_elems_first:
  "wf_elems js \<Longrightarrow> js \<noteq> [] \<Longrightarrow>
   \<exists>c cs. print_elems js @ s = c # cs \<and> \<not> is_ws c \<and> c \<noteq> CHR '']''"
  using print_first by (cases js rule: print_elems.cases) force+

lemma print_members_first:
  "ms \<noteq> [] \<Longrightarrow> \<exists>cs. print_members ms @ s = dquote # cs"
  by (cases ms rule: print_members.cases) auto

lemma print_json_pos: "wf_json j \<Longrightarrow> 0 < length (print_json j)"
  using print_first by fastforce

lemma scan_word_simps:
  "scan_word ''null'' v (''null'' @ t) = Some (v, t)"
  "scan_word ''true'' v (''true'' @ t) = Some (v, t)"
  "scan_word ''false'' v (''false'' @ t) = Some (v, t)"
  by (simp_all add: scan_word_def)

lemma sep_start_simps: "sep_start (CHR '','' # t)" "sep_start (CHR '']'' # t)" "sep_start (CHR ''}'' # t)"
  by (simp_all add: sep_start_def)

lemma parse_print:
  "wf_json j \<Longrightarrow> sep_start t \<Longrightarrow> length (print_json j) \<le> f \<Longrightarrow>
     parse_value (Suc f) (print_json j @ t) = Some (j, t)"
  "wf_elems js \<Longrightarrow> js \<noteq> [] \<Longrightarrow> length (print_elems js) \<le> g \<Longrightarrow>
     parse_elems (Suc (Suc g)) (print_elems js @ CHR '']'' # t) = Some (js, t)"
  "wf_members ms \<Longrightarrow> ms \<noteq> [] \<Longrightarrow> length (print_members ms) \<le> h \<Longrightarrow>
     parse_members (Suc (Suc h)) (print_members ms @ CHR ''}'' # t) = Some (ms, t)"
proof (induction j and js and ms arbitrary: f t and g t and h t
    rule: print_json_print_elems_print_members.induct)
  case (3 l)
  then show ?case using parse_value_number by auto
next
  case (4 r)
  then obtain s where "r = escape s" by auto
  then show ?case using scan_escape [of s t] by (simp add: skip_ws_Cons is_ws_simps)
next
  case (5 js)
  show ?case
  proof (cases "js = []")
    case True
    then show ?thesis by (simp add: skip_ws_Cons is_ws_simps)
  next
    case False
    obtain c cs where c: "print_elems js @ CHR '']'' # t = c # cs" "\<not> is_ws c" "c \<noteq> CHR '']''"
      using print_elems_first [of js] 5 False by fastforce
    obtain g where g: "f = Suc (Suc g)" "length (print_elems js) \<le> g"
      using "5.prems"(3) by (cases f; cases "f - 1") auto
    have "parse_elems f (print_elems js @ CHR '']'' # t) = Some (js, t)"
      using "5.IH" "5.prems" False g by simp
    then show ?thesis using c by (simp add: skip_ws_Cons is_ws_simps)
  qed
next
  case (6 ms)
  show ?case
  proof (cases "ms = []")
    case True
    then show ?thesis by (simp add: skip_ws_Cons is_ws_simps)
  next
    case False
    obtain cs where c: "print_members ms @ CHR ''}'' # t = dquote # cs"
      using print_members_first [OF False] by blast
    obtain g where g: "f = Suc (Suc g)" "length (print_members ms) \<le> g"
      using "6.prems"(3) by (cases f; cases "f - 1") auto
    have "parse_members f (print_members ms @ CHR ''}'' # t) = Some (ms, t)"
      using "6.IH" "6.prems" False g by simp
    then show ?thesis using c by (simp add: skip_ws_Cons is_ws_simps)
  qed
next
  case (8 j)
  have "parse_value (Suc g) (print_json j @ CHR '']'' # t) = Some (j, CHR '']'' # t)"
    using 8 sep_start_simps by simp
  then show ?case by (simp add: skip_ws_Cons is_ws_simps del: parse_value.simps)
next
  case (9 j j' js)
  obtain g' where g': "g = Suc g'" "length (print_elems (j' # js)) \<le> g'"
    using "9.prems"(1,3) by (cases g) auto
  have "parse_value (Suc g) (print_json j @ CHR '','' # (print_elems (j' # js) @ CHR '']'' # t))
      = Some (j, CHR '','' # (print_elems (j' # js) @ CHR '']'' # t))"
    using "9.IH"(1) "9.prems" sep_start_simps by simp
  moreover have "parse_elems (Suc g) (print_elems (j' # js) @ CHR '']'' # t) = Some (j' # js, t)"
    using "9.IH"(2) "9.prems" g' by simp
  ultimately show ?case
    by (simp add: skip_ws_Cons is_ws_simps del: parse_value.simps parse_elems.simps
        add: parse_elems.simps(2) [of "Suc g"])
next
  case (11 k v)
  then obtain s where k: "k = escape s" by auto
  have "parse_value (Suc h) (print_json v @ CHR ''}'' # t) = Some (v, CHR ''}'' # t)"
    using 11 sep_start_simps by simp
  then show ?case using scan_escape [of s] k
    by (simp add: skip_ws_Cons is_ws_simps del: parse_value.simps)
next
  case (12 k v m ms)
  then obtain s where k: "k = escape s" by auto
  obtain h' where h': "h = Suc h'" "length (print_members (m # ms)) \<le> h'"
    using "12.prems"(3) by (cases h) auto
  have "parse_value (Suc h) (print_json v @ CHR '','' # (print_members (m # ms) @ CHR ''}'' # t))
      = Some (v, CHR '','' # (print_members (m # ms) @ CHR ''}'' # t))"
    using "12.IH"(1) "12.prems" sep_start_simps by simp
  moreover have "parse_members (Suc h) (print_members (m # ms) @ CHR ''}'' # t) = Some (m # ms, t)"
    using "12.IH"(2) "12.prems" h' by simp
  ultimately show ?case using scan_escape [of s] k
    by (simp add: skip_ws_Cons is_ws_simps del: parse_value.simps parse_members.simps
        add: parse_members.simps(2) [of "Suc h"])
qed (simp_all add: skip_ws_Cons is_ws_simps scan_word_simps [simplified])

lemma parse_json_print: "wf_json j \<Longrightarrow> parse_json (print_json j) = Some j"
  using parse_print(1) [of j "[]" "2 * length (print_json j)"]
  by (simp add: parse_json_def sep_start_def skip_ws_def del: parse_value.simps)

section \<open>The fuel is enough\<close>

lemma skip_ws_length: "length (skip_ws s) \<le> length s"
  by (simp add: skip_ws_def length_dropWhile_le)

lemma skip_ws_Cons_length: "skip_ws s = c # cs \<Longrightarrow> length cs < length s"
  using skip_ws_length [of s] by simp

lemma scan_string_length: "scan_string s = Some (x, r) \<Longrightarrow> length r < length s"
proof (induction s arbitrary: x r rule: scan_string.induct)
  case (2 c cs)
  then show ?case
    by (fastforce simp: scan_string.simps(2) split: if_splits list.splits option.splits)
qed simp

lemma scan_digits_length: "scan_digits s = Some (x, r) \<Longrightarrow> length r < length s"
proof -
  assume h: "scan_digits s = Some (x, r)"
  then have "x = takeWhile is_digit s" "r = dropWhile is_digit s" "x \<noteq> []"
    by (auto simp: scan_digits_def Let_def split: if_splits)
  moreover have "length (takeWhile is_digit s) + length (dropWhile is_digit s) = length s"
    by (metis length_append takeWhile_dropWhile_id)
  ultimately show ?thesis by (metis length_greater_0_conv less_add_same_cancel2)
qed

lemma scan_number_length: "scan_number s = Some (x, r) \<Longrightarrow> length r < length s"
proof -
  have i: "scan_int s = Some (x, r) \<Longrightarrow> length r < length s" for s x r
    using scan_digits_length by (fastforce simp: scan_int_def split: list.splits if_splits)
  have f: "scan_frac s = Some (x, r) \<Longrightarrow> length r \<le> length s" for s x r
    using scan_digits_length by (fastforce simp: scan_frac_def split: list.splits if_splits)
  have e: "scan_exp s = Some (x, r) \<Longrightarrow> length r \<le> length s" for s x r
    using scan_digits_length by (fastforce simp: scan_exp_def split: list.splits if_splits)
  assume h: "scan_number s = Some (x, r)"
  define s1 where "s1 = (if s \<noteq> [] \<and> hd s = CHR ''-'' then tl s else s)"
  obtain a s2 b s3 d where "scan_int s1 = Some (a, s2)" "scan_frac s2 = Some (b, s3)"
    "scan_exp s3 = Some (d, r)"
    using h by (auto simp: scan_number_def s1_def Let_def split: if_splits option.splits)
  then have "length r < length s1" using i f e by (meson le_trans not_le)
  moreover have "length s1 \<le> length s" by (simp add: s1_def)
  ultimately show ?thesis by simp
qed

lemma scan_word_length: "scan_word w v s = Some (x, r) \<Longrightarrow> w \<noteq> [] \<Longrightarrow> length r < length s"
  by (cases s) (auto simp: scan_word_def split: if_splits)

lemma parse_length:
  "parse_value f s = Some (j, r) \<Longrightarrow> length r < length s"
  "parse_elems f s = Some (js, r) \<Longrightarrow> length r < length s"
  "parse_members f s = Some (ms, r) \<Longrightarrow> length r < length s"
proof (induction f arbitrary: s j r js ms)
  case 0
  { case 1 then show ?case by simp next case 2 then show ?case by simp
    next case 3 then show ?case by simp }
next
  case (Suc f)
  { case (1 s j r)
    then obtain c cs where c: "skip_ws s = c # cs" by (auto split: list.splits)
    note len = skip_ws_Cons_length [OF c]
    have cc: "length (c # cs) \<le> length s" using skip_ws_length [of s] c by simp
    note P = "1.prems" [unfolded parse_value.simps c list.case]
    show ?case
    proof (cases "c = dquote")
      case True
      then obtain x where "scan_string cs = Some (x, r)" using P by auto
      then show ?thesis using scan_string_length len by fastforce
    next
      case nq: False
      show ?thesis
      proof (cases "c = CHR ''['' \<or> c = CHR ''{''")
        case True
        then obtain d ds where d: "skip_ws cs = d # ds" using P nq by (auto split: list.splits)
        have "r = ds \<or> (\<exists>js. parse_elems f cs = Some (js, r)) \<or> (\<exists>ms. parse_members f cs = Some (ms, r))"
          using P True nq d by (auto split: if_splits)
        then have "length r < length cs"
          using Suc.IH(2,3) skip_ws_Cons_length [OF d] by blast
        then show ?thesis using len by simp
      next
        case False
        then have "(\<exists>w v x. w \<noteq> [] \<and> scan_word w v (c # cs) = Some (x :: json, r))
            \<or> (\<exists>x. scan_number (c # cs) = Some (x, r))"
          using P nq by (auto split: if_splits)
        then show ?thesis
          using scan_word_length scan_number_length cc by (meson less_le_trans)
      qed
    qed
  next
    case (2 s js r)
    then obtain j r1 c cs where p: "parse_value f s = Some (j, r1)" "skip_ws r1 = c # cs"
      by (auto split: option.splits list.splits)
    have "length cs < length s" using Suc.IH(1) [OF p(1)] skip_ws_Cons_length [OF p(2)] by simp
    then show ?case using "2.prems" p Suc.IH(2) [of cs]
      by (fastforce split: if_splits)
  next
    case (3 s ms r)
    then obtain q qs k r1 c cs v r2 d ds where p: "skip_ws s = q # qs" "scan_string qs = Some (k, r1)"
      "skip_ws r1 = c # cs" "parse_value f cs = Some (v, r2)" "skip_ws r2 = d # ds"
      by (auto split: option.splits list.splits if_splits)
    have "length ds < length s"
      using skip_ws_Cons_length [OF p(1)] scan_string_length [OF p(2)] skip_ws_Cons_length [OF p(3)]
        Suc.IH(1) [OF p(4)] skip_ws_Cons_length [OF p(5)] by simp
    then show ?case using "3.prems" p Suc.IH(3) [of ds]
      by (fastforce split: if_splits)
  }
qed

lemma parse_fuel_step:
  "2 * length s + 1 \<le> f \<Longrightarrow> parse_value (Suc f) s = parse_value f s"
  "2 * length s + 2 \<le> f \<Longrightarrow> parse_elems (Suc f) s = parse_elems f s"
  "2 * length s + 2 \<le> f \<Longrightarrow> parse_members (Suc f) s = parse_members f s"
proof (induction f arbitrary: s and s and s)
  case 0
  { case 1 then show ?case by simp next case 2 then show ?case by simp
    next case 3 then show ?case by simp }
next
  case (Suc f)
  { case (1 s)
    have "parse_elems (Suc f) cs = parse_elems f cs \<and> parse_members (Suc f) cs = parse_members f cs"
      if "skip_ws s = c # cs" for c cs
      using Suc.IH(2,3) [of cs] skip_ws_Cons_length [OF that] 1 by simp
    then show ?case
      by (simp del: parse_elems.simps parse_members.simps split: list.split)
  next
    case (2 s)
    have v: "parse_value (Suc f) s = parse_value f s" using Suc.IH(1) [of s] 2 by simp
    have "parse_elems (Suc f) cs = parse_elems f cs"
      if "parse_value f s = Some (j, r)" "skip_ws r = c # cs" for j r c cs
      using parse_length(1) [OF that(1)] skip_ws_Cons_length [OF that(2)] Suc.IH(2) [of cs] 2 by simp
    then show ?case unfolding parse_elems.simps(2) [of "Suc f"] parse_elems.simps(2) [of f] v
      by (auto split: option.split list.split)
  next
    case (3 s)
    have v: "parse_value (Suc f) cs = parse_value f cs"
      if "skip_ws s = q # qs" "scan_string qs = Some (k, r)" "skip_ws r = c # cs" for q qs k r c cs
      using skip_ws_Cons_length [OF that(1)] scan_string_length [OF that(2)]
        skip_ws_Cons_length [OF that(3)] Suc.IH(1) [of cs] 3 by simp
    have m: "parse_members (Suc f) ds = parse_members f ds"
      if "skip_ws s = q # qs" "scan_string qs = Some (k, r)" "skip_ws r = c # cs"
        "parse_value f cs = Some (v, r')" "skip_ws r' = d # ds" for q qs k r c cs v r' d ds
      using skip_ws_Cons_length [OF that(1)] scan_string_length [OF that(2)]
        skip_ws_Cons_length [OF that(3)] parse_length(1) [OF that(4)] skip_ws_Cons_length [OF that(5)]
        Suc.IH(3) [of ds] 3 by simp
    show ?case unfolding parse_members.simps(2) [of "Suc f"] parse_members.simps(2) [of f]
      using v m by (auto split: option.split list.split)
  }
qed

lemma parse_value_fuel:
  "2 * length s + 1 \<le> f \<Longrightarrow> parse_value f s = parse_value (2 * length s + 1) s"
proof (induction "f - (2 * length s + 1)" arbitrary: f)
  case (Suc n)
  then obtain g where g: "f = Suc g" "2 * length s + 1 \<le> g" by (cases f) auto
  then show ?case using Suc parse_fuel_step(1) [OF g(2)] by simp
qed simp

section \<open>Decoding into struct fields\<close>

text \<open>
  \<open>json.Unmarshal\<close> looks up the field of a member by its exact name, else by its name with
  case folded (ASCII letters, and the two non-ASCII runes that fold to \<open>s\<close> and \<open>k\<close>); it
  skips members with no field, and \<open>null\<close> leaves a field as it was. A value of a wrong type
  is an error of the whole call, which is \<open>None\<close> here: the services discard what was decoded
  when there is an error.
\<close>

fun fold_name :: "string \<Rightarrow> string" where
  "fold_name [] = []"
| "fold_name (c # cs) =
     (if c = CHR 0xC5 \<and> take 1 cs = [CHR 0xBF] then CHR ''S'' # fold_name (drop 1 cs)
      else if c = CHR 0xE2 \<and> take 2 cs = [CHR 0x84, CHR 0xAA] then CHR ''K'' # fold_name (drop 2 cs)
      else (if byte_in c 97 122 then char_of (byte c - 32) else c) # fold_name cs)"

definition field_of :: "string list \<Rightarrow> string \<Rightarrow> string option" where
  "field_of names k =
     (if k \<in> set names then Some k else find (\<lambda>n. fold_name n = fold_name k) names)"

text \<open>Decode the members of an object, in order, into a struct value.\<close>

fun decode_members ::
  "string list \<Rightarrow> (string \<Rightarrow> json \<Rightarrow> 'a \<Rightarrow> 'a option) \<Rightarrow> (string \<times> json) list \<Rightarrow> 'a \<Rightarrow> 'a option" where
  "decode_members names dec [] x = Some x"
| "decode_members names dec ((k, v) # ms) x =
     (case unquote k of
        None \<Rightarrow> None
      | Some name \<Rightarrow>
          (case field_of names name of
             None \<Rightarrow> decode_members names dec ms x
           | Some f \<Rightarrow>
               (case dec f v x of None \<Rightarrow> None | Some y \<Rightarrow> decode_members names dec ms y)))"

definition decode_struct ::
  "string list \<Rightarrow> (string \<Rightarrow> json \<Rightarrow> 'a \<Rightarrow> 'a option) \<Rightarrow> json \<Rightarrow> 'a \<Rightarrow> 'a option" where
  "decode_struct names dec j x =
     (case j of JNull \<Rightarrow> Some x | JObj ms \<Rightarrow> decode_members names dec ms x | _ \<Rightarrow> None)"

definition decode_string :: "json \<Rightarrow> string \<Rightarrow> string option" where
  "decode_string j old = (case j of JNull \<Rightarrow> Some old | JStr r \<Rightarrow> unquote r | _ \<Rightarrow> None)"

definition decode_int64 :: "json \<Rightarrow> int64 \<Rightarrow> int64 option" where
  "decode_int64 j old =
     (case j of
        JNull \<Rightarrow> Some old
      | JNum l \<Rightarrow> (case ParseInt l of Inl _ \<Rightarrow> None | Inr i \<Rightarrow> Some i)
      | _ \<Rightarrow> None)"

definition decode_time :: "json \<Rightarrow> gotime \<Rightarrow> gotime option" where
  "decode_time j old = (case j of JNull \<Rightarrow> Some old | JStr r \<Rightarrow> parse_RFC3339 r | _ \<Rightarrow> None)"

text \<open>An array decodes element by element into the elements already there, else into zeros.\<close>

fun decode_elems :: "(json \<Rightarrow> 'a \<Rightarrow> 'a option) \<Rightarrow> 'a \<Rightarrow> json list \<Rightarrow> 'a list \<Rightarrow> 'a list option" where
  "decode_elems dec zero [] old = Some []"
| "decode_elems dec zero (j # js) old =
     (case dec j (case old of [] \<Rightarrow> zero | x # _ \<Rightarrow> x) of
        None \<Rightarrow> None
      | Some y \<Rightarrow>
          (case decode_elems dec zero js (tl old) of None \<Rightarrow> None | Some ys \<Rightarrow> Some (y # ys)))"

definition decode_slice :: "(json \<Rightarrow> 'a \<Rightarrow> 'a option) \<Rightarrow> 'a \<Rightarrow> json \<Rightarrow> 'a list \<Rightarrow> 'a list option" where
  "decode_slice dec zero j old =
     (case j of JNull \<Rightarrow> Some [] | JArr js \<Rightarrow> decode_elems dec zero js old | _ \<Rightarrow> None)"

text \<open>Members as the encoder writes them: a plain field name and a value.\<close>

definition member :: "string \<Rightarrow> json \<Rightarrow> string \<times> json" where
  "member name v = (escape name, v)"

definition json_string :: "string \<Rightarrow> json" where
  "json_string s = JStr (escape s)"

text \<open>A field tagged \<open>omitempty\<close> has no member when it is empty.\<close>

definition omitempty :: "string \<Rightarrow> string \<Rightarrow> (string \<times> json) list" where
  "omitempty name s = (if s = [] then [] else [member name (json_string s)])"

definition json_int :: "int64 \<Rightarrow> json" where
  "json_int w = JNum (show_int64 w)"

lemma decode_string_any: "decode_string (json_string s) old = Some (to_valid s)"
  by (simp add: decode_string_def json_string_def unquote_escape_any)

lemma decode_string_json [simp]: "utf8_valid s \<Longrightarrow> decode_string (json_string s) old = Some s"
  by (simp add: decode_string_any to_valid_id)

lemma decode_int64_json [simp]: "decode_int64 (json_int w) old = Some w"
  by (simp add: decode_int64_def json_int_def)

lemma wf_json_leaves [simp]: "wf_json (json_string s)" "wf_json (json_int w)"
  by (auto simp: json_string_def json_int_def show_int64_def)

lemma wf_members_member [simp]: "wf_members (member n v # ms) \<longleftrightarrow> wf_json v \<and> wf_members ms"
  by (auto simp: member_def)

lemma decode_members_member [simp]:
  "utf8_valid name \<Longrightarrow> name \<in> set names \<Longrightarrow>
   decode_members names dec (member name v # ms) x =
     (case dec name v x of None \<Rightarrow> None | Some y \<Rightarrow> decode_members names dec ms y)"
  by (simp add: member_def unquote_escape field_of_def)

lemma decode_elems_map:
  "(\<And>x old. x \<in> set xs \<Longrightarrow> dec (enc x) old = Some x) \<Longrightarrow>
   decode_elems dec zero (map enc xs) old = Some xs"
  by (induction xs arbitrary: old) auto

lemma wf_elems_map: "(\<And>x. x \<in> set xs \<Longrightarrow> wf_json (enc x)) \<Longrightarrow> wf_elems (map enc xs)"
  by (induction xs) auto

end
