(* ===== verification/OrderModel.thy ===== *)
theory OrderModel
  imports Json
begin

text \<open>
  The order service's data: \<open>domain/model\<close> (items, orders, statuses, the JSON column of
  items), \<open>domain/events\<close> (the three events and their JSON), and \<open>BuildPayload\<close> of the
  outbox package, which serializes an event for the outbox table.

  An order status is a Go string; any string can come out of the database, so the type is
  \<open>string\<close> with three constants. A list of items stands for a Go slice that is not nil: the
  nil slice occurs only in the zero \<open>Order\<close> returned with an error, which is never written.
\<close>

section \<open>Items and orders\<close>

record OrderItem =
  ProductID :: string
  Quantity :: int64
  Price :: Money

type_synonym OrderStatus = string

abbreviation OrderStatusCreated :: OrderStatus where "OrderStatusCreated \<equiv> ''CREATED''"
abbreviation OrderStatusPaid :: OrderStatus where "OrderStatusPaid \<equiv> ''PAID''"
abbreviation OrderStatusCancelled :: OrderStatus where "OrderStatusCancelled \<equiv> ''CANCELLED''"

record Order =
  OrderID :: string
  Items :: "OrderItem list"
  Total :: Money
  OrderStatus :: OrderStatus
  CreatedAt :: gotime

definition zero_Money :: Money where
  "zero_Money = \<lparr>Amount = 0, Currency = []\<rparr>"

definition zero_Item :: OrderItem where
  "zero_Item = \<lparr>ProductID = [], Quantity = 0, Price = zero_Money\<rparr>"

section \<open>JSON of money and items\<close>

definition enc_Money :: "Money \<Rightarrow> json" where
  "enc_Money m =
     JObj [member ''amount'' (json_int (Amount m)), member ''currency'' (json_string (Currency m))]"

definition enc_Item :: "OrderItem \<Rightarrow> json" where
  "enc_Item it =
     JObj [member ''product_id'' (json_string (ProductID it)),
           member ''quantity'' (json_int (Quantity it)),
           member ''price'' (enc_Money (Price it))]"

definition dec_Money :: "json \<Rightarrow> Money \<Rightarrow> Money option" where
  "dec_Money = decode_struct [''amount'', ''currency'']
     (\<lambda>f v m. if f = ''amount'' then map_option (\<lambda>a. m\<lparr>Amount := a\<rparr>) (decode_int64 v (Amount m))
              else map_option (\<lambda>c. m\<lparr>Currency := c\<rparr>) (decode_string v (Currency m)))"

definition dec_Item :: "json \<Rightarrow> OrderItem \<Rightarrow> OrderItem option" where
  "dec_Item = decode_struct [''product_id'', ''quantity'', ''price'']
     (\<lambda>f v it. if f = ''product_id'' then
                 map_option (\<lambda>p. it\<lparr>ProductID := p\<rparr>) (decode_string v (ProductID it))
               else if f = ''quantity'' then
                 map_option (\<lambda>q. it\<lparr>Quantity := q\<rparr>) (decode_int64 v (Quantity it))
               else map_option (\<lambda>p. it\<lparr>Price := p\<rparr>) (dec_Money v (Price it)))"

text \<open>The strings of an item are valid UTF-8, as the strings of a proto3 request are.\<close>

definition item_utf8 :: "OrderItem \<Rightarrow> bool" where
  "item_utf8 it \<longleftrightarrow> utf8_valid (ProductID it) \<and> utf8_valid (Currency (Price it))"

lemma utf8_ascii: "list_all (\<lambda>c. byte c < 128) s \<Longrightarrow> utf8_valid s"
  by (induction s) (auto simp: utf8_valid.simps(2) rune_size_def)

lemma utf8_names [simp]:
  "utf8_valid ''amount''" "utf8_valid ''currency''" "utf8_valid ''product_id''"
  "utf8_valid ''quantity''" "utf8_valid ''price''" "utf8_valid ''order_id''" "utf8_valid ''total''"
  "utf8_valid ''items''" "utf8_valid ''created_at''" "utf8_valid ''paid_at''"
  "utf8_valid ''cancelled_at''"
  by (rule utf8_ascii, simp add: byte_def)+

lemma dec_Money_enc [simp]:
  "utf8_valid (Currency m) \<Longrightarrow> dec_Money (enc_Money m) old = Some m"
  by (simp add: dec_Money_def enc_Money_def decode_struct_def)

lemma dec_Item_enc [simp]:
  "item_utf8 it \<Longrightarrow> dec_Item (enc_Item it) old = Some it"
  by (simp add: dec_Item_def enc_Item_def decode_struct_def item_utf8_def)

lemma wf_enc [simp]: "wf_json (enc_Money m)" "wf_json (enc_Item it)"
  by (simp_all add: enc_Money_def enc_Item_def)

section \<open>The JSON column of items\<close>

definition JSONItems_Value :: "OrderItem list \<Rightarrow> driver_value" where
  "JSONItems_Value items = DriverString (print_json (JArr (map enc_Item items)))"

definition JSONItems_Scan :: "driver_value \<Rightarrow> OrderItem list \<Rightarrow> go_error + OrderItem list" where
  "JSONItems_Scan value old =
     (case value of
        DriverBytes bytes \<Rightarrow>
          (case Option.bind (parse_json bytes) (\<lambda>j. decode_slice dec_Item zero_Item j old) of
             None \<Rightarrow> Inl (ErrorString ''json: cannot unmarshal'')
           | Some items \<Rightarrow> Inr items)
      | _ \<Rightarrow> Inl (ErrorString ''failed to scan JSONItems''))"

text \<open>
  C33: The items of an order survive the database: the JSON text that \<open>Value\<close> writes, handed
  back by the driver as bytes, is scanned to the same items (product ids, quantities, prices,
  in order), whatever the target held before.
\<close>

theorem JSONItems_round_trip:
  assumes "\<forall>it \<in> set items. item_utf8 it"
    and "JSONItems_Value items = DriverString s"
  shows "JSONItems_Scan (DriverBytes s) old = Inr items"
proof -
  have s: "s = print_json (JArr (map enc_Item items))"
    using assms(2) by (simp add: JSONItems_Value_def)
  have "parse_json s = Some (JArr (map enc_Item items))"
    unfolding s by (rule parse_json_print) (simp add: wf_elems_map)
  then show ?thesis
    using decode_elems_map [of items dec_Item enc_Item zero_Item] assms(1)
    by (simp add: JSONItems_Scan_def decode_slice_def)
qed

theorem JSONItems_round_trip_witness:
  "\<exists>s. JSONItems_Value [\<lparr>ProductID = ''price'', Quantity = 2, Price = \<lparr>Amount = 500, Currency = ''total''\<rparr>\<rparr>]
         = DriverString s
    \<and> JSONItems_Scan (DriverBytes s) [] =
        Inr [\<lparr>ProductID = ''price'', Quantity = 2, Price = \<lparr>Amount = 500, Currency = ''total''\<rparr>\<rparr>]"
  using JSONItems_round_trip
    [of "[\<lparr>ProductID = ''price'', Quantity = 2, Price = \<lparr>Amount = 500, Currency = ''total''\<rparr>\<rparr>]"]
  by (simp add: JSONItems_Value_def item_utf8_def)

section \<open>Events\<close>

record OrderCreatedEvent =
  oc_OrderID :: string
  oc_Total :: Money
  oc_Items :: "OrderItem list"
  oc_CreatedAt :: gotime

record OrderPaidEvent =
  op_OrderID :: string
  op_PaidAt :: int64

record OrderCancelledEvent =
  ox_OrderID :: string
  ox_CancelledAt :: int64

datatype order_event =
    Created OrderCreatedEvent
  | Paid OrderPaidEvent
  | Cancelled OrderCancelledEvent

type_synonym EventType = string

abbreviation EventOrderCreated :: EventType where "EventOrderCreated \<equiv> ''OrderCreated''"
abbreviation EventOrderPaid :: EventType where "EventOrderPaid \<equiv> ''OrderPaid''"
abbreviation EventOrderCancelled :: EventType where "EventOrderCancelled \<equiv> ''OrderCancelled''"

text \<open>The JSON of an event; a creation time outside the years 0 to 9999 has none.\<close>

fun enc_event :: "order_event \<Rightarrow> json option" where
  "enc_event (Created e) =
     (case time_MarshalText (oc_CreatedAt e) of
        None \<Rightarrow> None
      | Some t \<Rightarrow>
          Some (JObj [member ''order_id'' (json_string (oc_OrderID e)),
                      member ''total'' (enc_Money (oc_Total e)),
                      member ''items'' (JArr (map enc_Item (oc_Items e))),
                      member ''created_at'' (JStr t)]))"
| "enc_event (Paid e) =
     Some (JObj [member ''order_id'' (json_string (op_OrderID e)),
                 member ''paid_at'' (json_int (op_PaidAt e))])"
| "enc_event (Cancelled e) =
     Some (JObj [member ''order_id'' (json_string (ox_OrderID e)),
                 member ''cancelled_at'' (json_int (ox_CancelledAt e))])"

definition BuildPayload :: "order_event \<Rightarrow> go_error + string" where
  "BuildPayload v =
     (case enc_event v of
        None \<Rightarrow> Inl (WrapErr ''json: error calling MarshalJSON for type time.Time: ''
                       (ErrorString ''Time.MarshalJSON: year outside of range [0,9999]''))
      | Some b \<Rightarrow> Inr (print_json b))"

text \<open>The text of a time needs no escaping, so it is a string token as it stands.\<close>

definition time_char :: "char \<Rightarrow> bool" where
  "time_char c \<longleftrightarrow> is_digit c \<or> c \<in> {CHR ''-'', CHR '':'', CHR ''.'', CHR ''T'', CHR ''Z''}"

lemma time_char_simps:
  assumes "time_char c"
  shows "byte c < 128" "escape_ascii c = [c]"
proof -
  have b: "45 \<le> byte c \<and> byte c \<le> 90 \<and> byte c \<noteq> 60 \<and> byte c \<noteq> 62 \<and> byte c \<noteq> 34 \<and> byte c \<noteq> 38"
    using assms by (auto simp: time_char_def is_digit_def byte_def)
  then show "byte c < 128" by simp
  show "escape_ascii c = [c]"
  using b by (auto simp: escape_ascii_def byte_def)
qed

lemma escape_plain: "list_all time_char s \<Longrightarrow> escape s = s"
  by (induction s) (simp_all add: escape.simps(2) time_char_simps)

lemma trim_zeros_subset: "set (trim_zeros s) \<subseteq> set s"
  by (auto simp: trim_zeros_def dest: set_dropWhileD)

lemma time_char_digits: "list_all time_char (digits_w k n)" "list_all time_char (trim_zeros (digits_w k n))"
  using trim_zeros_subset [of "digits_w k n"] digits_w_digits [of _ k n]
  by (auto simp: list_all_iff time_char_def)

lemma time_char_punct [simp]:
  "time_char (CHR ''-'')" "time_char (CHR '':'')" "time_char (CHR ''.'')" "time_char (CHR ''T'')"
  "time_char (CHR ''Z'')"
  by (simp_all add: time_char_def)

lemma time_char_fmt: "list_all time_char (fmt_RFC3339Nano t)"
  by (simp add: fmt_RFC3339Nano_def fmt_frac_def Let_def time_char_digits split: prod.split)

lemma escape_time: "time_MarshalText t = Some s \<Longrightarrow> escape s = s"
  using escape_plain [OF time_char_fmt] by (auto simp: time_MarshalText_def Let_def split: if_splits)

lemma wf_enc_event: "enc_event v = Some j \<Longrightarrow> wf_json j"
  by (cases v) (auto simp: wf_elems_map intro!: exI escape_time [symmetric] split: option.splits)

lemma BuildPayload_Inr:
  "BuildPayload v = Inr p \<longleftrightarrow> (\<exists>j. enc_event v = Some j \<and> p = print_json j)"
  by (auto simp: BuildPayload_def split: option.splits)

lemma parse_BuildPayload:
  "BuildPayload v = Inr p \<Longrightarrow> \<exists>j. enc_event v = Some j \<and> parse_json p = Some j"
  by (auto simp: BuildPayload_Inr parse_json_print wf_enc_event)

end
