(* ===== verification/OrderTotal.thy ===== *)
theory OrderTotal
  imports Currency OrderModel
begin

text \<open>
  \<open>order_service/internal/service\<close>: the validation of the items of a new order
  (\<open>validateItems\<close>) and their total in dollars (\<open>calcTotalUSD\<close>), whose multiplication and
  addition wrap around at 64 bits. The contract of a currency converter as a locale.
\<close>

section \<open>Validation\<close>

definition allowedCurrencies :: "string \<Rightarrow> bool" where
  "allowedCurrencies c \<longleftrightarrow> c \<in> {''USD'', ''EUR'', ''RUB''}"

definition item_prefix :: "nat \<Rightarrow> string" where
  "item_prefix i = ''item '' @ show_nat i @ '': ''"

fun validateItems_from :: "nat \<Rightarrow> OrderItem list \<Rightarrow> go_error option" where
  "validateItems_from i [] = None"
| "validateItems_from i (item # items) =
     (if ProductID item = '''' then
        Some (AppErr (ErrInvalidInput (item_prefix i @ ''product_id is required'')))
      else if sint (Quantity item) \<le> 0 then
        Some (AppErr (ErrInvalidInput (item_prefix i @ ''quantity must be positive'')))
      else if sint (Amount (Price item)) \<le> 0 then
        Some (AppErr (ErrInvalidInput (item_prefix i @ ''price must be positive'')))
      else if \<not> allowedCurrencies (Currency (Price item)) then
        Some (AppErr (ErrInvalidInput (item_prefix i @ ''unsupported currency '' @
          Currency (Price item) @ '' (allowed: USD, EUR, RUB)'')))
      else validateItems_from (Suc i) items)"

definition validateItems :: "OrderItem list \<Rightarrow> go_error option" where
  "validateItems items =
     (if length items = 0 then Some (AppErr (ErrInvalidInput ''order must have at least one item''))
      else validateItems_from 0 items)"

text \<open>What an acceptable item is.\<close>

definition item_ok :: "OrderItem \<Rightarrow> bool" where
  "item_ok it \<longleftrightarrow> ProductID it \<noteq> [] \<and> 0 < sint (Quantity it) \<and> 0 < sint (Amount (Price it))
     \<and> allowedCurrencies (Currency (Price it))"

lemma validateItems_from_None: "validateItems_from i items = None \<longleftrightarrow> list_all item_ok items"
  by (induction items arbitrary: i) (auto simp: item_ok_def)

lemma validateItems_None: "validateItems items = None \<longleftrightarrow> items \<noteq> [] \<and> list_all item_ok items"
  by (auto simp: validateItems_def validateItems_from_None)

lemma validateItems_from_code:
  "validateItems_from i items = Some e \<Longrightarrow>
   \<exists>j msg. j < length items \<and> e = AppErr (ErrInvalidInput (item_prefix (i + j) @ msg))
     \<and> msg \<noteq> [] \<and> \<not> item_ok (items ! j) \<and> list_all item_ok (take j items)"
proof (induction items arbitrary: i)
  case (Cons it items)
  show ?case
  proof (cases "item_ok it")
    case True
    then have "validateItems_from (Suc i) items = Some e"
      using Cons.prems by (auto simp: item_ok_def)
    from Cons.IH [OF this] obtain j msg where "j < length items"
        "e = AppErr (ErrInvalidInput (item_prefix (Suc i + j) @ msg))" "msg \<noteq> []"
        "\<not> item_ok (items ! j)" "list_all item_ok (take j items)" by blast
    with True show ?thesis by (intro exI [of _ "Suc j"] exI [of _ msg]) simp
  next
    case False
    then show ?thesis
      using Cons.prems by (intro exI [of _ 0]) (auto simp: item_ok_def split: if_splits)
  qed
qed simp

section \<open>Total\<close>

fun calcTotalUSD_from :: "nat \<Rightarrow> int64 \<Rightarrow> OrderItem list \<Rightarrow> Converter \<Rightarrow> go_error + int64" where
  "calcTotalUSD_from i acc [] conv = Inr acc"
| "calcTotalUSD_from i acc (item # items) conv =
     (let lineAmount = Amount (Price item) * Quantity item in
      case conv lineAmount (Currency (Price item)) of
        Inl err \<Rightarrow> Inl (AppErr (ErrInvalidInput (item_prefix i @ ''cannot convert '' @
                     Currency (Price item) @ '' to USD: '' @ err)))
      | Inr usd \<Rightarrow> calcTotalUSD_from (Suc i) (acc + usd) items conv)"

definition calcTotalUSD :: "OrderItem list \<Rightarrow> Converter \<Rightarrow> go_error + int64" where
  "calcTotalUSD items conv = calcTotalUSD_from 0 0 items conv"

text \<open>
  The contract of a converter: dollars convert to themselves, every allowed currency converts,
  and what a non-negative amount converts to is non-negative and at most twice the amount (every
  rate is below two), as long as twice the amount is representable.
\<close>

locale currency_converter =
  fixes conv :: Converter
  assumes conv_USD: "conv a ''USD'' = Inr a"
    and conv_allowed: "allowedCurrencies c \<Longrightarrow> \<exists>r. conv a c = Inr r"
    and conv_bound: "allowedCurrencies c \<Longrightarrow> 0 \<le> sint a \<Longrightarrow> 2 * sint a \<le> int64_max \<Longrightarrow>
        conv a c = Inr r \<Longrightarrow> 0 \<le> sint r \<and> sint r \<le> 2 * sint a"

definition line_amount :: "OrderItem \<Rightarrow> int" where
  "line_amount it = sint (Amount (Price it)) * sint (Quantity it)"

lemma line_amount_pos: "item_ok it \<Longrightarrow> 0 < line_amount it"
  by (simp add: line_amount_def item_ok_def)

lemma line_amount_word:
  "item_ok it \<Longrightarrow> line_amount it \<le> int64_max \<Longrightarrow>
   sint (Amount (Price it) * Quantity it) = line_amount it"
  using line_amount_pos [of it] by (intro trans [OF sint_mult64]) (auto simp: line_amount_def in_int64_def)

context currency_converter
begin

text \<open>The dollars of one line, as the code converts them.\<close>

definition usd_of :: "OrderItem \<Rightarrow> int" where
  "usd_of it = (case conv (Amount (Price it) * Quantity it) (Currency (Price it)) of
                  Inl _ \<Rightarrow> 0 | Inr r \<Rightarrow> sint r)"

lemma conv_total: "list_all item_ok items \<Longrightarrow> \<exists>t. calcTotalUSD_from i acc items conv = Inr t"
proof (induction items arbitrary: i acc)
  case (Cons it items)
  then have "allowedCurrencies (Currency (Price it))" by (simp add: item_ok_def)
  then obtain r where "conv (Amount (Price it) * Quantity it) (Currency (Price it)) = Inr r"
    using conv_allowed by blast
  with Cons show ?case by (simp add: Let_def)
qed simp

lemma usd_of_bounds:
  assumes "item_ok it" and "2 * line_amount it \<le> int64_max"
  shows "\<exists>r. conv (Amount (Price it) * Quantity it) (Currency (Price it)) = Inr r
             \<and> sint r = usd_of it \<and> 0 \<le> usd_of it \<and> usd_of it \<le> 2 * line_amount it"
proof -
  have a: "allowedCurrencies (Currency (Price it))" using assms(1) by (simp add: item_ok_def)
  note p = line_amount_pos [OF assms(1)]
  have s: "sint (Amount (Price it) * Quantity it) = line_amount it"
    using p assms(2) by (intro line_amount_word [OF assms(1)]) simp
  obtain r where "conv (Amount (Price it) * Quantity it) (Currency (Price it)) = Inr r"
    using conv_allowed [OF a] by auto
  with conv_bound [OF a _ _ this] s p assms(2) show ?thesis by (simp add: usd_of_def)
qed

lemma calc_exact:
  assumes "list_all item_ok items" and "0 \<le> sint acc"
    and "sint acc + 2 * sum_list (map line_amount items) \<le> int64_max"
  shows "\<exists>t. calcTotalUSD_from i acc items conv = Inr t
             \<and> sint t = sint acc + sum_list (map usd_of items)"
  using assms
proof (induction items arbitrary: i acc)
  case (Cons it items)
  have ok: "item_ok it" "list_all item_ok items" using Cons.prems(1) by auto
  have pos: "0 \<le> sum_list (map line_amount items)"
    using ok(2) line_amount_pos by (intro sum_list_nonneg) (auto simp: list_all_iff intro: less_imp_le)
  have b: "2 * line_amount it \<le> int64_max" using Cons.prems(2,3) pos by simp
  obtain r where r: "conv (Amount (Price it) * Quantity it) (Currency (Price it)) = Inr r"
      "sint r = usd_of it" "0 \<le> usd_of it" "usd_of it \<le> 2 * line_amount it"
    using usd_of_bounds [OF ok(1) b] by auto
  have s: "sint (acc + r) = sint acc + usd_of it"
    using r Cons.prems(2,3) pos by (subst sint_add64) (auto simp: in_int64_def)
  have "\<exists>t. calcTotalUSD_from (Suc i) (acc + r) items conv = Inr t
             \<and> sint t = sint (acc + r) + sum_list (map usd_of items)"
    using Cons.prems(2,3) r s by (intro Cons.IH [OF ok(2)]) auto
  with r(1) s show ?case by (simp add: Let_def add.assoc)
qed simp

end

section \<open>The static converter\<close>

interpretation static: currency_converter ToUSD
proof
  show "ToUSD a ''USD'' = Inr a" for a by (rule ToUSD_USD)
  show "\<exists>r. ToUSD a c = Inr r" if "allowedCurrencies c" for a c
    using that ToUSD_Inr_iff [of a c] by (simp add: allowedCurrencies_def)
  show "0 \<le> sint r \<and> sint r \<le> 2 * sint a"
    if c: "allowedCurrencies c" and p: "0 \<le> sint a" and b: "2 * sint a \<le> int64_max"
      and r: "ToUSD a c = Inr r" for a c r
  proof -
    define n where "n = nat (sint a)"
    have n: "sint a = int n" using p by (simp add: n_def)
    have eur: "convert_nat 4908923593833841 52 n \<le> 2 * n" by (rule convert_nat_le) simp_all
    have rub: "convert_nat 6341068275337658 59 n \<le> 2 * n" by (rule convert_nat_le) simp_all
    have "2 * n < 2 ^ 63" using b n by simp
    with eur rub have lt: "convert_nat 4908923593833841 52 n < 2 ^ 63"
      "convert_nat 6341068275337658 59 n < 2 ^ 63" by linarith+
    from c consider "c = ''USD''" | "c = ''EUR''" | "c = ''RUB''"
      by (auto simp: allowedCurrencies_def)
    then show ?thesis
    proof cases
      case 1 with r p show ?thesis by simp
    next
      case 2
      with ToUSD_EUR [OF p] lt(1) r eur show ?thesis unfolding n_def [symmetric] by (auto simp: n)
    next
      case 3
      with ToUSD_RUB [OF p] lt(2) r rub show ?thesis unfolding n_def [symmetric] by (auto simp: n)
    qed
  qed
qed

text \<open>The exact value of an amount at the rates of the table, rounded down.\<close>

definition usd_value :: "string \<Rightarrow> int \<Rightarrow> int" where
  "usd_value c a = (if c = ''EUR'' then 109 * a div 100 else if c = ''RUB'' then 11 * a div 1000 else a)"

definition is_RUB :: "OrderItem \<Rightarrow> bool" where
  "is_RUB it \<longleftrightarrow> Currency (Price it) = ''RUB''"

lemma usd_of_value:
  assumes "item_ok it" and "line_amount it < 2 ^ 45"
  shows "static.usd_of it \<le> usd_value (Currency (Price it)) (line_amount it)"
    and "usd_value (Currency (Price it)) (line_amount it)
         \<le> static.usd_of it + (if is_RUB it then 1 else 0)"
proof -
  note p = line_amount_pos [OF assms(1)]
  have s: "sint (Amount (Price it) * Quantity it) = line_amount it"
    using p assms(2) by (intro line_amount_word [OF assms(1)]) simp
  have e: "\<exists>r. ToUSD (Amount (Price it) * Quantity it) ''EUR'' = Inr r \<and> sint r = 109 * line_amount it div 100"
    using euro_exact [of "Amount (Price it) * Quantity it"] p assms(2) s by simp
  have r: "\<exists>r. ToUSD (Amount (Price it) * Quantity it) ''RUB'' = Inr r
      \<and> sint r \<le> 11 * line_amount it div 1000 \<and> 11 * line_amount it div 1000 - 1 \<le> sint r"
    using rouble_bounds [of "Amount (Price it) * Quantity it"] p assms(2) s by auto
  have "Currency (Price it) \<in> {''USD'', ''EUR'', ''RUB''}"
    using assms(1) by (simp add: item_ok_def allowedCurrencies_def)
  with e r s show "static.usd_of it \<le> usd_value (Currency (Price it)) (line_amount it)"
    and "usd_value (Currency (Price it)) (line_amount it)
         \<le> static.usd_of it + (if is_RUB it then 1 else 0)"
    by (auto simp: static.usd_of_def usd_value_def is_RUB_def)
qed

lemma sum_line_bound:
  assumes "list_all (\<lambda>it. line_amount it < 2 ^ 45) items"
  shows "sum_list (map line_amount items) \<le> int (length items) * (2 ^ 45 - 1)"
  using assms by (induction items) auto

text \<open>
  C28: The total of a validated order is right: when no line reaches \<open>2^45\<close> cents and there are
  at most \<open>2^17\<close> lines, nothing overflows and the total is the sum of the lines' values at the
  rates of the table, each rounded down, less at most one cent for each rouble line.
\<close>

theorem calcTotalUSD_exact:
  assumes "validateItems items = None"
    and "list_all (\<lambda>it. line_amount it < 2 ^ 45) items" and "length items \<le> 2 ^ 17"
  shows "\<exists>t. calcTotalUSD items ToUSD = Inr t \<and> 0 \<le> sint t
           \<and> sint t \<le> (\<Sum>it\<leftarrow>items. usd_value (Currency (Price it)) (line_amount it))
           \<and> (\<Sum>it\<leftarrow>items. usd_value (Currency (Price it)) (line_amount it))
               \<le> sint t + int (length (filter is_RUB items))"
proof -
  have ok: "list_all item_ok items" using assms(1) by (simp add: validateItems_None)
  have "2 * sum_list (map line_amount items) \<le> int64_max"
    using sum_line_bound [OF assms(2)] assms(3) by auto
  with static.calc_exact [OF ok, of 0 0] obtain t where
    t: "calcTotalUSD items ToUSD = Inr t" "sint t = sum_list (map static.usd_of items)"
    by (auto simp: calcTotalUSD_def)
  have "0 \<le> sum_list (map static.usd_of items)"
    using static.usd_of_bounds ok assms(2)
    by (intro sum_list_nonneg) (force simp: list_all_iff)
  moreover have "sum_list (map static.usd_of items)
      \<le> (\<Sum>it\<leftarrow>items. usd_value (Currency (Price it)) (line_amount it))"
    using usd_of_value(1) ok assms(2) by (intro sum_list_mono) (auto simp: list_all_iff)
  moreover have "(\<Sum>it\<leftarrow>items. usd_value (Currency (Price it)) (line_amount it))
      \<le> sum_list (map static.usd_of items) + int (length (filter is_RUB items))"
    using ok assms(2)
  proof (induction items)
    case (Cons it items)
    then show ?case using usd_of_value(2) [of it] by (auto split: if_splits)
  qed simp
  ultimately show ?thesis using t by auto
qed

text \<open>The order of the example in the tests: two lines in dollars.\<close>

definition usd_item :: "string \<Rightarrow> int64 \<Rightarrow> int64 \<Rightarrow> OrderItem" where
  "usd_item p q a = \<lparr>ProductID = p, Quantity = q, Price = \<lparr>Amount = a, Currency = ''USD''\<rparr>\<rparr>"

lemma usd_item_ok [simp]: "item_ok (usd_item p q a) \<longleftrightarrow> p \<noteq> [] \<and> 0 < sint q \<and> 0 < sint a"
  by (auto simp: item_ok_def usd_item_def allowedCurrencies_def)

lemma usd_item_line [simp]:
  "line_amount (usd_item p q a) = sint a * sint q" "Currency (Price (usd_item p q a)) = ''USD''"
  "\<not> is_RUB (usd_item p q a)"
  by (simp_all add: line_amount_def usd_item_def is_RUB_def)

theorem calcTotalUSD_exact_witness:
  "\<exists>t. calcTotalUSD [usd_item ''prod-1'' 2 500, usd_item ''prod-2'' 1 1000] ToUSD = Inr t \<and> sint t = 2000"
  using calcTotalUSD_exact [of "[usd_item ''prod-1'' 2 500, usd_item ''prod-2'' 1 1000]"]
  by (auto simp: validateItems_None usd_value_def)

text \<open>
  After validation the conversion cannot fail: every validated order has a total, whatever
  the sizes of its prices and quantities, so the conversion error of \<open>calcTotalUSD\<close> is never
  the answer of \<open>CreateOrder\<close>.
\<close>

lemma validated_total:
  assumes "validateItems items = None"
  shows "\<exists>t. calcTotalUSD items ToUSD = Inr t"
  using static.conv_total assms by (simp add: validateItems_None calcTotalUSD_def)

lemma validated_total_witness:
  "\<exists>t. calcTotalUSD [usd_item ''p'' 1 7] ToUSD = Inr t"
  by (rule validated_total) (simp add: validateItems_None)

text \<open>In dollars the total is the sum of the lines as the hardware adds and multiplies.\<close>

lemma usd_total_from:
  assumes "list_all (\<lambda>it. Currency (Price it) = ''USD'') items"
  shows "calcTotalUSD_from i acc items ToUSD = Inr (acc + word_of_int (\<Sum>it\<leftarrow>items. line_amount it))"
  using assms
  by (induction items arbitrary: i acc) (simp_all add: Let_def line_amount_def ToUSD_USD add.assoc)

lemma sint_wrap64: "sint (word_of_int x :: int64) = (x + 2 ^ 63) mod 2 ^ 64 - 2 ^ 63"
  by (simp add: signed_of_int signed_take_bit_eq_take_bit_shift take_bit_eq_mod)

lemma wrap64_exact: "0 \<le> x \<Longrightarrow> (x + 2 ^ 63) mod 2 ^ 64 - 2 ^ 63 = x \<longleftrightarrow> x < (2 ^ 63 :: int)"
proof
  show "x < 2 ^ 63" if "(x + 2 ^ 63) mod 2 ^ 64 - 2 ^ 63 = x"
    using pos_mod_bound [of "2 ^ 64" "x + 2 ^ 63"] that by simp
qed simp

text \<open>
  C40: The total overflows without an error: every validated order in dollars gets a total, and it
  is the sum of price times quantity over its lines, wrapped to 64 bits; so the answer is the true
  total exactly when the true total is below \<open>2 ^ 63\<close> cents, and otherwise a wrong and possibly
  negative amount is stored, answered and invoiced, since the only bound of the validation is that
  price and quantity are positive.
\<close>

theorem total_overflows:
  assumes "validateItems items = None" and "list_all (\<lambda>it. Currency (Price it) = ''USD'') items"
  shows "\<exists>t. calcTotalUSD items ToUSD = Inr t
    \<and> sint t = ((\<Sum>it\<leftarrow>items. line_amount it) + 2 ^ 63) mod 2 ^ 64 - 2 ^ 63
    \<and> (sint t = (\<Sum>it\<leftarrow>items. line_amount it) \<longleftrightarrow> (\<Sum>it\<leftarrow>items. line_amount it) < 2 ^ 63)"
proof -
  let ?t = "\<Sum>it\<leftarrow>items. line_amount it"
  have ok: "list_all item_ok items" using assms(1) by (simp add: validateItems_None)
  have "0 \<le> ?t"
    using ok line_amount_pos by (intro sum_list_nonneg) (auto simp: list_all_iff intro: less_imp_le)
  then have "(?t + 2 ^ 63) mod 2 ^ 64 - 2 ^ 63 = ?t \<longleftrightarrow> ?t < 2 ^ 63" by (rule wrap64_exact)
  moreover have "calcTotalUSD items ToUSD = Inr (word_of_int ?t)"
    using usd_total_from [OF assms(2), of 0 0] by (simp add: calcTotalUSD_def)
  ultimately show ?thesis by (simp add: sint_wrap64)
qed

theorem total_overflows_witness:
  "\<exists>t. validateItems [usd_item ''p'' 2 4611686018427387904] = None
     \<and> calcTotalUSD [usd_item ''p'' 2 4611686018427387904] ToUSD = Inr t \<and> sint t = - (2 ^ 63)"
proof -
  have v: "validateItems [usd_item ''p'' 2 4611686018427387904] = None" by (simp add: validateItems_None)
  have u: "list_all (\<lambda>it. Currency (Price it) = ''USD'') [usd_item ''p'' 2 4611686018427387904]" by simp
  from total_overflows [OF v u] v show ?thesis by auto
qed

text \<open>
  C29: Validation accepts exactly the non-empty lists of items that all have a product, a positive
  quantity, a positive price and an allowed currency; otherwise it answers with the code
  \<open>ERR_INVALID_INPUT\<close> and a message that names the first offending item by its position.
\<close>

theorem validateItems_spec:
  "(validateItems items = None \<longleftrightarrow> items \<noteq> [] \<and> list_all item_ok items)
   \<and> (\<forall>e. validateItems items = Some e \<longrightarrow>
        fst (order_mapError e) = InvalidArgument
        \<and> (items = [] \<or> (\<exists>j msg. j < length items \<and> Error e = item_prefix j @ msg
              \<and> \<not> item_ok (items ! j) \<and> list_all item_ok (take j items))))"
proof (intro conjI allI impI)
  show "(validateItems items = None) = (items \<noteq> [] \<and> list_all item_ok items)"
    by (rule validateItems_None)
  fix e assume e: "validateItems items = Some e"
  have "items = [] \<and> e = AppErr (ErrInvalidInput ''order must have at least one item'')
        \<or> validateItems_from 0 items = Some e"
    using e by (auto simp: validateItems_def split: if_splits)
  then have "fst (order_mapError e) = InvalidArgument
      \<and> (items = [] \<or> (\<exists>j msg. j < length items \<and> Error e = item_prefix j @ msg
              \<and> \<not> item_ok (items ! j) \<and> list_all item_ok (take j items)))"
  proof
    assume "validateItems_from 0 items = Some e"
    from validateItems_from_code [OF this] obtain j msg where j: "j < length items"
        "e = AppErr (ErrInvalidInput (item_prefix (0 + j) @ msg))" "msg \<noteq> []"
        "\<not> item_ok (items ! j)" "list_all item_ok (take j items)" by blast
    then have "Error e = item_prefix j @ msg" "fst (order_mapError e) = InvalidArgument" by simp_all
    with j show ?thesis by blast
  qed simp
  then show "fst (order_mapError e) = InvalidArgument"
    and "items = [] \<or> (\<exists>j msg. j < length items \<and> Error e = item_prefix j @ msg
              \<and> \<not> item_ok (items ! j) \<and> list_all item_ok (take j items))"
    by blast+
qed

theorem validateItems_spec_witness:
  "\<exists>e. validateItems [usd_item ''p'' 1 7, usd_item ''q'' 0 7] = Some e
       \<and> fst (order_mapError e) = InvalidArgument"
proof -
  have "validateItems [usd_item ''p'' 1 7, usd_item ''q'' 0 7] \<noteq> None"
    by (simp add: validateItems_None)
  then obtain e where "validateItems [usd_item ''p'' 1 7, usd_item ''q'' 0 7] = Some e" by auto
  with validateItems_spec [of "[usd_item ''p'' 1 7, usd_item ''q'' 0 7]"] show ?thesis by blast
qed

end
