(* ===== verification/Gorm.thy ===== *)
theory Gorm
  imports Errors
begin

text \<open>
  The database as the services see it. GORM and PostgreSQL are not part of the repository, so
  they are parameters: the calls on one table are the fields of a record of functions over an
  abstract database state, and \<open>db.Transaction\<close> is a function argument. A condition such as
  \<open>Where("status = ?", s)\<close> is the predicate on rows that it denotes, a query is the record of
  its clauses.

  The locale \<open>gorm_table\<close> states what the code relies on, in terms of a view of the table as a
  map from a unique column to rows, and of a view \<open>rest\<close> of everything else. A failed statement
  changes nothing; a failed transaction is rolled back. (A commit whose acknowledgement is lost
  on the network is outside this contract.) An in-memory store with a schedule of faults meets
  the contract and serves the witnesses.
\<close>

section \<open>The interface\<close>

record 'r gorm_query =
  q_where :: "'r \<Rightarrow> bool"
  q_order :: "'r \<Rightarrow> int"
  q_limit :: int64
  q_offset :: int64

record ('db, 'r) gorm_table_ops =
  gorm_First :: "('r \<Rightarrow> bool) \<Rightarrow> 'db \<Rightarrow> (go_error + 'r) \<times> 'db"
  gorm_Find :: "'r gorm_query \<Rightarrow> 'db \<Rightarrow> (go_error + 'r list) \<times> 'db"
  gorm_Create :: "'r \<Rightarrow> 'db \<Rightarrow> go_error option \<times> 'db"
  gorm_Save :: "'r \<Rightarrow> 'db \<Rightarrow> go_error option \<times> 'db"
  gorm_Updates :: "('r \<Rightarrow> bool) \<Rightarrow> ('r \<Rightarrow> 'r) \<Rightarrow> 'db \<Rightarrow> (go_error + int64) \<times> 'db"
  gorm_Count :: "('r \<Rightarrow> bool) \<Rightarrow> 'db \<Rightarrow> (go_error + int64) \<times> 'db"
  gorm_CountSum :: "('r \<Rightarrow> bool) \<Rightarrow> ('r \<Rightarrow> int64) \<Rightarrow> 'db \<Rightarrow> (go_error + (int64 \<times> int64)) \<times> 'db"

type_synonym ('db, 'a) gorm_transaction =
  "('db \<Rightarrow> (go_error + 'a) \<times> 'db) \<Rightarrow> 'db \<Rightarrow> (go_error + 'a) \<times> 'db"

section \<open>What the code relies on\<close>

type_synonym 'r view = "string \<Rightarrow> 'r option"

text \<open>
  The rows a query may return: those that meet the condition, in an order that is sorted by the
  key (ties in any order), from the offset on and at most \<open>limit\<close> of them.
\<close>

definition query_result :: "'r gorm_query \<Rightarrow> 'r view \<Rightarrow> 'r list \<Rightarrow> bool" where
  "query_result q m rs \<longleftrightarrow>
     (\<exists>ys. distinct ys \<and> set ys = {r \<in> ran m. q_where q r} \<and> sorted (map (q_order q) ys)
           \<and> rs = take (nat (sint (q_limit q))) (drop (nat (sint (q_offset q))) ys))"

definition upd_rows :: "('r \<Rightarrow> bool) \<Rightarrow> ('r \<Rightarrow> 'r) \<Rightarrow> 'r view \<Rightarrow> 'r view" where
  "upd_rows P f m = (\<lambda>k. map_option (\<lambda>r. if P r then f r else r) (m k))"

locale gorm_table =
  fixes T :: "('db, 'r) gorm_table_ops"
    and rows :: "'db \<Rightarrow> 'r view"
    and key :: "'r \<Rightarrow> string"
    and rest :: "'db \<Rightarrow> 'rest"
  assumes rows_key: "rows s k = Some r \<Longrightarrow> key r = k"
    and rows_finite: "finite (dom (rows s))"
    and First_ok: "gorm_First T P s = (Inr r, s') \<Longrightarrow> P r \<and> rows s (key r) = Some r"
    and First_none: "gorm_First T P s = (Inl e, s') \<Longrightarrow> is_RecordNotFound e \<Longrightarrow> r \<in> ran (rows s) \<Longrightarrow> \<not> P r"
    and First_frame: "gorm_First T P s = (x1, s') \<Longrightarrow> rows s' = rows s \<and> rest s' = rest s"
    and Find_ok: "gorm_Find T q s = (Inr rs, s') \<Longrightarrow> 0 < sint (q_limit q) \<Longrightarrow> query_result q (rows s) rs"
    and Find_frame: "gorm_Find T q s = (x2, s') \<Longrightarrow> rows s' = rows s \<and> rest s' = rest s"
    and Create_ok: "gorm_Create T r s = (None, s') \<Longrightarrow>
        rows s (key r) = None \<and> rows s' = (rows s)(key r \<mapsto> r) \<and> rest s' = rest s"
    and Create_err: "gorm_Create T r s = (Some e, s') \<Longrightarrow> rows s' = rows s \<and> rest s' = rest s"
    and Save_ok: "gorm_Save T r s = (None, s') \<Longrightarrow> rows s' = (rows s)(key r \<mapsto> r) \<and> rest s' = rest s"
    and Save_err: "gorm_Save T r s = (Some e, s') \<Longrightarrow> rows s' = rows s \<and> rest s' = rest s"
    and Updates_ok: "gorm_Updates T P f s = (Inr n, s') \<Longrightarrow> (\<And>r. key (f r) = key r) \<Longrightarrow>
        rows s' = upd_rows P f (rows s) \<and> rest s' = rest s
        \<and> sint n = int (card {r \<in> ran (rows s). P r})"
    and Updates_err: "gorm_Updates T P f s = (Inl e, s') \<Longrightarrow> rows s' = rows s \<and> rest s' = rest s"
    and Count_ok: "gorm_Count T P s = (Inr n, s') \<Longrightarrow> sint n = int (card {r \<in> ran (rows s). P r})"
    and Count_frame: "gorm_Count T P s = (x3, s') \<Longrightarrow> rows s' = rows s \<and> rest s' = rest s"
    and CountSum_ok: "gorm_CountSum T P g s = (Inr (n, t), s') \<Longrightarrow>
        sint n = int (card {r \<in> ran (rows s). P r})
        \<and> sint t = (\<Sum>r \<in> {r \<in> ran (rows s). P r}. sint (g r))"
    and CountSum_frame: "gorm_CountSum T P g s = (x4, s') \<Longrightarrow> rows s' = rows s \<and> rest s' = rest s"
begin

lemma in_ran_iff: "r \<in> ran (rows s) \<longleftrightarrow> rows s (key r) = Some r"
  using rows_key by (auto simp: ran_def)

lemma finite_ran: "finite (ran (rows s))"
  by (rule finite_ran [OF rows_finite])

text \<open>Looking a row up by its key.\<close>

lemma First_key_ok:
  "gorm_First T (\<lambda>r. key r = k) s = (Inr r, s') \<Longrightarrow> rows s k = Some r"
  using First_ok [of "\<lambda>r. key r = k"] by auto

lemma First_key_none:
  "gorm_First T (\<lambda>r. key r = k) s = (Inl e, s') \<Longrightarrow> is_RecordNotFound e \<Longrightarrow> rows s k = None"
  using First_none [of "\<lambda>r. key r = k" s e s'] rows_key
  by (metis not_Some_eq ranI)

lemma First_key_missing:
  assumes "gorm_First T (\<lambda>r. key r = k) s = (x, s')" "rows s k = None"
  shows "\<exists>e. x = Inl e"
  using assms First_key_ok [of k s _ s'] by (cases x) auto

text \<open>Updating by key changes at most the one row.\<close>

lemma Updates_key_ok:
  assumes "gorm_Updates T (\<lambda>r. key r = k) f s = (Inr n, s')" and f: "\<And>r. key (f r) = key r"
  shows "rows s' = (rows s)(k := map_option f (rows s k))" and "rest s' = rest s"
    and "n = 0 \<longleftrightarrow> rows s k = None"
proof -
  note U = Updates_ok [OF assms]
  have "upd_rows (\<lambda>r. key r = k) f (rows s) = (rows s)(k := map_option f (rows s k))"
  proof
    fix j
    show "upd_rows (\<lambda>r. key r = k) f (rows s) j = ((rows s)(k := map_option f (rows s k))) j"
      using rows_key [of s j] by (cases "rows s j") (auto simp: upd_rows_def)
  qed
  then show "rows s' = (rows s)(k := map_option f (rows s k))" using U by simp
  show "rest s' = rest s" using U by simp
  have e: "{r \<in> ran (rows s). key r = k} = (case rows s k of None \<Rightarrow> {} | Some r \<Rightarrow> {r})"
  proof (intro set_eqI iffI)
    fix r assume "r \<in> {r \<in> ran (rows s). key r = k}"
    then show "r \<in> (case rows s k of None \<Rightarrow> {} | Some r \<Rightarrow> {r})"
      by (auto simp: in_ran_iff)
  next
    fix r assume "r \<in> (case rows s k of None \<Rightarrow> {} | Some r \<Rightarrow> {r})"
    then have "rows s k = Some r" by (simp split: option.splits)
    then show "r \<in> {r \<in> ran (rows s). key r = k}" using rows_key by (simp add: ranI)
  qed
  have "n = 0 \<longleftrightarrow> sint n = 0" by (metis sint64_0 sint64_eqI)
  then show "n = 0 \<longleftrightarrow> rows s k = None" using U e by (auto split: option.splits)
qed

lemma Find_subset:
  "gorm_Find T q s = (Inr rs, s') \<Longrightarrow> 0 < sint (q_limit q) \<Longrightarrow> r \<in> set rs \<Longrightarrow>
   rows s (key r) = Some r \<and> q_where q r"
  using Find_ok [of q s rs s'] in_ran_iff
  by (auto simp: query_result_def dest!: in_set_takeD in_set_dropD)

lemma Find_length:
  "gorm_Find T q s = (Inr rs, s') \<Longrightarrow> 0 < sint (q_limit q) \<Longrightarrow> int (length rs) \<le> sint (q_limit q)"
  using Find_ok [of q s rs s'] by (auto simp: query_result_def min_def)

lemma Find_sorted:
  "gorm_Find T q s = (Inr rs, s') \<Longrightarrow> 0 < sint (q_limit q) \<Longrightarrow> sorted (map (q_order q) rs) \<and> distinct rs"
  using Find_ok [of q s rs s']
  by (auto simp: query_result_def take_map [symmetric] drop_map [symmetric] intro: sorted_wrt_take sorted_wrt_drop)

end

text \<open>
  \<open>db.Transaction(fc)\<close>: when it returns no error, \<open>fc\<close> ran once on the data as they were and
  its effects are committed; when it returns an error, nothing has changed.
\<close>

locale gorm_transaction =
  fixes tx :: "('db, 'a) gorm_transaction"
    and view :: "'db \<Rightarrow> 'view"
  assumes tx_ok: "tx fc s = (Inr a, s') \<Longrightarrow>
        \<exists>s1 s2. view s1 = view s \<and> fc s1 = (Inr a, s2) \<and> view s' = view s2"
    and tx_err: "tx fc s = (Inl e, s') \<Longrightarrow> view s' = view s"
begin

text \<open>A predicate of the data that the body establishes when it succeeds holds afterwards.\<close>

lemma tx_cases:
  assumes "tx fc s = (x, s')"
    and "\<And>s1 a s2. view s1 = view s \<Longrightarrow> fc s1 = (Inr a, s2) \<Longrightarrow> Q a (view s2)"
  shows "case x of Inr a \<Rightarrow> Q a (view s') | Inl e \<Rightarrow> view s' = view s"
  using assms tx_ok [of fc s _ s'] tx_err [of fc s _ s'] by (cases x) fastforce+

end

section \<open>An in-memory store\<close>

text \<open>
  Two tables as lists of rows, and a schedule that says which of the coming calls fail. Rows
  with the key of an earlier row are not visible, so every list is a table.
\<close>

record ('a, 'b) memdb =
  mem_left :: "'a list"
  mem_right :: "'b list"
  mem_faults :: "bool list"

definition mem_tick :: "('a, 'b) memdb \<Rightarrow> bool \<times> ('a, 'b) memdb" where
  "mem_tick s =
     (case mem_faults s of [] \<Rightarrow> (False, s) | f # fs \<Rightarrow> (f, s\<lparr>mem_faults := fs\<rparr>))"

fun visible :: "('r \<Rightarrow> string) \<Rightarrow> 'r list \<Rightarrow> 'r list" where
  "visible key [] = []"
| "visible key (r # rs) = r # filter (\<lambda>x. key x \<noteq> key r) (visible key rs)"

definition lookup_row :: "('r \<Rightarrow> string) \<Rightarrow> 'r list \<Rightarrow> 'r view" where
  "lookup_row key rs = (\<lambda>k. find (\<lambda>r. key r = k) rs)"

definition db_error :: go_error where
  "db_error = ErrorString ''driver: bad connection''"

definition dup_error :: go_error where
  "dup_error = ErrorString ''duplicate key value violates unique constraint''"

definition mem_table ::
  "('db \<Rightarrow> 'r list) \<Rightarrow> ('r list \<Rightarrow> 'db \<Rightarrow> 'db) \<Rightarrow> ('db \<Rightarrow> bool \<times> 'db) \<Rightarrow> ('r \<Rightarrow> string)
   \<Rightarrow> ('db, 'r) gorm_table_ops" where
  "mem_table get put tick key =
     \<lparr>gorm_First = (\<lambda>P s. let (fault, s1) = tick s in
        if fault then (Inl db_error, s1)
        else case find P (visible key (get s1)) of
               None \<Rightarrow> (Inl ErrRecordNotFound, s1) | Some r \<Rightarrow> (Inr r, s1)),
      gorm_Find = (\<lambda>q s. let (fault, s1) = tick s in
        if fault then (Inl db_error, s1)
        else (Inr (take (nat (sint (q_limit q))) (drop (nat (sint (q_offset q)))
                (sort_key (q_order q) (filter (q_where q) (visible key (get s1)))))), s1)),
      gorm_Create = (\<lambda>r s. let (fault, s1) = tick s in
        if fault then (Some db_error, s1)
        else if find (\<lambda>x. key x = key r) (get s1) \<noteq> None then (Some dup_error, s1)
        else (None, put (get s1 @ [r]) s1)),
      gorm_Save = (\<lambda>r s. let (fault, s1) = tick s in
        if fault then (Some db_error, s1)
        else if find (\<lambda>x. key x = key r) (get s1) \<noteq> None
             then (None, put (map (\<lambda>x. if key x = key r then r else x) (get s1)) s1)
        else (None, put (get s1 @ [r]) s1)),
      gorm_Updates = (\<lambda>P f s. let (fault, s1) = tick s; n = length (filter P (visible key (get s1))) in
        if fault \<or> 2 ^ 63 \<le> n then (Inl db_error, s1)
        else (Inr (of_nat n), put (map (\<lambda>r. if P r then f r else r) (visible key (get s1))) s1)),
      gorm_Count = (\<lambda>P s. let (fault, s1) = tick s; n = length (filter P (visible key (get s1))) in
        if fault \<or> 2 ^ 63 \<le> n then (Inl db_error, s1) else (Inr (of_nat n), s1)),
      gorm_CountSum = (\<lambda>P g s. let (fault, s1) = tick s; rs = filter P (visible key (get s1));
          n = length rs; t = sum_list (map (\<lambda>r. sint (g r)) rs) in
        if fault \<or> 2 ^ 63 \<le> n \<or> \<not> in_int64 t then (Inl db_error, s1)
        else (Inr (of_nat n, of_int t), s1))\<rparr>"

definition mem_transaction :: "(('a, 'b) memdb, 'x) gorm_transaction" where
  "mem_transaction fc s =
     (let (fault, s1) = mem_tick s in
      if fault then (Inl db_error, s1)
      else case fc s1 of
             (Inl e, s2) \<Rightarrow> (Inl e, s1\<lparr>mem_faults := mem_faults s2\<rparr>)
           | (Inr a, s2) \<Rightarrow>
               let (fault2, s3) = mem_tick s2 in
               if fault2 then (Inl db_error, s1\<lparr>mem_faults := mem_faults s3\<rparr>) else (Inr a, s3))"

lemma mem_tick_frame [simp]:
  "mem_tick s = (f, s1) \<Longrightarrow> mem_left s1 = mem_left s \<and> mem_right s1 = mem_right s"
  by (auto simp: mem_tick_def split: list.splits)

interpretation mem_tx: gorm_transaction mem_transaction "\<lambda>s. (mem_left s, mem_right s)"
proof
  fix fc :: "('a, 'b) memdb \<Rightarrow> (go_error + 'x) \<times> ('a, 'b) memdb" and s s' a e
  show "\<exists>s1 s2. (mem_left s1, mem_right s1) = (mem_left s, mem_right s) \<and> fc s1 = (Inr a, s2)
        \<and> (mem_left s', mem_right s') = (mem_left s2, mem_right s2)"
    if "mem_transaction fc s = (Inr a, s')"
    using that by (auto simp: mem_transaction_def split: prod.splits sum.splits if_splits)
      (metis mem_tick_frame)
  show "(mem_left s', mem_right s') = (mem_left s, mem_right s)"
    if "mem_transaction fc s = (Inl e, s')"
    using that by (auto simp: mem_transaction_def split: prod.splits sum.splits if_splits)
qed

section \<open>The store meets the contract\<close>

lemma visible_keys: "distinct (map key (visible key rs))"
  by (induction rs) (auto simp: distinct_map inj_on_filter_key_eq intro: inj_on_subset)

lemma find_filter: "find P (filter Q rs) = find (\<lambda>x. Q x \<and> P x) rs"
  by (induction rs) auto

lemma lookup_visible: "lookup_row key (visible key rs) = lookup_row key rs"
proof
  fix k
  show "lookup_row key (visible key rs) k = lookup_row key rs k"
  proof (induction rs)
    case (Cons r rs)
    have "find (\<lambda>x. key x \<noteq> key r \<and> key x = k) (visible key rs) = find (\<lambda>x. key x = k) (visible key rs)"
      if "key r \<noteq> k" using that by (intro find_cong) auto
    with Cons show ?case by (simp add: lookup_row_def find_filter)
  qed (simp add: lookup_row_def)
qed

lemma lookup_row_key: "lookup_row key rs k = Some r \<Longrightarrow> key r = k"
  by (auto simp: lookup_row_def dest: find_Some_set)

lemma lookup_row_distinct:
  "distinct (map key rs) \<Longrightarrow> lookup_row key rs k = Some r \<longleftrightarrow> r \<in> set rs \<and> key r = k"
  by (induction rs) (auto simp: lookup_row_def)

lemma ran_lookup: "ran (lookup_row key rs) = set (visible key rs)"
  using lookup_row_distinct [OF visible_keys, of key rs]
  by (auto simp: ran_def lookup_visible)

lemma lookup_append:
  "lookup_row key rs (key r) = None \<Longrightarrow> lookup_row key (rs @ [r]) = (lookup_row key rs)(key r \<mapsto> r)"
  by (rule ext, induction rs) (auto simp: lookup_row_def)

lemma lookup_replace:
  assumes "lookup_row key rs (key r) \<noteq> None"
  shows "lookup_row key (map (\<lambda>x. if key x = key r then r else x) rs) = (lookup_row key rs)(key r \<mapsto> r)"
proof
  fix k
  let ?f = "\<lambda>x. if key x = key r then r else x"
  have other: "lookup_row key (map ?f rs) k = lookup_row key rs k" if "k \<noteq> key r"
    using that by (induction rs) (auto simp: lookup_row_def)
  have same: "\<exists>x \<in> set rs. key x = key r \<Longrightarrow> lookup_row key (map ?f rs) (key r) = Some r"
    by (induction rs) (auto simp: lookup_row_def)
  show "lookup_row key (map ?f rs) k = ((lookup_row key rs)(key r \<mapsto> r)) k"
    using assms other same by (auto simp: lookup_row_def find_None_iff)
qed

lemma lookup_map:
  assumes "\<And>r. key (f r) = key r"
  shows "lookup_row key (map (\<lambda>r. if P r then f r else r) rs) = upd_rows P f (lookup_row key rs)"
proof
  fix k
  show "lookup_row key (map (\<lambda>r. if P r then f r else r) rs) k = upd_rows P f (lookup_row key rs) k"
    by (induction rs) (auto simp: lookup_row_def upd_rows_def assms)
qed

lemma card_visible: "card {r \<in> set (visible key rs). P r} = length (filter P (visible key rs))"
  using distinct_card [of "filter P (visible key rs)"] visible_keys [of key rs]
  by (simp add: distinct_map)

lemma sum_visible:
  "(\<Sum>r \<in> {r \<in> set (visible key rs). P r}. h r) = sum_list (map h (filter P (visible key rs)))"
  using sum_list_distinct_conv_sum_set [of "filter P (visible key rs)" h] visible_keys [of key rs]
  by (simp add: distinct_map)

lemma sint_of_nat64: "n < 2 ^ 63 \<Longrightarrow> sint (of_nat n :: int64) = int n"
  using sint_of_int64 [of "int n"] by (simp add: in_int64_def)

locale mem_lens =
  fixes get :: "'db \<Rightarrow> 'r list" and put :: "'r list \<Rightarrow> 'db \<Rightarrow> 'db"
    and tick :: "'db \<Rightarrow> bool \<times> 'db" and rest :: "'db \<Rightarrow> 'rest"
  assumes get_put [simp]: "get (put rs s) = rs" and rest_put [simp]: "rest (put rs s) = rest s"
    and tick_frame: "tick s = (fault, s1) \<Longrightarrow> get s1 = get s \<and> rest s1 = rest s"
begin

lemma find_lookup: "find (\<lambda>x. key x = key r) rs = lookup_row key rs (key r)"
  by (simp add: lookup_row_def)

lemma mem_table_is_gorm_table:
  "gorm_table (mem_table get put tick key) (\<lambda>s. lookup_row key (get s)) key (\<lambda>s. h (rest s))"
proof
  fix s s' :: 'db and k r
  show "lookup_row key (get s) k = Some r \<Longrightarrow> key r = k" by (rule lookup_row_key)
next
  fix s :: 'db
  show "finite (dom (lookup_row key (get s)))"
    by (rule finite_subset [where B = "key ` set (get s)"])
       (auto simp: lookup_row_def dest: find_Some_set)
next
  fix P s r s'
  assume "gorm_First (mem_table get put tick key) P s = (Inr r, s')"
  then have "find P (visible key (get s)) = Some r"
    by (auto simp: mem_table_def Let_def tick_frame split: prod.splits option.splits if_splits)
  then show "P r \<and> lookup_row key (get s) (key r) = Some r"
    using lookup_row_distinct [OF visible_keys, of key "get s" "key r" r]
    by (auto simp: lookup_visible dest: find_Some_set)
next
  fix P s e s' r
  assume "gorm_First (mem_table get put tick key) P s = (Inl e, s')" "is_RecordNotFound e"
    "r \<in> ran (lookup_row key (get s))"
  then show "\<not> P r"
    by (auto simp: mem_table_def Let_def tick_frame db_error_def ran_lookup find_None_iff
        split: prod.splits option.splits if_splits)
next
  fix q s rs s'
  assume "gorm_Find (mem_table get put tick key) q s = (Inr rs, s')"
  then show "query_result q (lookup_row key (get s)) rs"
    using visible_keys [of key "get s"]
    by (auto simp: mem_table_def Let_def tick_frame query_result_def ran_lookup distinct_map
        split: prod.splits if_splits
        intro!: exI [of _ "sort_key (q_order q) (filter (q_where q) (visible key (get s)))"])
qed (auto simp: mem_table_def Let_def tick_frame lookup_replace find_lookup
        lookup_append lookup_map lookup_visible ran_lookup card_visible sum_visible sint_of_nat64 sint_of_int64
        split: prod.splits option.splits if_splits)

end

definition left_table :: "('a \<Rightarrow> string) \<Rightarrow> (('a, 'b) memdb, 'a) gorm_table_ops" where
  "left_table key = mem_table mem_left (\<lambda>rs s. s\<lparr>mem_left := rs\<rparr>) mem_tick key"

definition right_table :: "('b \<Rightarrow> string) \<Rightarrow> (('a, 'b) memdb, 'b) gorm_table_ops" where
  "right_table key = mem_table mem_right (\<lambda>rs s. s\<lparr>mem_right := rs\<rparr>) mem_tick key"

declare left_table_def [mem_store] right_table_def [mem_store] mem_table_def [mem_store]

interpretation left_lens: mem_lens mem_left "\<lambda>rs s. s\<lparr>mem_left := rs\<rparr>" mem_tick mem_right
  by unfold_locales auto

interpretation right_lens: mem_lens mem_right "\<lambda>rs s. s\<lparr>mem_right := rs\<rparr>" mem_tick mem_left
  by unfold_locales auto

lemma left_is_gorm_table:
  "gorm_table (left_table key) (\<lambda>s. lookup_row key (mem_left s)) key (\<lambda>s. h (mem_right s))"
  unfolding left_table_def by (rule left_lens.mem_table_is_gorm_table)

lemma right_is_gorm_table:
  "gorm_table (right_table key) (\<lambda>s. lookup_row key (mem_right s)) key (\<lambda>s. h (mem_left s))"
  unfolding right_table_def by (rule right_lens.mem_table_is_gorm_table)

interpretation mem_left_rows: gorm_table "left_table key" "\<lambda>s. lookup_row key (mem_left s)" key mem_right
  for key :: "'a \<Rightarrow> string"
  by (rule left_is_gorm_table [where h = "\<lambda>x. x"])

text \<open>Evaluating the store's calls when no fault is scheduled.\<close>

lemma mem_tick_no_fault [simp]:
  "mem_tick \<lparr>mem_left = l, mem_right = r, mem_faults = []\<rparr>
   = (False, \<lparr>mem_left = l, mem_right = r, mem_faults = []\<rparr>)"
  "mem_tick \<lparr>mem_left = l, mem_right = r, mem_faults = f # fs\<rparr>
   = (f, \<lparr>mem_left = l, mem_right = r, mem_faults = fs\<rparr>)"
  by (simp_all add: mem_tick_def)

text \<open>The transactions of the store respect any view of its tables.\<close>

lemma mem_transaction_view: "gorm_transaction mem_transaction (\<lambda>s. v (mem_left s) (mem_right s))"
proof
  fix fc :: "('a, 'b) memdb \<Rightarrow> (go_error + 'c) \<times> ('a, 'b) memdb" and s s' a e
  let ?v = "\<lambda>s. v (mem_left s) (mem_right s)"
  show "\<exists>s1 s2. ?v s1 = ?v s \<and> fc s1 = (Inr a, s2) \<and> ?v s' = ?v s2"
    if "mem_transaction fc s = (Inr a, s')"
    using mem_tx.tx_ok [OF that] by (metis prod.inject)
  show "?v s' = ?v s" if "mem_transaction fc s = (Inl e, s')"
    using mem_tx.tx_err [OF that] by simp
qed

end
