(* ===== verification/Kafka.thy ===== *)
theory Kafka
  imports Errors
begin

text \<open>
  Kafka as the services see it. The client library is not part of the repository: writing a
  message, committing one and fetching one are parameters over abstract broker states. The
  locale \<open>kafka_writer\<close> states the contract of a writer: a successful write appends the message
  to the log of what the broker accepted, and a failed one may or may not have (a time-out can
  hide a delivery), which is what makes publishing at-least-once. The locale \<open>kafka_committer\<close>
  does the same for the offsets a consumer group has committed.
\<close>

record kafka_message =
  msg_Topic :: string
  msg_Partition :: int
  msg_Offset :: int64
  msg_Key :: string
  msg_Value :: string
  msg_Headers :: "(string \<times> string) list"

type_synonym 'k kafka_write = "kafka_message \<Rightarrow> 'k \<Rightarrow> go_error option \<times> 'k"
type_synonym 'c kafka_commit = "kafka_message \<Rightarrow> 'c \<Rightarrow> go_error option \<times> 'c"

locale kafka_writer =
  fixes wr :: "'k kafka_write" and log :: "'k \<Rightarrow> kafka_message list"
  assumes write_ok: "wr m k = (None, k') \<Longrightarrow> log k' = log k @ [m]"
    and write_err: "wr m k = (Some e, k') \<Longrightarrow> log k' = log k \<or> log k' = log k @ [m]"
begin

lemma write_cases: "wr m k = (r, k') \<Longrightarrow> log k' = log k \<and> r \<noteq> None \<or> log k' = log k @ [m]"
  using write_ok write_err by (cases r) auto

lemma write_extends: "wr m k = (r, k') \<Longrightarrow> \<exists>ms. log k' = log k @ ms \<and> set ms \<subseteq> {m}"
  using write_cases [of m k r k'] by auto

end

locale kafka_committer =
  fixes cm :: "'c kafka_commit" and committed :: "'c \<Rightarrow> kafka_message set"
  assumes commit_ok: "cm m c = (None, c') \<Longrightarrow> committed c' = insert m (committed c)"
    and commit_err: "cm m c = (Some e, c') \<Longrightarrow> committed c' = committed c"
begin

lemma commit_subset: "cm m c = (r, c') \<Longrightarrow> committed c \<subseteq> committed c' \<and> committed c' \<subseteq> insert m (committed c)"
  using commit_ok commit_err by (cases r) auto

end

section \<open>A reference broker\<close>

text \<open>A log and a schedule of outcomes: delivered, lost, or delivered with the answer lost.\<close>

datatype write_fate = Delivered | Lost | Unacknowledged

record mem_kafka =
  mk_log :: "kafka_message list"
  mk_fates :: "write_fate list"

definition mem_write :: "mem_kafka kafka_write" where
  "mem_write m k =
     (case mk_fates k of
        [] \<Rightarrow> (None, k\<lparr>mk_log := mk_log k @ [m]\<rparr>)
      | Delivered # fs \<Rightarrow> (None, k\<lparr>mk_log := mk_log k @ [m], mk_fates := fs\<rparr>)
      | Lost # fs \<Rightarrow> (Some (ErrorString ''kafka: connection refused''), k\<lparr>mk_fates := fs\<rparr>)
      | Unacknowledged # fs \<Rightarrow>
          (Some (ErrorString ''kafka: i/o timeout''), k\<lparr>mk_log := mk_log k @ [m], mk_fates := fs\<rparr>))"

interpretation mem_writer: kafka_writer mem_write mk_log
  by unfold_locales (auto simp: mem_write_def split: list.splits write_fate.splits)

type_synonym mem_group = "kafka_message list \<times> bool list"

definition mem_commit :: "mem_group kafka_commit" where
  "mem_commit m c =
     (case c of
        (done, True # fs) \<Rightarrow> (Some (ErrorString ''kafka: rebalance in progress''), (done, fs))
      | (done, _ # fs) \<Rightarrow> (None, (m # done, fs))
      | (done, []) \<Rightarrow> (None, (m # done, [])))"

definition mem_committed :: "mem_group \<Rightarrow> kafka_message set" where
  "mem_committed c = set (fst c)"

interpretation mem_committer: kafka_committer mem_commit mem_committed
  by unfold_locales
     (auto simp: mem_commit_def mem_committed_def split: prod.splits list.splits bool.splits)

end
