(* ===== verification/Outbox.thy ===== *)
theory Outbox
  imports OrderModel Gorm Kafka "HOL-Library.Sublist"
begin

text \<open>
  The package \<open>order_service/internal/outbox\<close>: the outbox row, the repository over the outbox
  table, and the relay that publishes pending rows to Kafka and marks them sent.
\<close>

section \<open>Rows\<close>

type_synonym EventStatus = string

abbreviation EventStatusPending :: EventStatus where "EventStatusPending \<equiv> ''PENDING''"
abbreviation EventStatusSent :: EventStatus where "EventStatusSent \<equiv> ''SENT''"

record OutboxEvent =
  oe_ID :: string
  oe_OrderID :: string
  oe_EventType :: string
  oe_Topic :: string
  oe_Payload :: string
  oe_Status :: EventStatus
  oe_CreatedAt :: gotime
  oe_ProcessedAt :: "gotime option"

type_synonym 'db outbox_table = "('db, OutboxEvent) gorm_table_ops"

section \<open>Repository\<close>

definition SaveTx :: "'db outbox_table \<Rightarrow> OutboxEvent \<Rightarrow> 'db \<Rightarrow> go_error option \<times> 'db" where
  "SaveTx tx event = gorm_Create tx event"

definition pending_query :: "int64 \<Rightarrow> OutboxEvent gorm_query" where
  "pending_query limit =
     \<lparr>q_where = (\<lambda>e. oe_Status e = EventStatusPending), q_order = oe_CreatedAt,
      q_limit = limit, q_offset = 0\<rparr>"

definition FetchPending :: "'db outbox_table \<Rightarrow> int64 \<Rightarrow> 'db \<Rightarrow> (go_error + OutboxEvent list) \<times> 'db" where
  "FetchPending db limit = gorm_Find db (pending_query limit)"

text \<open>\<open>now\<close> is the database's \<open>NOW()\<close>.\<close>

definition mark_sent :: "gotime \<Rightarrow> OutboxEvent \<Rightarrow> OutboxEvent" where
  "mark_sent now e = e\<lparr>oe_Status := EventStatusSent, oe_ProcessedAt := Some now\<rparr>"

definition MarkSent :: "'db outbox_table \<Rightarrow> gotime \<Rightarrow> string \<Rightarrow> 'db \<Rightarrow> go_error option \<times> 'db" where
  "MarkSent db now i s =
     (case gorm_Updates db (\<lambda>e. oe_ID e = i) (mark_sent now) s of
        (Inl e, s') \<Rightarrow> (Some e, s')
      | (Inr _, s') \<Rightarrow> (None, s'))"

section \<open>Relay\<close>

record ('db, 'k) Relay =
  rl_repo :: "'db outbox_table"
  rl_writer :: "'k kafka_write"
  rl_interval :: int
  rl_batchSize :: int64

definition NewRelay :: "'db outbox_table \<Rightarrow> 'k kafka_write \<Rightarrow> int \<Rightarrow> int64 \<Rightarrow> ('db, 'k) Relay" where
  "NewRelay repo writer interval batchSize =
     (let batchSize' = (if sint batchSize \<le> 0 then 50 else batchSize)
      in \<lparr>rl_repo = repo, rl_writer = writer, rl_interval = interval, rl_batchSize = batchSize'\<rparr>)"

definition event_message :: "OutboxEvent \<Rightarrow> kafka_message" where
  "event_message ev =
     \<lparr>msg_Topic = oe_Topic ev, msg_Partition = 0, msg_Offset = 0,
      msg_Key = oe_OrderID ev, msg_Value = oe_Payload ev,
      msg_Headers = [(''event-type'', oe_EventType ev), (''order-id'', oe_OrderID ev)]\<rparr>"

fun publish_events :: "('db, 'k) Relay \<Rightarrow> gotime \<Rightarrow> OutboxEvent list \<Rightarrow> 'db \<Rightarrow> 'k \<Rightarrow> 'db \<times> 'k" where
  "publish_events r now [] s k = (s, k)"
| "publish_events r now (ev # events) s k =
     (case rl_writer r (event_message ev) k of
        (Some _, k') \<Rightarrow> publish_events r now events s k'
      | (None, k') \<Rightarrow>
          (case MarkSent (rl_repo r) now (oe_ID ev) s of
             (_, s') \<Rightarrow> publish_events r now events s' k'))"

definition processOnce :: "('db, 'k) Relay \<Rightarrow> gotime \<Rightarrow> 'db \<Rightarrow> 'k \<Rightarrow> go_error option \<times> 'db \<times> 'k" where
  "processOnce r now s k =
     (case FetchPending (rl_repo r) (rl_batchSize r) s of
        (Inl err, s') \<Rightarrow> (Some (WrapErr ''fetch pending: '' err), s', k)
      | (Inr events, s') \<Rightarrow>
          if events = [] then (None, s', k)
          else (None, publish_events r now events s' k))"

text \<open>
  \<open>Start\<close>: what the \<open>select\<close> of the loop receives is the input, a tick of the timer (with the
  time of the cycle) or the end of the context, after which the writer is closed and the relay
  returns. The result says whether it has returned.
\<close>

datatype relay_signal = Tick gotime | Ctx_Done

fun relay_Start :: "('db, 'k) Relay \<Rightarrow> ('k \<Rightarrow> go_error option \<times> 'k) \<Rightarrow> relay_signal list \<Rightarrow> 'db \<Rightarrow> 'k \<Rightarrow> bool \<times> 'db \<times> 'k" where
  "relay_Start r close [] s k = (False, s, k)"
| "relay_Start r close (Ctx_Done # _) s k = (case close k of (_, k') \<Rightarrow> (True, s, k'))"
| "relay_Start r close (Tick now # sigs) s k =
     (case processOnce r now s k of (_, s', k') \<Rightarrow> relay_Start r close sigs s' k')"

section \<open>What a relay cycle does\<close>

text \<open>Every event marked sent is in the broker's log.\<close>

definition sent_published :: "OutboxEvent view \<Rightarrow> kafka_message list \<Rightarrow> bool" where
  "sent_published m log \<longleftrightarrow>
     (\<forall>ev \<in> ran m. oe_Status ev = EventStatusSent \<longrightarrow> event_message ev \<in> set log)"

text \<open>
  How a cycle that published \<open>ms\<close> at time \<open>now\<close> may change a row: not at all, or a pending event
  of \<open>ms\<close> becomes sent.
\<close>

definition relay_row :: "gotime \<Rightarrow> kafka_message list \<Rightarrow> OutboxEvent option \<Rightarrow> OutboxEvent option \<Rightarrow> bool" where
  "relay_row now ms old new \<longleftrightarrow>
     new = old
     \<or> (\<exists>e. old = Some e \<and> oe_Status e = EventStatusPending \<and> event_message e \<in> set ms
            \<and> new = Some (mark_sent now e))"

definition pending :: "OutboxEvent view \<Rightarrow> OutboxEvent set" where
  "pending m = {e \<in> ran m. oe_Status e = EventStatusPending}"

lemma mark_sent_simps [simp]:
  "oe_ID (mark_sent now e) = oe_ID e" "event_message (mark_sent now e) = event_message e"
  "oe_Status (mark_sent now e) = EventStatusSent" "mark_sent now (mark_sent now e) = mark_sent now e"
  "oe_OrderID (mark_sent now e) = oe_OrderID e" "oe_EventType (mark_sent now e) = oe_EventType e"
  by (simp_all add: mark_sent_def event_message_def)

lemma relay_row_None: "relay_row now ms old new \<Longrightarrow> (new = None) = (old = None)"
  by (auto simp: relay_row_def)

lemma sent_publishedI:
  assumes "sent_published m log" and "\<And>i. relay_row now ms (m i) (m' i)"
  shows "sent_published m' (log @ ms)"
proof -
  have "event_message e \<in> set (log @ ms)"
    if e: "m' i = Some e" and st: "oe_Status e = EventStatusSent" for i e
  proof -
    consider "m i = Some e" | e0 where "e = mark_sent now e0" "event_message e0 \<in> set ms"
      using assms(2) [of i] e by (auto simp: relay_row_def)
    then show ?thesis
      using assms(1) st by cases (auto simp: sent_published_def intro: ranI)
  qed
  then show ?thesis by (auto simp: sent_published_def ran_def)
qed

locale outbox_relay =
  gorm_table T rows oe_ID rest + kafka_writer wr log
  for T :: "'db outbox_table" and rows :: "'db \<Rightarrow> OutboxEvent view" and rest :: "'db \<Rightarrow> 'rest"
    and wr :: "'k kafka_write" and log :: "'k \<Rightarrow> kafka_message list" +
  fixes r :: "('db, 'k) Relay"
  assumes repo: "rl_repo r = T" and writer: "rl_writer r = wr"
    and batch: "0 < sint (rl_batchSize r)"
begin

lemma MarkSent_frame: "MarkSent T now i s = (x, s') \<Longrightarrow> rest s' = rest s"
  using Updates_key_ok(2) [of i "mark_sent now" s _ s'] Updates_err [of "\<lambda>e. oe_ID e = i" "mark_sent now" s _ s']
  by (auto simp: MarkSent_def split: prod.splits sum.splits)

lemma MarkSent_rows:
  "MarkSent T now i s = (x, s') \<Longrightarrow>
   rows s' = (if x = None then (rows s)(i := map_option (mark_sent now) (rows s i)) else rows s)"
  using Updates_key_ok(1) [of i "mark_sent now" s _ s'] Updates_err [of "\<lambda>e. oe_ID e = i" "mark_sent now" s _ s']
  by (auto simp: MarkSent_def split: prod.splits sum.splits)

text \<open>
  Publishing a list of events that are the pending rows of the table: what is published is a
  subsequence of the list, and the rows change as \<open>relay_row\<close> says.
\<close>

lemma publish_events_step:
  assumes "publish_events r now evs s k = (s', k')"
    and "\<And>ev. ev \<in> set evs \<Longrightarrow> rows s (oe_ID ev) = Some ev \<and> oe_Status ev = EventStatusPending"
    and "distinct evs"
  shows "\<exists>ms. log k' = log k @ ms \<and> subseq ms (map event_message evs)
             \<and> (\<forall>i. relay_row now ms (rows s i) (rows s' i)) \<and> rest s' = rest s"
  using assms
proof (induction evs arbitrary: s k)
  case Nil
  then show ?case by (auto simp: relay_row_def)
next
  case (Cons ev evs)
  obtain e1 k1 where w: "wr (event_message ev) k = (e1, k1)" by fastforce
  show ?case
  proof (cases e1)
    case (Some err)
    have p: "publish_events r now evs s k1 = (s', k')"
      using Cons.prems(1) w Some by (simp add: writer)
    obtain ms where ms: "log k' = log k1 @ ms" "subseq ms (map event_message evs)"
        "\<forall>i. relay_row now ms (rows s i) (rows s' i)" "rest s' = rest s"
      using Cons.IH [OF p] Cons.prems(2,3) by auto
    from write_err [OF w [unfolded Some]] show ?thesis
    proof
      assume "log k1 = log k"
      with ms show ?thesis by (intro exI [of _ ms]) auto
    next
      assume "log k1 = log k @ [event_message ev]"
      with ms show ?thesis
        by (intro exI [of _ "event_message ev # ms"]) (auto simp: relay_row_def)
    qed
  next
    case None
    obtain x s1 where m: "MarkSent T now (oe_ID ev) s = (x, s1)" by fastforce
    have p: "publish_events r now evs s1 k1 = (s', k')"
      using Cons.prems(1) w None m by (simp add: writer repo)
    have row: "rows s (oe_ID ev) = Some ev" "oe_Status ev = EventStatusPending"
      using Cons.prems(2) by auto
    have ids: "oe_ID e \<noteq> oe_ID ev" if "e \<in> set evs" for e
      using Cons.prems(2) [of e] Cons.prems(3) that row by auto
    have rows1: "rows s1 i = (if x = None \<and> i = oe_ID ev then Some (mark_sent now ev) else rows s i)" for i
      using MarkSent_rows [OF m] row by auto
    have "\<And>e. e \<in> set evs \<Longrightarrow> rows s1 (oe_ID e) = Some e \<and> oe_Status e = EventStatusPending"
      using Cons.prems(2) ids rows1 by auto
    then obtain ms where ms: "log k' = log k1 @ ms" "subseq ms (map event_message evs)"
        "\<forall>i. relay_row now ms (rows s1 i) (rows s' i)" "rest s' = rest s1"
      using Cons.IH [OF p] Cons.prems(3) by auto
    have "relay_row now (event_message ev # ms) (rows s i) (rows s' i)" for i
      using ms(3) [rule_format, of i] row rows1 [of i]
      by (auto simp: relay_row_def split: if_splits)
    then show ?thesis
      using ms write_ok [OF w [unfolded None]] MarkSent_frame [OF m]
      by (intro exI [of _ "event_message ev # ms"]) auto
  qed
qed

lemma FetchPending_spec:
  assumes "FetchPending T (rl_batchSize r) s = (Inr evs, s')"
  shows "rows s' = rows s" "rest s' = rest s" "distinct evs" "sorted (map oe_CreatedAt evs)"
    and "int (length evs) \<le> sint (rl_batchSize r)"
    and "\<And>ev. ev \<in> set evs \<Longrightarrow> rows s (oe_ID ev) = Some ev \<and> oe_Status ev = EventStatusPending"
proof -
  note F = assms [unfolded FetchPending_def]
  have b: "0 < sint (q_limit (pending_query (rl_batchSize r)))"
    using batch by (simp add: pending_query_def)
  show "rows s' = rows s" "rest s' = rest s" using Find_frame [OF F] by auto
  show "distinct evs" "sorted (map oe_CreatedAt evs)"
    using Find_sorted [OF F b] by (auto simp: pending_query_def)
  show "int (length evs) \<le> sint (rl_batchSize r)"
    using Find_length [OF F b] by (simp add: pending_query_def)
  show "rows s (oe_ID ev) = Some ev \<and> oe_Status ev = EventStatusPending" if "ev \<in> set evs" for ev
    using Find_subset [OF F b that] by (simp add: pending_query_def)
qed

lemma processOnce_step:
  assumes "processOnce r now s k = (x, s', k')"
  shows "\<exists>ms. log k' = log k @ ms \<and> int (length ms) \<le> sint (rl_batchSize r)
             \<and> (\<exists>evs. sorted (map oe_CreatedAt evs) \<and> distinct evs
                  \<and> (\<forall>ev \<in> set evs. rows s (oe_ID ev) = Some ev \<and> oe_Status ev = EventStatusPending)
                  \<and> subseq ms (map event_message evs))
             \<and> (\<forall>i. relay_row now ms (rows s i) (rows s' i)) \<and> rest s' = rest s"
proof (cases "FetchPending T (rl_batchSize r) s")
  case (Pair y s1)
  show ?thesis
  proof (cases y)
    case (Inl e)
    then have "rows s1 = rows s" "rest s1 = rest s"
      using Find_frame Pair by (auto simp: FetchPending_def)
    with assms Pair Inl batch show ?thesis
      by (auto simp: processOnce_def repo relay_row_def intro!: exI [of _ "[]"])
  next
    case (Inr evs)
    note F = FetchPending_spec [OF Pair [unfolded Inr]]
    have p: "publish_events r now evs s1 k = (s', k')"
      using assms Pair Inr by (auto simp: processOnce_def repo split: if_splits)
    obtain ms where ms: "log k' = log k @ ms" "subseq ms (map event_message evs)"
        "\<forall>i. relay_row now ms (rows s1 i) (rows s' i)" "rest s' = rest s1"
      using publish_events_step [OF p] F(1,3,6) by auto
    have "length ms \<le> length evs" using list_emb_length [OF ms(2)] by simp
    with ms F show ?thesis by (intro exI [of _ ms]) auto
  qed
qed

lemma cycle_safe:
  assumes "sent_published (rows s) (log k)" and "processOnce r now s k = (x, s', k')"
  shows "sent_published (rows s') (log k') \<and> rest s' = rest s
    \<and> (\<exists>ms evs. log k' = log k @ ms \<and> int (length ms) \<le> sint (rl_batchSize r)
        \<and> subseq ms (map event_message evs) \<and> sorted (map oe_CreatedAt evs)
        \<and> set evs \<subseteq> pending (rows s) \<and> (\<forall>i. relay_row now ms (rows s i) (rows s' i)))"
proof -
  obtain ms evs where ms: "log k' = log k @ ms" "int (length ms) \<le> sint (rl_batchSize r)"
      "sorted (map oe_CreatedAt evs)" "subseq ms (map event_message evs)"
      "\<forall>ev \<in> set evs. rows s (oe_ID ev) = Some ev \<and> oe_Status ev = EventStatusPending"
      "\<forall>i. relay_row now ms (rows s i) (rows s' i)" "rest s' = rest s"
    using processOnce_step [OF assms(2)] by blast
  have "set evs \<subseteq> pending (rows s)" using ms(5) by (auto simp: pending_def intro: ranI)
  with ms sent_publishedI [OF assms(1), of now ms "rows s'"] show ?thesis by auto
qed

lemma cycles_safe:
  assumes "sent_published (rows s) (log k)" and "relay_Start r close sigs s k = (d, s', k')"
    and close: "\<And>k y k'. close k = (y, k') \<Longrightarrow> log k' = log k"
  shows "sent_published (rows s') (log k') \<and> rest s' = rest s
    \<and> dom (rows s') = dom (rows s) \<and> prefix (log k) (log k')"
  using assms(1,2)
proof (induction sigs arbitrary: s k)
  case (Cons sig sigs)
  show ?case
  proof (cases sig)
    case Ctx_Done
    then have "s' = s" "\<exists>y. close k = (y, k')" using Cons.prems(2) by (auto split: prod.splits)
    with close Cons.prems(1) show ?thesis by auto
  next
    case (Tick now)
    obtain x s1 k1 where p: "processOnce r now s k = (x, s1, k1)" by (metis prod_cases3)
    note S = cycle_safe [OF Cons.prems(1) p]
    have "\<And>i. (rows s1 i = None) = (rows s i = None)" using S by (blast dest: relay_row_None)
    then have d: "dom (rows s1) = dom (rows s)" by (auto simp: dom_def)
    have "relay_Start r close sigs s1 k1 = (d, s', k')" using Cons.prems(2) Tick p by simp
    from Cons.IH [OF _ this] S d show ?thesis by (auto simp: prefix_def)
  qed
qed auto

end

section \<open>A healthy relay drains the outbox\<close>

text \<open>
  While the database and the broker are up (predicates on their states that their calls keep),
  no call of the relay fails.
\<close>

locale healthy_relay = outbox_relay +
  fixes db_up :: "'a \<Rightarrow> bool" and kafka_up :: "'c \<Rightarrow> bool"
  assumes Find_up: "db_up s \<Longrightarrow> gorm_Find T q s = (x, s') \<Longrightarrow> (\<exists>rs. x = Inr rs) \<and> db_up s'"
    and Updates_up: "db_up s \<Longrightarrow> gorm_Updates T P f s = (y, s') \<Longrightarrow> (\<exists>n. y = Inr n) \<and> db_up s'"
    and write_up: "kafka_up k \<Longrightarrow> wr m k = (z, k') \<Longrightarrow> z = None \<and> kafka_up k'"
begin

lemma MarkSent_up: "db_up s \<Longrightarrow> MarkSent T now i s = (x, s') \<Longrightarrow> x = None \<and> db_up s'"
  using Updates_up [of s "\<lambda>e. oe_ID e = i" "mark_sent now"]
  by (auto simp: MarkSent_def split: prod.splits sum.splits)

lemma publish_events_up:
  assumes "publish_events r now evs s k = (s', k')" and "db_up s" and "kafka_up k"
    and "\<And>ev. ev \<in> set evs \<Longrightarrow> rows s (oe_ID ev) = Some ev" and "distinct evs"
  shows "log k' = log k @ map event_message evs \<and> db_up s' \<and> kafka_up k'
         \<and> rows s' = (\<lambda>i. if i \<in> oe_ID ` set evs then map_option (mark_sent now) (rows s i) else rows s i)"
  using assms
proof (induction evs arbitrary: s k)
  case (Cons ev evs)
  obtain e1 k1 where w: "wr (event_message ev) k = (e1, k1)" by fastforce
  obtain x s1 where m: "MarkSent T now (oe_ID ev) s = (x, s1)" by fastforce
  note W = write_up [OF Cons.prems(3) w] and M = MarkSent_up [OF Cons.prems(2) m]
  have p: "publish_events r now evs s1 k1 = (s', k')"
    using Cons.prems(1) w m W by (simp add: writer repo)
  have rows1: "rows s1 = (rows s)(oe_ID ev := map_option (mark_sent now) (rows s (oe_ID ev)))"
    using MarkSent_rows [OF m] M by simp
  have ids: "oe_ID e \<noteq> oe_ID ev" if "e \<in> set evs" for e
  proof
    assume eq: "oe_ID e = oe_ID ev"
    have "rows s (oe_ID e) = Some e" "rows s (oe_ID ev) = Some ev"
      using Cons.prems(4) that by auto
    then have "e = ev" unfolding eq by (metis option.inject)
    then show False using Cons.prems(5) that by simp
  qed
  have "rows s1 (oe_ID e) = Some e" if "e \<in> set evs" for e
    using Cons.prems(4) [of e] ids [OF that] that by (simp add: rows1)
  then have IH: "log k' = log k1 @ map event_message evs" "db_up s'" "kafka_up k'"
      "rows s' = (\<lambda>i. if i \<in> oe_ID ` set evs then map_option (mark_sent now) (rows s1 i) else rows s1 i)"
    using Cons.IH [OF p] M W Cons.prems(5) by auto
  have "oe_ID ev \<notin> oe_ID ` set evs" using ids by force
  then have "rows s' i = (if i \<in> oe_ID ` set (ev # evs) then map_option (mark_sent now) (rows s i) else rows s i)" for i
    unfolding IH(4) rows1 by (cases "i = oe_ID ev") auto
  then show ?case
    using IH write_ok [of "event_message ev" k k1] w W by (auto simp: fun_eq_iff)
qed simp

lemma pending_finite: "finite (pending (rows s))"
  using finite_ran by (simp add: pending_def)

lemma FetchPending_up:
  assumes "FetchPending T (rl_batchSize r) s = (x, s')" and "db_up s"
  shows "\<exists>evs. x = Inr evs \<and> db_up s' \<and> set evs \<subseteq> pending (rows s) \<and> distinct evs
             \<and> length evs = min (nat (sint (rl_batchSize r))) (card (pending (rows s)))"
proof -
  obtain evs where x: "x = Inr evs" and up: "db_up s'"
    using Find_up [OF assms(2) assms(1) [unfolded FetchPending_def]] by auto
  have "query_result (pending_query (rl_batchSize r)) (rows s) evs"
    using Find_ok assms(1) x batch by (simp add: FetchPending_def pending_query_def)
  then obtain ys where ys: "distinct ys" "set ys = pending (rows s)"
      "evs = take (nat (sint (rl_batchSize r))) ys"
    by (auto simp: query_result_def pending_query_def pending_def)
  then show ?thesis
    using x up distinct_card [OF ys(1)] by (auto simp: min.commute dest: in_set_takeD)
qed

text \<open>One cycle publishes and marks a full batch, or everything that is pending.\<close>

lemma processOnce_up:
  assumes "processOnce r now s k = (x, s', k')" and "db_up s" and "kafka_up k"
  shows "db_up s' \<and> kafka_up k' \<and> pending (rows s') \<subseteq> pending (rows s)
         \<and> card (pending (rows s')) = card (pending (rows s)) - nat (sint (rl_batchSize r))
         \<and> (\<forall>e \<in> pending (rows s) - pending (rows s'). event_message e \<in> set (log k'))
         \<and> set (log k) \<subseteq> set (log k')"
proof -
  obtain y s1 where f: "FetchPending T (rl_batchSize r) s = (y, s1)" by fastforce
  obtain evs where evs: "y = Inr evs" "db_up s1" "set evs \<subseteq> pending (rows s)" "distinct evs"
      "length evs = min (nat (sint (rl_batchSize r))) (card (pending (rows s)))"
    using FetchPending_up [OF f assms(2)] by auto
  note F = FetchPending_spec [OF f [unfolded evs(1)]]
  have p: "publish_events r now evs s1 k = (s', k')"
    using assms(1) f evs(1) by (auto simp: processOnce_def repo split: if_splits)
  have P: "log k' = log k @ map event_message evs" "db_up s'" "kafka_up k'"
      "rows s' = (\<lambda>i. if i \<in> oe_ID ` set evs then map_option (mark_sent now) (rows s i) else rows s i)"
    using publish_events_up [OF p evs(2) assms(3) _ evs(4)] F(1,6) by auto
  have pend: "pending (rows s') = pending (rows s) - set evs"
  proof (intro set_eqI iffI)
    fix e assume "e \<in> pending (rows s')"
    then obtain i where i: "rows s' i = Some e" "oe_Status e = EventStatusPending"
      by (auto simp: pending_def ran_def)
    then have n: "i \<notin> oe_ID ` set evs" and e: "rows s i = Some e"
      by (auto simp: P(4) split: if_splits)
    have "e \<notin> set evs" using n rows_key [OF e] by auto
    then show "e \<in> pending (rows s) - set evs" using e i(2) by (auto simp: pending_def intro: ranI)
  next
    fix e assume e: "e \<in> pending (rows s) - set evs"
    then have r1: "rows s (oe_ID e) = Some e" by (simp add: pending_def in_ran_iff)
    have "oe_ID e \<notin> oe_ID ` set evs"
    proof
      assume "oe_ID e \<in> oe_ID ` set evs"
      then obtain e' where e': "e' \<in> set evs" "oe_ID e = oe_ID e'" by auto
      with F(6) have "rows s (oe_ID e) = Some e'" by simp
      with r1 e' e show False by auto
    qed
    then have "rows s' (oe_ID e) = Some e" using r1 by (simp add: P(4))
    then show "e \<in> pending (rows s')" using e by (auto simp: pending_def intro: ranI)
  qed
  have c: "card (pending (rows s')) = card (pending (rows s)) - length evs"
    using card_Diff_subset [OF finite_set evs(3)] distinct_card [OF evs(4)] by (simp add: pend)
  have "\<forall>e \<in> pending (rows s) - pending (rows s'). event_message e \<in> set (log k')"
    unfolding pend P(1) by auto
  moreover have "pending (rows s') \<subseteq> pending (rows s)" unfolding pend by auto
  moreover have "card (pending (rows s')) = card (pending (rows s)) - nat (sint (rl_batchSize r))"
    using c evs(5) by (auto simp: min_def)
  ultimately show ?thesis
    using P(1-3) by simp
qed

end

fun relay_cycles :: "('db, 'k) Relay \<Rightarrow> gotime list \<Rightarrow> 'db \<Rightarrow> 'k \<Rightarrow> 'db \<times> 'k" where
  "relay_cycles r [] s k = (s, k)"
| "relay_cycles r (now # nows) s k =
     (case processOnce r now s k of (_, s', k') \<Rightarrow> relay_cycles r nows s' k')"

lemma relay_Start_ticks:
  "relay_Start r close (map Tick nows) s k = (False, relay_cycles r nows s k)"
  by (induction r nows s k rule: relay_cycles.induct) (auto split: prod.splits)

context healthy_relay
begin

lemma relay_cycles_up:
  assumes "relay_cycles r nows s k = (s', k')" and "db_up s" and "kafka_up k"
  shows "card (pending (rows s')) = card (pending (rows s)) - length nows * nat (sint (rl_batchSize r))
         \<and> pending (rows s') \<subseteq> pending (rows s) \<and> set (log k) \<subseteq> set (log k')
         \<and> (\<forall>e \<in> pending (rows s) - pending (rows s'). event_message e \<in> set (log k'))"
  using assms
proof (induction nows arbitrary: s k)
  case (Cons now nows)
  obtain x s1 k1 where p: "processOnce r now s k = (x, s1, k1)" by (metis prod_cases3)
  note P = processOnce_up [OF p Cons.prems(2,3)]
  have "relay_cycles r nows s1 k1 = (s', k')" using Cons.prems(1) p by simp
  with Cons.IH [of s1 k1] P
  have IH: "card (pending (rows s')) = card (pending (rows s1)) - length nows * nat (sint (rl_batchSize r))"
      "pending (rows s') \<subseteq> pending (rows s1)" "set (log k1) \<subseteq> set (log k')"
      "\<forall>e \<in> pending (rows s1) - pending (rows s'). event_message e \<in> set (log k')" by auto
  then show ?case using P by auto
qed simp

end

section \<open>The relay over any database and broker that meet their contracts\<close>

lemma NewRelay_fields [simp]:
  "rl_repo (NewRelay repo writer i b) = repo" "rl_writer (NewRelay repo writer i b) = writer"
  by (simp_all add: NewRelay_def Let_def)

lemma NewRelay_batch: "0 < sint (rl_batchSize (NewRelay repo writer i b))"
  by (simp add: NewRelay_def Let_def)

lemma NewRelay_outbox_relay:
  "gorm_table T rows oe_ID rest \<Longrightarrow> kafka_writer wr log \<Longrightarrow>
   outbox_relay T rows rest wr log (NewRelay T wr i b)"
  by (simp add: outbox_relay_def outbox_relay_axioms_def NewRelay_batch)

lemma visible_length: "length (visible key rs) \<le> length rs"
  by (induction rs) (auto intro: le_trans [OF length_filter_le])

interpretation mem_relay: outbox_relay "right_table oe_ID"
    "\<lambda>s. lookup_row oe_ID (mem_right s)" mem_left mem_write mk_log
    "NewRelay (right_table oe_ID) mem_write i b" for i b
  by (rule NewRelay_outbox_relay [OF right_is_gorm_table [where h = "\<lambda>x. x"] mem_writer.kafka_writer_axioms])

definition mem_up :: "('a, 'b) memdb \<Rightarrow> bool" where
  "mem_up s \<longleftrightarrow> mem_faults s = [] \<and> length (mem_right s) < 2 ^ 63"

lemma mem_up_less: "mem_up s \<Longrightarrow> length (filter P (visible key (mem_right s))) < 2 ^ 63"
  using visible_length [of key "mem_right s"] length_filter_le [of P "visible key (mem_right s)"]
  unfolding mem_up_def by linarith

interpretation mem_healthy_relay: healthy_relay "right_table oe_ID"
    "\<lambda>s. lookup_row oe_ID (mem_right s)" mem_left mem_write mk_log
    "NewRelay (right_table oe_ID) mem_write i b" mem_up "\<lambda>k. mk_fates k = []" for i b
proof (unfold_locales, goal_cases)
  case (1 s q x s')
  then show ?case
    by (auto simp: mem_store mem_up_def mem_tick_def Let_def)
next
  case (2 s P f y s')
  moreover have "length (visible oe_ID (mem_right s)) < 2 ^ 63"
    using mem_up_less [OF 2(1), of "\<lambda>_. True"] by simp
  ultimately show ?case
    using mem_up_less [of s P oe_ID]
    by (auto simp: mem_store mem_up_def mem_tick_def Let_def split: if_splits)
next
  case (3 k m z k')
  then show ?case by (auto simp: mem_write_def)
qed

text \<open>How a cycle computes on the reference stores.\<close>

lemmas run_relay =
  processOnce_def FetchPending_def pending_query_def MarkSent_def NewRelay_def mem_write_def

definition paid_row :: "string \<Rightarrow> gotime \<Rightarrow> OutboxEvent" where
  "paid_row i t = \<lparr>oe_ID = i, oe_OrderID = ''a'', oe_EventType = EventOrderPaid, oe_Topic = ''t'',
     oe_Payload = i, oe_Status = EventStatusPending, oe_CreatedAt = t, oe_ProcessedAt = None\<rparr>"

lemma paid_row_simps [simp]:
  "oe_ID (paid_row i t) = i" "oe_Status (paid_row i t) = EventStatusPending"
  "oe_CreatedAt (paid_row i t) = t"
  by (simp_all add: paid_row_def)

text \<open>
  C12: A relay cycle loses no event and invents none, whatever fails: every event marked sent is
  in the broker's log if that was so before; each message it publishes is that of an event
  pending at the start, at most a batch of them and in the order of their creation; and a row
  changes only from pending to sent, after its own message was published, so an event whose
  write failed stays pending for the next cycle.
\<close>

theorem relay_cycle_safe:
  assumes "outbox_relay T rows rest wr log r" and "sent_published (rows s) (log k)"
    and "processOnce r now s k = (x, s', k')"
  shows "sent_published (rows s') (log k') \<and> rest s' = rest s
    \<and> (\<exists>ms evs. log k' = log k @ ms \<and> int (length ms) \<le> sint (rl_batchSize r)
        \<and> subseq ms (map event_message evs) \<and> sorted (map oe_CreatedAt evs)
        \<and> set evs \<subseteq> pending (rows s) \<and> (\<forall>i. relay_row now ms (rows s i) (rows s' i)))"
  by (rule outbox_relay.cycle_safe [OF assms])

theorem relay_cycle_safe_witness:
  "\<exists>s' k'. processOnce (NewRelay (right_table oe_ID) mem_write 2 1) 7
        \<lparr>mem_left = [] :: Order list, mem_right = [paid_row ''1'' 5], mem_faults = []\<rparr>
        \<lparr>mk_log = [], mk_fates = []\<rparr> = (None, s', k')
     \<and> lookup_row oe_ID (mem_right s') ''1'' = Some (mark_sent 7 (paid_row ''1'' 5))
     \<and> mk_log k' = [event_message (paid_row ''1'' 5)]
     \<and> sent_published (lookup_row oe_ID (mem_right s')) (mk_log k')"
proof -
  let ?s = "\<lparr>mem_left = [] :: Order list, mem_right = [paid_row ''1'' 5], mem_faults = []\<rparr>"
  let ?r = "NewRelay (right_table oe_ID) mem_write 2 1" and ?k = "\<lparr>mk_log = [], mk_fates = []\<rparr>"
  obtain s' k' where run: "processOnce ?r 7 ?s ?k = (None, s', k')"
    and s': "lookup_row oe_ID (mem_right s') ''1'' = Some (mark_sent 7 (paid_row ''1'' 5))"
    and k': "mk_log k' = [event_message (paid_row ''1'' 5)]"
    by (simp add: run_relay mem_store Let_def lookup_row_def)
  have "sent_published (lookup_row oe_ID (mem_right ?s)) (mk_log ?k)"
    by (auto simp: sent_published_def lookup_row_def ran_def)
  from relay_cycle_safe [OF mem_relay.outbox_relay_axioms this run]
  have "sent_published (lookup_row oe_ID (mem_right s')) (mk_log k')" by (elim conjE)
  with run s' k' show ?thesis by blast
qed

text \<open>
  The relay goroutine keeps the outbox guarantee over its whole life: through any number of
  ticks with any failures, and through shutdown, no row disappears, the broker's log only grows,
  and every event marked sent has been published.
\<close>

lemma relay_Start_safe:
  assumes "outbox_relay T rows rest wr log r" and "sent_published (rows s) (log k)"
    and "relay_Start r close sigs s k = (d, s', k')"
    and "\<And>k y k'. close k = (y, k') \<Longrightarrow> log k' = log k"
  shows "sent_published (rows s') (log k') \<and> rest s' = rest s
         \<and> dom (rows s') = dom (rows s) \<and> prefix (log k) (log k')"
  by (rule outbox_relay.cycles_safe [OF assms])

lemma relay_Start_safe_witness:
  "\<exists>s' k'. relay_Start (NewRelay (right_table oe_ID) mem_write 2 1) (\<lambda>k. (None, k)) [Tick 3, Tick 4, Ctx_Done]
      \<lparr>mem_left = [] :: Order list, mem_right = [paid_row ''1'' 5, paid_row ''2'' 1], mem_faults = []\<rparr>
      \<lparr>mk_log = [], mk_fates = [Lost]\<rparr> = (True, s', k')
    \<and> dom (lookup_row oe_ID (mem_right s')) = {''1'', ''2''}"
proof -
  let ?s = "\<lparr>mem_left = [] :: Order list, mem_right = [paid_row ''1'' 5, paid_row ''2'' 1], mem_faults = []\<rparr>"
  let ?k = "\<lparr>mk_log = [], mk_fates = [Lost]\<rparr>"
  let ?r = "NewRelay (right_table oe_ID) mem_write 2 1"
  obtain d s' k' where run: "relay_Start ?r (\<lambda>k. (None, k)) [Tick 3, Tick 4, Ctx_Done] ?s ?k = (d, s', k')"
    by (metis prod_cases3)
  then have d by (auto split: prod.splits)
  have "sent_published (lookup_row oe_ID (mem_right ?s)) (mk_log ?k)"
    by (auto simp: sent_published_def lookup_row_def ran_def)
  from relay_Start_safe [OF mem_relay.outbox_relay_axioms this run]
  have "dom (lookup_row oe_ID (mem_right s')) = dom (lookup_row oe_ID (mem_right ?s))" by simp
  also have "\<dots> = {''1'', ''2''}" by (auto simp: lookup_row_def dom_def)
  finally show ?thesis using run \<open>d\<close> by auto
qed

text \<open>
  C22: A healthy relay drains the outbox: while the database and the broker answer, any run of
  cycles whose batches add up to the number of pending events publishes every one of them and
  leaves none pending.
\<close>

theorem relay_drains:
  assumes "healthy_relay T rows rest wr log r db_up kafka_up" and "db_up s" and "kafka_up k"
    and "relay_Start r close (map Tick nows) s k = (d, s', k')"
    and "card (pending (rows s)) \<le> length nows * nat (sint (rl_batchSize r))"
  shows "pending (rows s') = {} \<and> event_message ` pending (rows s) \<subseteq> set (log k')"
proof -
  have c: "relay_cycles r nows s k = (s', k')" using assms(4) by (simp add: relay_Start_ticks)
  note D = healthy_relay.relay_cycles_up [OF assms(1) c assms(2,3)]
  have "card (pending (rows s')) = 0" using D assms(5) by simp
  then have "pending (rows s') = {}"
    using healthy_relay.pending_finite [OF assms(1), of s'] by simp
  with D show ?thesis by auto
qed

theorem relay_drains_witness:
  "\<exists>d s' k'. relay_Start (NewRelay (right_table oe_ID) mem_write 2 1) (\<lambda>k. (None, k)) (map Tick [3, 4])
      \<lparr>mem_left = [] :: Order list, mem_right = [paid_row ''1'' 5, paid_row ''2'' 1], mem_faults = []\<rparr>
      \<lparr>mk_log = [], mk_fates = []\<rparr> = (d, s', k')
    \<and> pending (lookup_row oe_ID (mem_right s')) = {}"
proof -
  let ?s = "\<lparr>mem_left = [] :: Order list, mem_right = [paid_row ''1'' 5, paid_row ''2'' 1], mem_faults = []\<rparr>"
  let ?k = "\<lparr>mk_log = [], mk_fates = []\<rparr>"
  let ?r = "NewRelay (right_table oe_ID) mem_write 2 1"
  obtain d s' k' where run: "relay_Start ?r (\<lambda>k. (None, k)) (map Tick [3, 4]) ?s ?k = (d, s', k')"
    by (metis prod_cases3)
  have "pending (lookup_row oe_ID (mem_right ?s)) = set [paid_row ''1'' 5, paid_row ''2'' 1]"
    by (auto simp: pending_def ran_lookup)
  then have "card (pending (lookup_row oe_ID (mem_right ?s))) \<le> length [3, 4 :: gotime] * nat (sint (rl_batchSize ?r))"
    using card_length [of "[paid_row ''1'' 5, paid_row ''2'' 1]"] by (simp add: NewRelay_def)
  from relay_drains [OF mem_healthy_relay.healthy_relay_axioms _ _ run this]
  have "pending (lookup_row oe_ID (mem_right s')) = {}" by (simp add: mem_up_def)
  with run show ?thesis by blast
qed

context outbox_relay
begin

lemma publish_events_other:
  "publish_events r now evs s k = (s', k') \<Longrightarrow> i \<notin> oe_ID ` set evs \<Longrightarrow> rows s' i = rows s i"
proof (induction evs arbitrary: s k)
  case (Cons ev evs)
  obtain e1 k1 where w: "wr (event_message ev) k = (e1, k1)" by fastforce
  obtain y s1 where m: "MarkSent T now (oe_ID ev) s = (y, s1)" by fastforce
  from Cons w m MarkSent_rows [OF m] show ?case
    by (cases e1) (auto simp: writer repo split: if_splits)
qed simp

lemma overtaken:
  assumes F: "FetchPending T (rl_batchSize r) s = (Inr (a # b # later), s1)"
    and lost: "wr (event_message a) k = (Some e, k1)" "log k1 = log k"
    and ok: "wr (event_message b) k1 = (None, k2)"
    and run: "processOnce r now s k = (x, s', k')"
  shows "rows s' (oe_ID a) = Some a
    \<and> (\<exists>ms. log k' = log k @ event_message b # ms \<and> subseq ms (map event_message later))"
proof -
  note S = FetchPending_spec [OF F]
  have row: "rows s1 (oe_ID ev) = Some ev" "oe_Status ev = EventStatusPending" if "ev \<in> set (a # b # later)" for ev
    using S(1) S(6) [OF that] by simp_all
  have ids: "oe_ID ev \<noteq> oe_ID ev'" if "ev \<in> set (a # b # later)" "ev' \<in> set (a # b # later)" "ev \<noteq> ev'" for ev ev'
    using row [OF that(1)] row [OF that(2)] that(3) by auto
  obtain y s2 where m: "MarkSent T now (oe_ID b) s1 = (y, s2)" by fastforce
  have p: "publish_events r now later s2 k2 = (s', k')"
    using run F lost(1) ok m by (simp add: processOnce_def repo writer)
  have rows2: "rows s2 i = rows s1 i" if "i \<noteq> oe_ID b" for i
    using MarkSent_rows [OF m] that by simp
  have d: "distinct (a # b # later)" using S(3) .
  have later: "rows s2 (oe_ID ev) = Some ev \<and> oe_Status ev = EventStatusPending" if "ev \<in> set later" for ev
  proof -
    have "oe_ID ev \<noteq> oe_ID b" using d that by (intro ids) auto
    then show ?thesis using row [of ev] rows2 that by simp
  qed
  have dm: "distinct later" using d by simp
  obtain ms where ms: "log k' = log k2 @ ms" "subseq ms (map event_message later)"
    using publish_events_step [OF p later dm] by blast
  have "oe_ID a \<notin> oe_ID ` set later"
  proof
    assume "oe_ID a \<in> oe_ID ` set later"
    then obtain ev where "ev \<in> set later" "oe_ID a = oe_ID ev" by auto
    moreover have "ev \<noteq> a" using d \<open>ev \<in> set later\<close> by auto
    ultimately show False using ids [of a ev] by simp
  qed
  moreover have "oe_ID a \<noteq> oe_ID b" using d by (intro ids) auto
  ultimately have "rows s' (oe_ID a) = Some a"
    using publish_events_other [OF p] rows2 row [of a] by simp
  with ms write_ok [OF ok] lost(2) show ?thesis by auto
qed

end



end
