(* ===== verification/Metrics.thy ===== *)
theory Metrics
  imports Errors
begin

text \<open>
  The package \<open>shared/observability\<close>: the collectors of a service as a record of counters,
  gauges and observed durations, their registration by \<open>NewMetrics\<close>, and the updates the
  services make. A counter is a natural number and a gauge an integer (the client library keeps
  both as \<open>float64\<close>, which is exact up to \<open>2^53\<close>); a histogram is the list of the durations
  observed, latest first, in nanoseconds.
\<close>

section \<open>Collectors\<close>

record metrics =
  registry :: "string list"
  serviceName :: string
  GRPCRequestsTotal :: "string \<times> string \<Rightarrow> nat"
  GRPCRequestDuration :: "string \<Rightarrow> int list"
  KafkaMessagesConsumed :: "string \<times> string \<Rightarrow> nat"
  KafkaMessagesProduced :: "string \<times> string \<Rightarrow> nat"
  KafkaMessagesFailed :: "string \<times> string \<Rightarrow> nat"
  KafkaProcessingDuration :: "string \<times> string \<Rightarrow> int list"
  DBOpenConnections :: int
  DBInUseConnections :: int
  DBIdleConnections :: int
  InvoicesCreatedTotal :: nat
  InvoicesPaidTotal :: nat
  InvoicesCancelledTotal :: nat
  InvoiceStateTotal :: "string \<Rightarrow> int"
  OrdersCreatedTotal :: nat
  OrdersPaidTotal :: nat
  OrdersCancelledTotal :: nat

text \<open>\<open>Inc\<close>, \<open>Dec\<close> and \<open>Observe\<close> on the collector of one label value.\<close>

definition inc_at :: "('a \<Rightarrow> nat) \<Rightarrow> 'a \<Rightarrow> 'a \<Rightarrow> nat" where
  "inc_at c l = c(l := Suc (c l))"

definition gauge_add :: "('a \<Rightarrow> int) \<Rightarrow> 'a \<Rightarrow> int \<Rightarrow> 'a \<Rightarrow> int" where
  "gauge_add g l d = g(l := g l + d)"

definition observe_at :: "('a \<Rightarrow> int list) \<Rightarrow> 'a \<Rightarrow> int \<Rightarrow> 'a \<Rightarrow> int list" where
  "observe_at h l d = h(l := d # h l)"

section \<open>Registration\<close>

text \<open>
  A collector's options are its namespace, subsystem and name; the library builds its full name
  with \<open>BuildFQName\<close> (the parameter \<open>fq\<close>), and \<open>MustRegister\<close> panics when the full name is
  already registered.
\<close>

type_synonym metric_opts = "string \<times> string \<times> string"

definition initGRPCMetrics :: "string \<Rightarrow> metric_opts list" where
  "initGRPCMetrics service =
     [(service, ''grpc'', ''requests_total''),
      (service, ''grpc'', ''request_duration_seconds'')]"

definition initKafkaMetrics :: "string \<Rightarrow> metric_opts list" where
  "initKafkaMetrics service =
     [(service, ''kafka'', ''messages_consumed_total''),
      (service, ''kafka'', ''messages_failed_total''),
      (service, ''kafka'', ''processing_duration_seconds''),
      (service, ''kafka'', ''messages_produced_total'')]"

definition initDBMetrics :: "string \<Rightarrow> metric_opts list" where
  "initDBMetrics service =
     [(service, ''db'', ''open_connections''),
      (service, ''db'', ''in_use_connections''),
      (service, ''db'', ''idle_connections'')]"

definition initBusinessMetrics :: "string \<Rightarrow> metric_opts list" where
  "initBusinessMetrics service =
     [(service, ''business'', ''invoices_created_total''),
      (service, ''business'', ''invoices_paid_total''),
      (service, ''business'', ''invoices_cancelled_total''),
      (service, ''business'', ''invoice_state_total''),
      (service, ''business'', ''orders_created_total''),
      (service, ''business'', ''orders_paid_total''),
      (service, ''business'', ''orders_cancelled_total'')]"

fun MustRegister :: "(metric_opts \<Rightarrow> string) \<Rightarrow> metric_opts list \<Rightarrow> string list \<Rightarrow> string list outcome" where
  "MustRegister fq [] reg = Returned reg"
| "MustRegister fq (c # cs) reg =
     (if fq c \<in> set reg then Panicked ''duplicate metrics collector registration attempted''
      else MustRegister fq cs (reg @ [fq c]))"

text \<open>Collectors that have recorded nothing.\<close>

definition zero_metrics :: "string list \<Rightarrow> string \<Rightarrow> metrics" where
  "zero_metrics reg name =
     \<lparr>registry = reg, serviceName = name,
     GRPCRequestsTotal = (\<lambda>_. 0), GRPCRequestDuration = (\<lambda>_. []),
     KafkaMessagesConsumed = (\<lambda>_. 0), KafkaMessagesProduced = (\<lambda>_. 0),
     KafkaMessagesFailed = (\<lambda>_. 0), KafkaProcessingDuration = (\<lambda>_. []),
     DBOpenConnections = 0, DBInUseConnections = 0, DBIdleConnections = 0,
     InvoicesCreatedTotal = 0, InvoicesPaidTotal = 0, InvoicesCancelledTotal = 0,
     InvoiceStateTotal = (\<lambda>_. 0),
     OrdersCreatedTotal = 0, OrdersPaidTotal = 0, OrdersCancelledTotal = 0\<rparr>"

definition NewMetrics :: "(metric_opts \<Rightarrow> string) \<Rightarrow> string \<Rightarrow> string \<Rightarrow> metrics outcome" where
  "NewMetrics fq name service =
     (case MustRegister fq (initGRPCMetrics service @ initKafkaMetrics service
             @ initDBMetrics service @ initBusinessMetrics service) [] of
        Panicked p \<Rightarrow> Panicked p
      | Returned reg \<Rightarrow> Returned (zero_metrics reg name))"

text \<open>\<open>collectDBMetrics\<close>: one tick, with the pool statistics the driver reports, or an error.\<close>

record pool_stats =
  OpenConnections :: int
  InUse :: int
  Idle :: int

definition collectDBMetrics_tick :: "go_error + pool_stats \<Rightarrow> metrics \<Rightarrow> metrics" where
  "collectDBMetrics_tick sqlDB m =
     (case sqlDB of
        Inl _ \<Rightarrow> m
      | Inr stats \<Rightarrow> m\<lparr>DBOpenConnections := OpenConnections stats,
                        DBInUseConnections := InUse stats,
                        DBIdleConnections := Idle stats\<rparr>)"

section \<open>Laws\<close>

lemma MustRegister_distinct:
  "distinct (reg @ map fq cs) \<Longrightarrow> MustRegister fq cs reg = Returned (reg @ map fq cs)"
  by (induction cs arbitrary: reg) auto

text \<open>
  Building the metrics of a service never panics: the sixteen collectors get sixteen
  different full names (whatever the service), so no registration is a duplicate, and every
  collector is registered once and starts at zero.
\<close>

lemma NewMetrics_registers:
  assumes "\<And>ns sub n. fq (ns, sub, n) = ns @ ''_'' @ sub @ ''_'' @ n"
  shows "\<exists>m. NewMetrics fq name service = Returned m \<and> length (registry m) = 16
             \<and> distinct (registry m) \<and> InvoiceStateTotal m = (\<lambda>_. 0)"
proof -
  let ?cs = "initGRPCMetrics service @ initKafkaMetrics service
             @ initDBMetrics service @ initBusinessMetrics service"
  have d: "distinct (map fq ?cs)"
    by (simp add: assms initGRPCMetrics_def initKafkaMetrics_def initDBMetrics_def
        initBusinessMetrics_def)
  have "length (map fq ?cs) = 16"
    by (simp add: initGRPCMetrics_def initKafkaMetrics_def initDBMetrics_def
        initBusinessMetrics_def)
  with MustRegister_distinct [of "[]" fq ?cs] d show ?thesis
    by (simp add: NewMetrics_def zero_metrics_def)
qed

lemma NewMetrics_registers_witness:
  "\<exists>m. NewMetrics (\<lambda>(ns, sub, n). ns @ ''_'' @ sub @ ''_'' @ n) ''order_service'' ''order''
       = Returned m \<and> length (registry m) = 16"
  using NewMetrics_registers [of "\<lambda>(ns, sub, n). ns @ ''_'' @ sub @ ''_'' @ n"
    "''order_service''" "''order''"] by auto

end
