(* ===== verification/OrderService.thy ===== *)
theory OrderService
  imports OrderTotal Outbox Metrics
begin

text \<open>
  \<open>order_service/internal/service/order.go\<close> and \<open>internal/repository\<close>: the order service.
  Its state is the database and the metrics; what the code reads from its environment (the
  identifiers \<open>uuid.NewString\<close> makes and the times \<open>time.Now\<close> returns) is an argument.
  Log lines are left out.
\<close>

section \<open>Repository and service\<close>

type_synonym 'db order_table = "('db, Order) gorm_table_ops"

definition OrderRepository_GetOrder :: "'db order_table \<Rightarrow> string \<Rightarrow> 'db \<Rightarrow> (go_error + Order) \<times> 'db" where
  "OrderRepository_GetOrder db i = gorm_First db (\<lambda>o'. OrderID o' = i)"

record 'db OrderService =
  os_orders :: "'db order_table"
  os_tx :: "('db, unit) gorm_transaction"
  os_repo_GetOrder :: "string \<Rightarrow> 'db \<Rightarrow> (go_error + Order) \<times> 'db"
  os_outboxRepo :: "'db outbox_table"
  os_converter :: Converter
  os_topicMap :: "EventType \<Rightarrow> string option"

definition NewOrderService ::
  "'db order_table \<Rightarrow> ('db, unit) gorm_transaction \<Rightarrow> (string \<Rightarrow> 'db \<Rightarrow> (go_error + Order) \<times> 'db)
   \<Rightarrow> 'db outbox_table \<Rightarrow> (EventType \<Rightarrow> string option) \<Rightarrow> Converter \<Rightarrow> 'db OrderService" where
  "NewOrderService db tx r outboxRepo topicMap converter =
     \<lparr>os_orders = db, os_tx = tx, os_repo_GetOrder = r, os_outboxRepo = outboxRepo,
      os_converter = converter, os_topicMap = topicMap\<rparr>"

record 'db order_state =
  st_db :: 'db
  st_metrics :: metrics

text \<open>One call's view of its environment.\<close>

record call_env =
  env_id :: string
  env_now :: gotime
  env_event_id :: string
  env_event_now :: gotime

section \<open>Writing an order with its event\<close>

definition outbox_event :: "call_env \<Rightarrow> Order \<Rightarrow> EventType \<Rightarrow> string \<Rightarrow> string \<Rightarrow> OutboxEvent" where
  "outbox_event env order evType topic payload =
     \<lparr>oe_ID = env_event_id env, oe_OrderID = OrderID order, oe_EventType = evType,
      oe_Topic = topic, oe_Payload = payload, oe_Status = EventStatusPending,
      oe_CreatedAt = env_event_now env, oe_ProcessedAt = None\<rparr>"

definition save_both :: "'db OrderService \<Rightarrow> Order \<Rightarrow> OutboxEvent \<Rightarrow> 'db \<Rightarrow> (go_error + unit) \<times> 'db" where
  "save_both svc order outboxEvent tx =
     (case gorm_Save (os_orders svc) order tx of
        (Some err, tx1) \<Rightarrow> (Inl err, tx1)
      | (None, tx1) \<Rightarrow>
          (case SaveTx (os_outboxRepo svc) outboxEvent tx1 of
             (Some err, tx2) \<Rightarrow> (Inl err, tx2)
           | (None, tx2) \<Rightarrow> (Inr (), tx2)))"

definition writeWithOutbox ::
  "'db OrderService \<Rightarrow> call_env \<Rightarrow> Order \<Rightarrow> order_event \<Rightarrow> EventType \<Rightarrow> 'db \<Rightarrow> go_error option \<times> 'db" where
  "writeWithOutbox svc env order ev evType db =
     (case os_topicMap svc evType of
        None \<Rightarrow> (Some (AppErr (ErrInternalError (''unknown event type: '' @ evType))), db)
      | Some topic \<Rightarrow>
          (case BuildPayload ev of
             Inl _ \<Rightarrow> (Some (AppErr (ErrInternalError ''failed to serialize event'')), db)
           | Inr payload \<Rightarrow>
               (case os_tx svc (save_both svc order (outbox_event env order evType topic payload)) db of
                  (Inl err, db') \<Rightarrow> (Some err, db')
                | (Inr _, db') \<Rightarrow> (None, db'))))"

section \<open>Operations\<close>

definition CreateOrder ::
  "'db OrderService \<Rightarrow> call_env \<Rightarrow> OrderItem list \<Rightarrow> 'db order_state \<Rightarrow> (go_error + Order) \<times> 'db order_state" where
  "CreateOrder svc env items s =
     (case validateItems items of
        Some err \<Rightarrow> (Inl err, s)
      | None \<Rightarrow>
          (case calcTotalUSD items (os_converter svc) of
             Inl err \<Rightarrow> (Inl err, s)
           | Inr totalUSD \<Rightarrow>
               let order = \<lparr>OrderID = env_id env, Items = items,
                            Total = \<lparr>Amount = totalUSD, Currency = ''USD''\<rparr>,
                            OrderStatus = OrderStatusCreated, CreatedAt = env_now env\<rparr>;
                   event = Created \<lparr>oc_OrderID = OrderID order, oc_Total = Total order,
                                    oc_Items = Items order, oc_CreatedAt = CreatedAt order\<rparr>
               in (case writeWithOutbox svc env order event EventOrderCreated (st_db s) of
                     (Some _, db') \<Rightarrow>
                       (Inl (AppErr (ErrInternalError ''failed to create order'')), s\<lparr>st_db := db'\<rparr>)
                   | (None, db') \<Rightarrow>
                       (Inr order, s\<lparr>st_db := db', st_metrics := (st_metrics s)
                          \<lparr>OrdersCreatedTotal := OrdersCreatedTotal (st_metrics s) + 1\<rparr>\<rparr>))))"

definition GetOrder ::
  "'db OrderService \<Rightarrow> string \<Rightarrow> 'db order_state \<Rightarrow> (go_error + Order) \<times> 'db order_state" where
  "GetOrder svc i s =
     (if i = '''' then (Inl (AppErr (ErrInvalidInput ''order_id is required'')), s)
      else case os_repo_GetOrder svc i (st_db s) of
             (Inl _, db') \<Rightarrow> (Inl (AppErr (ErrNotFound ''order not found'')), s\<lparr>st_db := db'\<rparr>)
           | (Inr order, db') \<Rightarrow> (Inr order, s\<lparr>st_db := db'\<rparr>))"

text \<open>
  \<open>MarkOrderPaid\<close> and \<open>CancelOrder\<close> read the order in one statement and write it in a later
  transaction; the part after the read is a definition of its own, so that two calls can also
  be interleaved between the two.
\<close>

definition pay_order ::
  "'db OrderService \<Rightarrow> call_env \<Rightarrow> Order \<Rightarrow> 'db order_state \<Rightarrow> (go_error + Order) \<times> 'db order_state" where
  "pay_order svc env order s =
     (if OrderStatus order \<noteq> OrderStatusCreated then
        (Inl (AppErr (ErrInvalidOrderState (''cannot pay order with status '' @ OrderStatus order @
           '', only CREATED orders can be paid''))), s)
      else
        let order' = order\<lparr>OrderStatus := OrderStatusPaid\<rparr>;
            event = Paid \<lparr>op_OrderID = OrderID order, op_PaidAt = Unix (env_now env)\<rparr>
        in (case writeWithOutbox svc env order' event EventOrderPaid (st_db s) of
              (Some _, db') \<Rightarrow>
                (Inl (AppErr (ErrInternalError ''failed to update order'')), s\<lparr>st_db := db'\<rparr>)
            | (None, db') \<Rightarrow>
                (Inr order', s\<lparr>st_db := db', st_metrics := (st_metrics s)
                   \<lparr>OrdersPaidTotal := OrdersPaidTotal (st_metrics s) + 1\<rparr>\<rparr>)))"

definition cancel_order ::
  "'db OrderService \<Rightarrow> call_env \<Rightarrow> Order \<Rightarrow> 'db order_state \<Rightarrow> (go_error + Order) \<times> 'db order_state" where
  "cancel_order svc env order s =
     (if OrderStatus order = OrderStatusPaid then
        (Inl (AppErr (ErrInvalidOrderState ''cannot cancel a paid order'')), s)
      else if OrderStatus order = OrderStatusCancelled then (Inr order, s)
      else
        let order' = order\<lparr>OrderStatus := OrderStatusCancelled\<rparr>;
            event = Cancelled \<lparr>ox_OrderID = OrderID order, ox_CancelledAt = Unix (env_now env)\<rparr>
        in (case writeWithOutbox svc env order' event EventOrderCancelled (st_db s) of
              (Some _, db') \<Rightarrow>
                (Inl (AppErr (ErrInternalError ''failed to update order'')), s\<lparr>st_db := db'\<rparr>)
            | (None, db') \<Rightarrow>
                (Inr order', s\<lparr>st_db := db', st_metrics := (st_metrics s)
                   \<lparr>OrdersCancelledTotal := OrdersCancelledTotal (st_metrics s) + 1\<rparr>\<rparr>)))"

definition with_order ::
  "(call_env \<Rightarrow> Order \<Rightarrow> 'db order_state \<Rightarrow> (go_error + Order) \<times> 'db order_state)
   \<Rightarrow> 'db OrderService \<Rightarrow> call_env \<Rightarrow> string \<Rightarrow> 'db order_state \<Rightarrow> (go_error + Order) \<times> 'db order_state" where
  "with_order next svc env i s =
     (if i = '''' then (Inl (AppErr (ErrInvalidInput ''order_id is required'')), s)
      else case os_repo_GetOrder svc i (st_db s) of
             (Inl _, db') \<Rightarrow> (Inl (AppErr (ErrNotFound ''order not found'')), s\<lparr>st_db := db'\<rparr>)
           | (Inr order, db') \<Rightarrow> next env order (s\<lparr>st_db := db'\<rparr>))"

definition MarkOrderPaid ::
  "'db OrderService \<Rightarrow> call_env \<Rightarrow> string \<Rightarrow> 'db order_state \<Rightarrow> (go_error + Order) \<times> 'db order_state" where
  "MarkOrderPaid svc = with_order (pay_order svc) svc"

definition CancelOrder ::
  "'db OrderService \<Rightarrow> call_env \<Rightarrow> string \<Rightarrow> 'db order_state \<Rightarrow> (go_error + Order) \<times> 'db order_state" where
  "CancelOrder svc = with_order (cancel_order svc) svc"

section \<open>The repository's contract\<close>

locale order_repository =
  fixes get :: "string \<Rightarrow> 'db \<Rightarrow> (go_error + Order) \<times> 'db"
    and orders :: "'db \<Rightarrow> Order view" and outbox :: "'db \<Rightarrow> OutboxEvent view"
  assumes get_ok: "get i s = (Inr o', s') \<Longrightarrow> orders s i = Some o'"
    and get_none: "get i s = (Inl e, s') \<Longrightarrow> is_RecordNotFound e \<Longrightarrow> orders s i = None"
    and get_frame: "get i s = (x, s') \<Longrightarrow> orders s' = orders s \<and> outbox s' = outbox s"

lemma OrderRepository_contract:
  assumes "gorm_table OT orders OrderID outbox"
  shows "order_repository (OrderRepository_GetOrder OT) orders outbox"
proof -
  note G = gorm_table.First_key_ok [OF assms] gorm_table.First_key_none [OF assms]
    gorm_table.First_frame [OF assms]
  show ?thesis
    by (unfold_locales; unfold OrderRepository_GetOrder_def; (rule G; assumption)?)
qed

interpretation mem_order_repo: order_repository "OrderRepository_GetOrder (left_table OrderID)"
    "\<lambda>s. lookup_row OrderID (mem_left s)" "\<lambda>s. lookup_row oe_ID (mem_right s)"
  by (rule OrderRepository_contract [OF left_is_gorm_table])

section \<open>What an operation writes\<close>

text \<open>
  The write of an order with its event, on the two tables: the row of the order is replaced and
  one new pending event for it appears, with the topic and the JSON text of the event.
\<close>

definition order_written ::
  "'db OrderService \<Rightarrow> call_env \<Rightarrow> Order \<Rightarrow> order_event \<Rightarrow> EventType
   \<Rightarrow> Order view \<Rightarrow> OutboxEvent view \<Rightarrow> Order view \<Rightarrow> OutboxEvent view \<Rightarrow> bool" where
  "order_written svc env order ev evType ord out ord' out' \<longleftrightarrow>
     (\<exists>topic payload. os_topicMap svc evType = Some topic \<and> BuildPayload ev = Inr payload
        \<and> ord' = ord(OrderID order \<mapsto> order) \<and> out (env_event_id env) = None
        \<and> out' = out(env_event_id env \<mapsto> outbox_event env order evType topic payload))"

locale order_backend =
  O: gorm_table OT orders OrderID outbox + E: gorm_table ET outbox oe_ID orders +
  X: gorm_transaction tx "\<lambda>s. (orders s, outbox s)" + R: order_repository get orders outbox
  for OT :: "'db order_table" and orders :: "'db \<Rightarrow> Order view"
    and ET :: "'db outbox_table" and outbox :: "'db \<Rightarrow> OutboxEvent view"
    and tx :: "('db, unit) gorm_transaction" and get +
  fixes svc :: "'db OrderService"
  assumes svc_orders: "os_orders svc = OT" and svc_outbox: "os_outboxRepo svc = ET"
    and svc_tx: "os_tx svc = tx" and svc_repo: "os_repo_GetOrder svc = get"
begin

lemma save_both_ok:
  assumes "save_both svc order ev s = (Inr a, s')"
  shows "orders s' = (orders s)(OrderID order \<mapsto> order) \<and> outbox s (oe_ID ev) = None
         \<and> outbox s' = (outbox s)(oe_ID ev \<mapsto> ev)"
proof -
  obtain s1 where s1: "gorm_Save OT order s = (None, s1)" and s2: "gorm_Create ET ev s1 = (None, s')"
    using assms unfolding save_both_def SaveTx_def svc_orders svc_outbox
    by (auto split: option.split_asm prod.split_asm)
  show ?thesis using O.Save_ok [OF s1] E.Create_ok [OF s2] by auto
qed

lemma writeWithOutbox_None:
  assumes "writeWithOutbox svc env order ev ty db = (None, db')"
  shows "order_written svc env order ev ty (orders db) (outbox db) (orders db') (outbox db')"
proof -
  obtain topic payload where t: "os_topicMap svc ty = Some topic" "BuildPayload ev = Inr payload"
    and w: "tx (save_both svc order (outbox_event env order ty topic payload)) db = (Inr (), db')"
    using assms unfolding writeWithOutbox_def svc_tx
    by (auto split: option.split_asm sum.split_asm prod.split_asm)
  from X.tx_ok [OF w] obtain s1 s2 where
    v: "orders s1 = orders db" "outbox s1 = outbox db" "orders db' = orders s2" "outbox db' = outbox s2"
    and b: "save_both svc order (outbox_event env order ty topic payload) s1 = (Inr (), s2)" by auto
  have "oe_ID (outbox_event env order ty topic payload) = env_event_id env" by (simp add: outbox_event_def)
  with save_both_ok [OF b] t v show ?thesis by (simp add: order_written_def)
qed

lemma writeWithOutbox_Some:
  assumes "writeWithOutbox svc env order ev ty db = (Some e, db')"
  shows "orders db' = orders db \<and> outbox db' = outbox db"
proof -
  have "db' = db \<or> (\<exists>fc. tx fc db = (Inl e, db'))"
    using assms unfolding writeWithOutbox_def svc_tx
    by (auto split: option.split_asm sum.split_asm prod.split_asm)
  with X.tx_err show ?thesis by auto
qed

lemma order_written_db:
  "order_written svc env order ev ty ord out ord' out' \<Longrightarrow> ord' = ord(OrderID order \<mapsto> order)"
  by (auto simp: order_written_def)

end

text \<open>Nothing an observer of the tables or the metrics could see has changed.\<close>

definition unchanged ::
  "('db \<Rightarrow> Order view) \<Rightarrow> ('db \<Rightarrow> OutboxEvent view) \<Rightarrow> 'db order_state \<Rightarrow> 'db order_state \<Rightarrow> bool" where
  "unchanged orders outbox s s' \<longleftrightarrow>
     orders (st_db s') = orders (st_db s) \<and> outbox (st_db s') = outbox (st_db s)
     \<and> st_metrics s' = st_metrics s"

lemma unchanged_refl [simp]: "unchanged orders outbox s s"
  by (simp add: unchanged_def)

text \<open>
  A successful change of state: the order \<open>order\<close> is the stored row of \<open>i\<close> before, with the
  status replaced, and it is written with its event.
\<close>

definition status_change ::
  "('db \<Rightarrow> Order view) \<Rightarrow> ('db \<Rightarrow> OutboxEvent view) \<Rightarrow> 'db OrderService \<Rightarrow> call_env \<Rightarrow> string
   \<Rightarrow> OrderStatus \<Rightarrow> order_event \<Rightarrow> EventType \<Rightarrow> Order \<Rightarrow> 'db order_state \<Rightarrow> 'db order_state \<Rightarrow> bool" where
  "status_change orders outbox svc env i status ev ty order s s' \<longleftrightarrow>
     (\<exists>old. orders (st_db s) i = Some old \<and> order = old\<lparr>OrderStatus := status\<rparr> \<and> OrderID old = i
        \<and> order_written svc env order ev ty (orders (st_db s)) (outbox (st_db s))
             (orders (st_db s')) (outbox (st_db s')))"

context order_backend
begin

lemma pay_order_cases:
  assumes "pay_order svc env order s = (x, s')"
  shows "(OrderStatus order \<noteq> OrderStatusCreated \<and> s' = s
            \<and> (\<exists>e. x = Inl e \<and> fst (order_mapError e) = FailedPrecondition))
    \<or> (OrderStatus order = OrderStatusCreated \<and> unchanged orders outbox s s'
            \<and> (\<exists>e. x = Inl e \<and> fst (order_mapError e) = Internal))
    \<or> (OrderStatus order = OrderStatusCreated \<and> x = Inr (order\<lparr>OrderStatus := OrderStatusPaid\<rparr>)
            \<and> order_written svc env (order\<lparr>OrderStatus := OrderStatusPaid\<rparr>)
                (Paid \<lparr>op_OrderID = OrderID order, op_PaidAt = Unix (env_now env)\<rparr>) EventOrderPaid
                (orders (st_db s)) (outbox (st_db s)) (orders (st_db s')) (outbox (st_db s'))
            \<and> st_metrics s' = (st_metrics s)\<lparr>OrdersPaidTotal := OrdersPaidTotal (st_metrics s) + 1\<rparr>)"
proof (cases "OrderStatus order = OrderStatusCreated")
  case False
  then show ?thesis using assms by (auto simp: pay_order_def)
next
  case True
  obtain w db' where w: "writeWithOutbox svc env (order\<lparr>OrderStatus := OrderStatusPaid\<rparr>)
      (Paid \<lparr>op_OrderID = OrderID order, op_PaidAt = Unix (env_now env)\<rparr>) EventOrderPaid (st_db s) = (w, db')"
    by fastforce
  show ?thesis
  proof (cases w)
    case None
    with assms w True writeWithOutbox_None [OF w [unfolded None]] show ?thesis
      by (auto simp: pay_order_def)
  next
    case (Some e)
    with assms w True writeWithOutbox_Some [OF w [unfolded Some]] show ?thesis
      by (auto simp: pay_order_def unchanged_def)
  qed
qed

lemma cancel_order_cases:
  assumes "cancel_order svc env order s = (x, s')"
  shows "(OrderStatus order = OrderStatusPaid \<and> s' = s
            \<and> (\<exists>e. x = Inl e \<and> fst (order_mapError e) = FailedPrecondition))
    \<or> (OrderStatus order = OrderStatusCancelled \<and> s' = s \<and> x = Inr order)
    \<or> (OrderStatus order \<notin> {OrderStatusPaid, OrderStatusCancelled} \<and> unchanged orders outbox s s'
            \<and> (\<exists>e. x = Inl e \<and> fst (order_mapError e) = Internal))
    \<or> (OrderStatus order \<notin> {OrderStatusPaid, OrderStatusCancelled}
            \<and> x = Inr (order\<lparr>OrderStatus := OrderStatusCancelled\<rparr>)
            \<and> order_written svc env (order\<lparr>OrderStatus := OrderStatusCancelled\<rparr>)
                (Cancelled \<lparr>ox_OrderID = OrderID order, ox_CancelledAt = Unix (env_now env)\<rparr>)
                EventOrderCancelled
                (orders (st_db s)) (outbox (st_db s)) (orders (st_db s')) (outbox (st_db s'))
            \<and> st_metrics s' = (st_metrics s)\<lparr>OrdersCancelledTotal := OrdersCancelledTotal (st_metrics s) + 1\<rparr>)"
proof (cases "OrderStatus order \<in> {OrderStatusPaid, OrderStatusCancelled}")
  case True
  then show ?thesis using assms by (auto simp: cancel_order_def)
next
  case False
  obtain w db' where w: "writeWithOutbox svc env (order\<lparr>OrderStatus := OrderStatusCancelled\<rparr>)
      (Cancelled \<lparr>ox_OrderID = OrderID order, ox_CancelledAt = Unix (env_now env)\<rparr>)
      EventOrderCancelled (st_db s) = (w, db')"
    by fastforce
  show ?thesis
  proof (cases w)
    case None
    with assms w False writeWithOutbox_None [OF w [unfolded None]] show ?thesis
      by (auto simp: cancel_order_def)
  next
    case (Some e)
    with assms w False writeWithOutbox_Some [OF w [unfolded Some]] show ?thesis
      by (auto simp: cancel_order_def unchanged_def)
  qed
qed

lemma with_order_cases:
  assumes "with_order next svc env i s = (x, s')"
  shows "(i = [] \<and> s' = s \<and> (\<exists>e. x = Inl e \<and> fst (order_mapError e) = InvalidArgument))
    \<or> (i \<noteq> [] \<and> unchanged orders outbox s s' \<and> (\<exists>e. x = Inl e \<and> fst (order_mapError e) = NotFound))
    \<or> (\<exists>order s1. i \<noteq> [] \<and> orders (st_db s) i = Some order \<and> OrderID order = i
          \<and> unchanged orders outbox s s1 \<and> next env order s1 = (x, s'))"
proof (cases "i = []")
  case True
  then show ?thesis using assms by (auto simp: with_order_def)
next
  case False
  obtain y db' where g: "get i (st_db s) = (y, db')" by fastforce
  have fr: "unchanged orders outbox s (s\<lparr>st_db := db'\<rparr>)"
    using R.get_frame [OF g] by (simp add: unchanged_def)
  show ?thesis
  proof (cases y)
    case (Inl e)
    with assms False g fr show ?thesis by (auto simp: with_order_def svc_repo)
  next
    case (Inr order)
    have o: "orders (st_db s) i = Some order" by (rule R.get_ok [OF g [unfolded Inr]])
    have "next env order (s\<lparr>st_db := db'\<rparr>) = (x, s')"
      using assms False g Inr by (simp add: with_order_def svc_repo)
    then show ?thesis using False o O.rows_key [OF o] fr by auto
  qed
qed

lemma unchanged_trans_written:
  "unchanged orders outbox s s1 \<Longrightarrow>
   order_written svc env order ev ty (orders (st_db s1)) (outbox (st_db s1)) ord' out' \<Longrightarrow>
   order_written svc env order ev ty (orders (st_db s)) (outbox (st_db s)) ord' out'"
  by (simp add: unchanged_def)

lemma unchanged_trans: "unchanged orders outbox s s1 \<Longrightarrow> unchanged orders outbox s1 s2 \<Longrightarrow> unchanged orders outbox s s2"
  by (simp add: unchanged_def)

lemma MarkOrderPaid_cases:
  assumes "MarkOrderPaid svc env i s = (x, s')"
  shows "(case x of
      Inr order \<Rightarrow>
        status_change orders outbox svc env i OrderStatusPaid
          (Paid \<lparr>op_OrderID = i, op_PaidAt = Unix (env_now env)\<rparr>) EventOrderPaid order s s'
        \<and> map_option OrderStatus (orders (st_db s) i) = Some OrderStatusCreated
        \<and> st_metrics s' = (st_metrics s)\<lparr>OrdersPaidTotal := OrdersPaidTotal (st_metrics s) + 1\<rparr>
    | Inl e \<Rightarrow>
        unchanged orders outbox s s'
        \<and> fst (order_mapError e) \<in> {InvalidArgument, NotFound, FailedPrecondition, Internal}
        \<and> (fst (order_mapError e) = InvalidArgument \<longleftrightarrow> i = [])
        \<and> (fst (order_mapError e) = FailedPrecondition \<longrightarrow>
             (\<exists>o'. orders (st_db s) i = Some o' \<and> OrderStatus o' \<noteq> OrderStatusCreated)))"
  using with_order_cases [OF assms [unfolded MarkOrderPaid_def]]
proof (elim disjE exE conjE)
  fix order s1
  assume a: "i \<noteq> []" "orders (st_db s) i = Some order" "OrderID order = i"
    "unchanged orders outbox s s1" "pay_order svc env order s1 = (x, s')"
  from pay_order_cases [OF a(5)] show ?thesis
    by (elim disjE exE conjE)
       (use a in \<open>auto simp: status_change_def unchanged_def\<close>)
qed auto

lemma CancelOrder_cases:
  assumes "CancelOrder svc env i s = (x, s')"
  shows "(case x of
      Inr order \<Rightarrow>
        (unchanged orders outbox s s' \<and> orders (st_db s) i = Some order \<and> OrderStatus order = OrderStatusCancelled)
        \<or> (status_change orders outbox svc env i OrderStatusCancelled
             (Cancelled \<lparr>ox_OrderID = i, ox_CancelledAt = Unix (env_now env)\<rparr>) EventOrderCancelled order s s'
           \<and> (\<exists>o'. orders (st_db s) i = Some o' \<and> OrderStatus o' \<notin> {OrderStatusPaid, OrderStatusCancelled})
           \<and> st_metrics s' = (st_metrics s)\<lparr>OrdersCancelledTotal := OrdersCancelledTotal (st_metrics s) + 1\<rparr>)
    | Inl e \<Rightarrow>
        unchanged orders outbox s s'
        \<and> fst (order_mapError e) \<in> {InvalidArgument, NotFound, FailedPrecondition, Internal}
        \<and> (fst (order_mapError e) = InvalidArgument \<longleftrightarrow> i = [])
        \<and> (fst (order_mapError e) = FailedPrecondition \<longrightarrow>
             (\<exists>o'. orders (st_db s) i = Some o' \<and> OrderStatus o' = OrderStatusPaid)))"
  using with_order_cases [OF assms [unfolded CancelOrder_def]]
proof (elim disjE exE conjE)
  fix order s1
  assume a: "i \<noteq> []" "orders (st_db s) i = Some order" "OrderID order = i"
    "unchanged orders outbox s s1" "cancel_order svc env order s1 = (x, s')"
  from cancel_order_cases [OF a(5)] show ?thesis
    by (elim disjE exE conjE)
       (use a in \<open>auto simp: status_change_def unchanged_def\<close>)
qed auto

end

text \<open>The order that \<open>CreateOrder\<close> makes, and its event.\<close>

definition new_order :: "call_env \<Rightarrow> OrderItem list \<Rightarrow> int64 \<Rightarrow> Order" where
  "new_order env items t =
     \<lparr>OrderID = env_id env, Items = items, Total = \<lparr>Amount = t, Currency = ''USD''\<rparr>,
      OrderStatus = OrderStatusCreated, CreatedAt = env_now env\<rparr>"

definition created_event :: "Order \<Rightarrow> order_event" where
  "created_event order =
     Created \<lparr>oc_OrderID = OrderID order, oc_Total = Total order, oc_Items = Items order,
              oc_CreatedAt = CreatedAt order\<rparr>"

lemma new_order_simps [simp]:
  "OrderID (new_order env items t) = env_id env" "OrderStatus (new_order env items t) = OrderStatusCreated"
  by (simp_all add: new_order_def)

lemma CreateOrder_write:
  "CreateOrder svc env items s =
     (case validateItems items of
        Some err \<Rightarrow> (Inl err, s)
      | None \<Rightarrow>
          (case calcTotalUSD items (os_converter svc) of
             Inl err \<Rightarrow> (Inl err, s)
           | Inr t \<Rightarrow>
               (case writeWithOutbox svc env (new_order env items t) (created_event (new_order env items t))
                       EventOrderCreated (st_db s) of
                  (Some _, db') \<Rightarrow>
                    (Inl (AppErr (ErrInternalError ''failed to create order'')), s\<lparr>st_db := db'\<rparr>)
                | (None, db') \<Rightarrow>
                    (Inr (new_order env items t), s\<lparr>st_db := db', st_metrics := (st_metrics s)
                       \<lparr>OrdersCreatedTotal := OrdersCreatedTotal (st_metrics s) + 1\<rparr>\<rparr>))))"
  by (auto simp: CreateOrder_def new_order_def created_event_def Let_def split: option.split sum.split prod.split)

context order_backend
begin

lemma CreateOrder_cases:
  assumes "CreateOrder svc env items s = (x, s')"
  shows "(case x of
      Inr order \<Rightarrow>
        validateItems items = None
        \<and> (\<exists>t. calcTotalUSD items (os_converter svc) = Inr t \<and> order = new_order env items t)
        \<and> order_written svc env order (created_event order) EventOrderCreated
             (orders (st_db s)) (outbox (st_db s)) (orders (st_db s')) (outbox (st_db s'))
        \<and> st_metrics s' = (st_metrics s)\<lparr>OrdersCreatedTotal := OrdersCreatedTotal (st_metrics s) + 1\<rparr>
    | Inl e \<Rightarrow>
        unchanged orders outbox s s'
        \<and> (validateItems items = Some e
           \<or> validateItems items = None \<and> calcTotalUSD items (os_converter svc) = Inl e
           \<or> validateItems items = None \<and> fst (order_mapError e) = Internal))"
proof (cases "validateItems items")
  case (Some err)
  then show ?thesis using assms by (auto simp: CreateOrder_def)
next
  case None
  show ?thesis
  proof (cases "calcTotalUSD items (os_converter svc)")
    case (Inl err)
    then show ?thesis using assms None by (auto simp: CreateOrder_def)
  next
    case (Inr t)
    let ?o = "new_order env items t"
    obtain w db' where w: "writeWithOutbox svc env ?o (created_event ?o) EventOrderCreated (st_db s) = (w, db')"
      by fastforce
    show ?thesis
    proof (cases w)
      case n: None
      from assms w None Inr writeWithOutbox_None [OF w [unfolded n]] n show ?thesis
        by (auto simp: CreateOrder_write)
    next
      case (Some e)
      with assms w None Inr writeWithOutbox_Some [OF w [unfolded Some]] show ?thesis
        by (auto simp: CreateOrder_write unchanged_def)
    qed
  qed
qed

lemma GetOrder_cases:
  assumes "GetOrder svc i s = (x, s')"
  shows "unchanged orders outbox s s'
    \<and> (case x of
         Inr order \<Rightarrow> i \<noteq> [] \<and> orders (st_db s) i = Some order
       | Inl e \<Rightarrow> fst (order_mapError e) = (if i = [] then InvalidArgument else NotFound))"
proof (cases "i = []")
  case True
  then show ?thesis using assms by (auto simp: GetOrder_def)
next
  case False
  obtain y db' where g: "get i (st_db s) = (y, db')" by fastforce
  have fr: "unchanged orders outbox s (s\<lparr>st_db := db'\<rparr>)"
    using R.get_frame [OF g] by (simp add: unchanged_def)
  show ?thesis
    using assms False g fr R.get_ok [of i "st_db s" _ db']
    by (cases y) (auto simp: GetOrder_def svc_repo)
qed

end

section \<open>The service on the in-memory store\<close>

definition mem_topics :: "EventType \<Rightarrow> string option" where
  "mem_topics = [EventOrderCreated \<mapsto> ''created'', EventOrderPaid \<mapsto> ''paid'', EventOrderCancelled \<mapsto> ''cancelled'']"

definition mem_service :: "(Order, OutboxEvent) memdb OrderService" where
  "mem_service =
     NewOrderService (left_table OrderID) mem_transaction (OrderRepository_GetOrder (left_table OrderID))
       (right_table oe_ID) mem_topics ToUSD"

lemma mem_service_fields [simp]:
  "os_orders mem_service = left_table OrderID" "os_tx mem_service = mem_transaction"
  "os_repo_GetOrder mem_service = OrderRepository_GetOrder (left_table OrderID)"
  "os_outboxRepo mem_service = right_table oe_ID" "os_topicMap mem_service = mem_topics"
  "os_converter mem_service = ToUSD"
  by (simp_all add: mem_service_def NewOrderService_def)

abbreviation mem_orders :: "(Order, OutboxEvent) memdb \<Rightarrow> Order view" where
  "mem_orders s \<equiv> lookup_row OrderID (mem_left s)"

abbreviation mem_outbox :: "(Order, OutboxEvent) memdb \<Rightarrow> OutboxEvent view" where
  "mem_outbox s \<equiv> lookup_row oe_ID (mem_right s)"

interpretation mem_backend: order_backend "left_table OrderID" mem_orders "right_table oe_ID" mem_outbox
    mem_transaction "OrderRepository_GetOrder (left_table OrderID)" mem_service
  by (intro order_backend.intro order_backend_axioms.intro left_is_gorm_table right_is_gorm_table
      mem_transaction_view [where v = "\<lambda>l r. (lookup_row OrderID l, lookup_row oe_ID r)"] mem_order_repo.order_repository_axioms) simp_all

definition example_order :: "OrderStatus \<Rightarrow> Order" where
  "example_order status =
     \<lparr>OrderID = ''o1'', Items = [usd_item ''p'' 1 7], Total = \<lparr>Amount = 7, Currency = ''USD''\<rparr>,
      OrderStatus = status, CreatedAt = 0\<rparr>"

definition example_env :: call_env where
  "example_env = \<lparr>env_id = ''o2'', env_now = 10 ^ 9, env_event_id = ''e1'', env_event_now = 10 ^ 9\<rparr>"

lemma example_simps [simp]:
  "OrderID (example_order st) = ''o1''" "OrderStatus (example_order st) = st"
  "(example_order st)\<lparr>OrderStatus := st'\<rparr> = example_order st'"
  "env_event_id example_env = ''e1''" "env_id example_env = ''o2''"
  by (simp_all add: example_order_def example_env_def)

definition example_state :: "OrderStatus \<Rightarrow> bool list \<Rightarrow> (Order, OutboxEvent) memdb order_state" where
  "example_state status faults =
     \<lparr>st_db = \<lparr>mem_left = [example_order status], mem_right = [], mem_faults = faults\<rparr>, st_metrics = zero_metrics [] []\<rparr>"

lemmas run_mem =
  example_state_def OrderRepository_GetOrder_def mem_store
  mem_transaction_def with_order_def pay_order_def cancel_order_def MarkOrderPaid_def
  CancelOrder_def writeWithOutbox_def save_both_def SaveTx_def mem_topics_def BuildPayload_def
  outbox_event_def

section \<open>Properties of the operations\<close>

text \<open>
  C15: Paying an order is all or nothing. On success the stored order was CREATED, the answer and
  the stored row are that order with status PAID, and in the same transaction exactly one new
  pending event appears, with the topic of paid orders and the JSON text of the paid event. On
  any error the tables and the metrics are as before, and the error says why: INVALID_ARGUMENT
  for an empty id, FAILED_PRECONDITION only for a stored order that is not CREATED.
\<close>

theorem MarkOrderPaid_spec:
  assumes "order_backend OT orders ET outbox tx get svc"
    and "MarkOrderPaid svc env i s = (x, s')"
  shows "case x of
      Inr order \<Rightarrow>
        status_change orders outbox svc env i OrderStatusPaid
          (Paid \<lparr>op_OrderID = i, op_PaidAt = Unix (env_now env)\<rparr>) EventOrderPaid order s s'
        \<and> map_option OrderStatus (orders (st_db s) i) = Some OrderStatusCreated
        \<and> st_metrics s' = (st_metrics s)\<lparr>OrdersPaidTotal := OrdersPaidTotal (st_metrics s) + 1\<rparr>
    | Inl e \<Rightarrow>
        unchanged orders outbox s s'
        \<and> fst (order_mapError e) \<in> {InvalidArgument, NotFound, FailedPrecondition, Internal}
        \<and> (fst (order_mapError e) = InvalidArgument \<longleftrightarrow> i = [])
        \<and> (fst (order_mapError e) = FailedPrecondition \<longrightarrow>
             (\<exists>o'. orders (st_db s) i = Some o' \<and> OrderStatus o' \<noteq> OrderStatusCreated))"
  by (rule order_backend.MarkOrderPaid_cases [OF assms])

theorem MarkOrderPaid_spec_witness:
  "\<exists>s'. MarkOrderPaid mem_service example_env ''o1'' (example_state OrderStatusCreated [])
      = (Inr (example_order OrderStatusPaid), s')
    \<and> mem_orders (st_db s') ''o1'' = Some (example_order OrderStatusPaid)
    \<and> st_metrics s' = (zero_metrics [] [])\<lparr>OrdersPaidTotal := 1\<rparr>"
proof -
  obtain s' where run: "MarkOrderPaid mem_service example_env ''o1'' (example_state OrderStatusCreated [])
      = (Inr (example_order OrderStatusPaid), s')"
    by (simp add: run_mem Let_def)
  from MarkOrderPaid_spec [OF mem_backend.order_backend_axioms run]
  have "status_change mem_orders mem_outbox mem_service example_env ''o1'' OrderStatusPaid
      (Paid \<lparr>op_OrderID = ''o1'', op_PaidAt = Unix (env_now example_env)\<rparr>) EventOrderPaid
      (example_order OrderStatusPaid) (example_state OrderStatusCreated []) s'"
    and "st_metrics s' = (zero_metrics [] [])\<lparr>OrdersPaidTotal := 1\<rparr>"
    by (simp_all add: example_state_def zero_metrics_def)
  with run show ?thesis
    by (auto simp: status_change_def order_written_def)
qed

text \<open>
  C16: Cancelling is all or nothing and idempotent. On success either the stored order was already
  CANCELLED, nothing changes and no second event is queued, or it was neither PAID nor CANCELLED,
  the row becomes CANCELLED and exactly one cancellation event appears in the same transaction.
  On any error tables and metrics are as before; FAILED_PRECONDITION means a stored PAID order.
\<close>

theorem CancelOrder_spec:
  assumes "order_backend OT orders ET outbox tx get svc"
    and "CancelOrder svc env i s = (x, s')"
  shows "case x of
      Inr order \<Rightarrow>
        (unchanged orders outbox s s' \<and> orders (st_db s) i = Some order \<and> OrderStatus order = OrderStatusCancelled)
        \<or> (status_change orders outbox svc env i OrderStatusCancelled
             (Cancelled \<lparr>ox_OrderID = i, ox_CancelledAt = Unix (env_now env)\<rparr>) EventOrderCancelled order s s'
           \<and> (\<exists>o'. orders (st_db s) i = Some o' \<and> OrderStatus o' \<notin> {OrderStatusPaid, OrderStatusCancelled})
           \<and> st_metrics s' = (st_metrics s)\<lparr>OrdersCancelledTotal := OrdersCancelledTotal (st_metrics s) + 1\<rparr>)
    | Inl e \<Rightarrow>
        unchanged orders outbox s s'
        \<and> fst (order_mapError e) \<in> {InvalidArgument, NotFound, FailedPrecondition, Internal}
        \<and> (fst (order_mapError e) = InvalidArgument \<longleftrightarrow> i = [])
        \<and> (fst (order_mapError e) = FailedPrecondition \<longrightarrow>
             (\<exists>o'. orders (st_db s) i = Some o' \<and> OrderStatus o' = OrderStatusPaid))"
  by (rule order_backend.CancelOrder_cases [OF assms])

theorem CancelOrder_spec_witness:
  "\<exists>e s'. CancelOrder mem_service example_env ''o1'' (example_state OrderStatusCreated [False, False, False, True])
      = (Inl e, s')
    \<and> mem_orders (st_db s') = mem_orders (st_db (example_state OrderStatusCreated []))"
proof -
  obtain e s' where run: "CancelOrder mem_service example_env ''o1''
      (example_state OrderStatusCreated [False, False, False, True]) = (Inl e, s')"
    by (simp add: run_mem Let_def)
  from CancelOrder_spec [OF mem_backend.order_backend_axioms run]
  have "unchanged mem_orders mem_outbox (example_state OrderStatusCreated [False, False, False, True]) s'"
    by simp
  with run show ?thesis by (auto simp: unchanged_def example_state_def)
qed

text \<open>
  C17: Creating an order is all or nothing. On success the items passed validation, the stored
  row is the answered order, CREATED and with the computed total in dollars, and exactly one
  pending creation event with the JSON text of that order appears in the same transaction. On
  any error tables and metrics are as before, and the error is the validation's or the total's
  own, or an internal one.
\<close>

theorem CreateOrder_spec:
  assumes "order_backend OT orders ET outbox tx get svc"
    and "CreateOrder svc env items s = (x, s')"
  shows "case x of
      Inr order \<Rightarrow>
        validateItems items = None
        \<and> (\<exists>t. calcTotalUSD items (os_converter svc) = Inr t \<and> order = new_order env items t)
        \<and> order_written svc env order (created_event order) EventOrderCreated
             (orders (st_db s)) (outbox (st_db s)) (orders (st_db s')) (outbox (st_db s'))
        \<and> st_metrics s' = (st_metrics s)\<lparr>OrdersCreatedTotal := OrdersCreatedTotal (st_metrics s) + 1\<rparr>
    | Inl e \<Rightarrow>
        unchanged orders outbox s s'
        \<and> (validateItems items = Some e
           \<or> validateItems items = None \<and> calcTotalUSD items (os_converter svc) = Inl e
           \<or> validateItems items = None \<and> fst (order_mapError e) = Internal)"
  by (rule order_backend.CreateOrder_cases [OF assms])

lemma example_date: "fst (date_of 1000000000) = 1970"
  by code_simp

lemma example_marshal: "time_MarshalText (env_now example_env) \<noteq> None"
  by (simp add: time_MarshalText_def example_env_def example_date Let_def)

theorem CreateOrder_spec_witness:
  "\<exists>order s'. CreateOrder mem_service example_env [usd_item ''p'' 2 500] (example_state OrderStatusCreated [])
      = (Inr order, s') \<and> mem_orders (st_db s') ''o2'' = Some order
      \<and> OrdersCreatedTotal (st_metrics s') = 1"
proof -
  let ?o = "new_order example_env [usd_item ''p'' 2 500] 1000"
  have v: "validateItems [usd_item ''p'' 2 500] = None" by (simp add: validateItems_None)
  have t: "calcTotalUSD [usd_item ''p'' 2 500] ToUSD = Inr 1000"
    by (simp add: calcTotalUSD_def usd_item_def)
  obtain j where j: "enc_event (created_event ?o) = Some j"
    using example_marshal by (auto simp: created_event_def new_order_def)
  obtain s' where run: "CreateOrder mem_service example_env [usd_item ''p'' 2 500]
      (example_state OrderStatusCreated []) = (Inr ?o, s')"
    by (simp add: CreateOrder_write v t run_mem j Let_def)
  from CreateOrder_spec [OF mem_backend.order_backend_axioms run] show ?thesis
    using run by (auto simp: order_written_def example_state_def zero_metrics_def)
qed

text \<open>
  Reading an order never changes the tables or the metrics; it answers with the stored row,
  and otherwise with INVALID_ARGUMENT for an empty id and NOT_FOUND for any failure of the read,
  a database error included.
\<close>

lemma GetOrder_spec:
  assumes "order_backend OT orders ET outbox tx get svc"
    and "GetOrder svc i s = (x, s')"
  shows "unchanged orders outbox s s'
    \<and> (case x of
         Inr order \<Rightarrow> i \<noteq> [] \<and> orders (st_db s) i = Some order
       | Inl e \<Rightarrow> fst (order_mapError e) = (if i = [] then InvalidArgument else NotFound))"
  by (rule order_backend.GetOrder_cases [OF assms])

lemma GetOrder_spec_witness:
  "\<exists>e s'. GetOrder mem_service ''o1'' (example_state OrderStatusPaid [True]) = (Inl e, s')
          \<and> fst (order_mapError e) = NotFound"
proof -
  obtain e s' where run: "GetOrder mem_service ''o1'' (example_state OrderStatusPaid [True]) = (Inl e, s')"
    by (simp add: GetOrder_def run_mem Let_def)
  from GetOrder_spec [OF mem_backend.order_backend_axioms this] have "fst (order_mapError e) = NotFound"
    by simp
  with run show ?thesis by blast
qed

end
