(* ===== verification/OrderSystem.thy ===== *)
theory OrderSystem
  imports OrderService
begin

text \<open>
  The order service as a whole: its four operations and the relay as a step relation over the
  database, the metrics and the broker, with any failure in any step. Each operation is one step
  (\<open>OrderThreads\<close> takes the read and the write of a call apart). What holds in every reachable state: the outbox tells the truth about
  the orders, and every event marked sent was published.
\<close>

section \<open>Steps\<close>

inductive order_step ::
  "'db OrderService \<Rightarrow> ('db, 'k) Relay \<Rightarrow> ('db \<Rightarrow> Order view) \<Rightarrow>
   'db order_state \<times> 'k \<Rightarrow> 'db order_state \<times> 'k \<Rightarrow> bool"
  for svc r orders where
  step_create: "orders (st_db s) (env_id env) = None \<Longrightarrow>
    CreateOrder svc env items s = (x, s') \<Longrightarrow> order_step svc r orders (s, k) (s', k)"
| step_get: "GetOrder svc i s = (x, s') \<Longrightarrow> order_step svc r orders (s, k) (s', k)"
| step_pay: "MarkOrderPaid svc env i s = (x, s') \<Longrightarrow> order_step svc r orders (s, k) (s', k)"
| step_cancel: "CancelOrder svc env i s = (x, s') \<Longrightarrow> order_step svc r orders (s, k) (s', k)"
| step_relay: "processOnce r now (st_db s) k = (y, db', k') \<Longrightarrow>
    order_step svc r orders (s, k) (s\<lparr>st_db := db'\<rparr>, k')"

section \<open>The outbox tells the truth about the orders\<close>

text \<open>The outbox rows of one kind for one order.\<close>

definition event_ids :: "OutboxEvent view \<Rightarrow> string \<Rightarrow> EventType \<Rightarrow> string set" where
  "event_ids out i ty = {k. \<exists>e. out k = Some e \<and> oe_OrderID e = i \<and> oe_EventType e = ty}"

text \<open>
  An order has exactly one creation event, one paid event exactly when it is PAID and one
  cancellation event exactly when it is CANCELLED; no event is for an unknown order.
\<close>

definition status_events :: "Order \<Rightarrow> EventType \<Rightarrow> nat" where
  "status_events order ty =
     (if ty = EventOrderCreated then 1
      else if ty = EventOrderPaid then of_bool (OrderStatus order = OrderStatusPaid)
      else if ty = EventOrderCancelled then of_bool (OrderStatus order = OrderStatusCancelled)
      else 0)"

definition order_truthful :: "Order option \<Rightarrow> (EventType \<Rightarrow> string set) \<Rightarrow> bool" where
  "order_truthful row ids \<longleftrightarrow>
     (case row of
        None \<Rightarrow> (\<forall>ty. ids ty = {})
      | Some order \<Rightarrow> OrderStatus order \<in> {OrderStatusCreated, OrderStatusPaid, OrderStatusCancelled}
                     \<and> (\<forall>ty. card (ids ty) = status_events order ty))"

definition outbox_truthful :: "Order view \<Rightarrow> OutboxEvent view \<Rightarrow> bool" where
  "outbox_truthful ord out \<longleftrightarrow> finite (dom out) \<and> (\<forall>i. order_truthful (ord i) (event_ids out i))"

lemma event_ids_finite: "finite (dom out) \<Longrightarrow> finite (event_ids out i ty)"
  by (rule finite_subset [of _ "dom out"]) (auto simp: event_ids_def)

lemma event_ids_upd:
  "out k = None \<Longrightarrow>
   event_ids (out(k \<mapsto> e)) i ty =
     (if oe_OrderID e = i \<and> oe_EventType e = ty then insert k (event_ids out i ty) else event_ids out i ty)"
  by (auto simp: event_ids_def split: if_splits)

lemma event_ids_new: "out k = None \<Longrightarrow> k \<notin> event_ids out i ty"
  by (auto simp: event_ids_def)

lemma relay_event_ids:
  assumes "\<And>k. relay_row now ms (out k) (out' k)"
  shows "event_ids out' i ty = event_ids out i ty" and "dom out' = dom out"
proof -
  have k: "(\<exists>e. out' k = Some e \<and> oe_OrderID e = i \<and> oe_EventType e = ty)
      \<longleftrightarrow> (\<exists>e. out k = Some e \<and> oe_OrderID e = i \<and> oe_EventType e = ty)" for k
    using assms [of k] by (cases "out k") (auto simp: relay_row_def)
  then show "event_ids out' i ty = event_ids out i ty" by (simp add: event_ids_def)
  show "dom out' = dom out" using relay_row_None [OF assms] by (auto simp: dom_def)
qed

text \<open>Writing one order with one event.\<close>

lemma written_truthful:
  assumes T: "outbox_truthful ord out"
    and w: "order_written svc env order ev ty ord out ord' out'"
    and st: "OrderStatus order \<in> {OrderStatusCreated, OrderStatusPaid, OrderStatusCancelled}"
    and new: "\<And>t. status_events order t
                = (case ord (OrderID order) of None \<Rightarrow> 0 | Some o' \<Rightarrow> status_events o' t) + of_bool (t = ty)"
  shows "outbox_truthful ord' out'"
proof -
  obtain topic payload where ord': "ord' = ord(OrderID order \<mapsto> order)"
    and none: "out (env_event_id env) = None"
    and out': "out' = out(env_event_id env \<mapsto> outbox_event env order ty topic payload)"
    using w by (auto simp: order_written_def)
  have fin: "finite (dom out)" using T by (simp add: outbox_truthful_def)
  have ev: "oe_OrderID (outbox_event env order ty topic payload) = OrderID order"
    "oe_EventType (outbox_event env order ty topic payload) = ty"
    by (simp_all add: outbox_event_def)
  have ids: "event_ids out' i t = (if i = OrderID order \<and> t = ty
      then insert (env_event_id env) (event_ids out i t) else event_ids out i t)" for i t
    unfolding out' event_ids_upd [where out = out and k = "env_event_id env", OF none] by (auto simp: ev)
  have old: "card (event_ids out (OrderID order) t)
      = (case ord (OrderID order) of None \<Rightarrow> 0 | Some o' \<Rightarrow> status_events o' t)" for t
    using T [unfolded outbox_truthful_def, THEN conjunct2, rule_format, of "OrderID order"]
    by (auto simp: order_truthful_def split: option.splits)
  have "card (event_ids out' (OrderID order) t) = status_events order t" for t
    unfolding ids new using event_ids_finite [OF fin] event_ids_new [where out = out and k = "env_event_id env", OF none] by (auto simp: old)
  moreover have "finite (dom out')" using fin by (simp add: out')
  moreover have "event_ids out' i = event_ids out i" if "i \<noteq> OrderID order" for i
    using ids that by (simp add: fun_eq_iff)
  ultimately show ?thesis
    using T st by (simp add: outbox_truthful_def ord' order_truthful_def [of "Some order"])
qed

section \<open>Invariants\<close>

text \<open>What an order keeps for ever: the row never disappears, only its status may change, and only from CREATED.\<close>

definition order_kept :: "Order option \<Rightarrow> Order option \<Rightarrow> bool" where
  "order_kept old new \<longleftrightarrow>
     (case old of
        None \<Rightarrow> True
      | Some o1 \<Rightarrow>
          (\<exists>o2. new = Some o2 \<and> o2\<lparr>OrderStatus := OrderStatus o1\<rparr> = o1
                \<and> (OrderStatus o1 \<in> {OrderStatusPaid, OrderStatusCancelled} \<longrightarrow> o2 = o1)))"

lemma order_kept_None [simp]: "order_kept None new"
  by (simp add: order_kept_def)

lemma order_kept_refl [simp]: "order_kept old old"
  by (simp add: order_kept_def split: option.splits)

lemma Order_status_same: "(order\<lparr>OrderStatus := OrderStatus order\<rparr>) = (order :: Order)"
  by simp

lemma order_kept_Some:
  "order_kept (Some o1) new \<longleftrightarrow>
     (\<exists>o2. new = Some o2 \<and> o2\<lparr>OrderStatus := OrderStatus o1\<rparr> = o1
           \<and> (OrderStatus o1 \<in> {OrderStatusPaid, OrderStatusCancelled} \<longrightarrow> o2 = o1))"
  by (simp add: order_kept_def)

lemma order_kept_trans: "order_kept a b \<Longrightarrow> order_kept b c \<Longrightarrow> order_kept a c"
proof (cases a)
  case (Some o1)
  assume "order_kept a b" "order_kept b c"
  then obtain o2 where o2: "b = Some o2" "o2\<lparr>OrderStatus := OrderStatus o1\<rparr> = o1"
      "OrderStatus o1 \<in> {OrderStatusPaid, OrderStatusCancelled} \<longrightarrow> o2 = o1"
    unfolding Some using order_kept_Some by blast
  with \<open>order_kept b c\<close> obtain o3 where o: "b = Some o2" "o2\<lparr>OrderStatus := OrderStatus o1\<rparr> = o1"
      "OrderStatus o1 \<in> {OrderStatusPaid, OrderStatusCancelled} \<Longrightarrow> o2 = o1"
      "c = Some o3" "o3\<lparr>OrderStatus := OrderStatus o2\<rparr> = o2"
      "OrderStatus o2 \<in> {OrderStatusPaid, OrderStatusCancelled} \<Longrightarrow> o3 = o2"
    using order_kept_Some by blast
  have "o3\<lparr>OrderStatus := OrderStatus o1\<rparr> = (o3\<lparr>OrderStatus := OrderStatus o2\<rparr>)\<lparr>OrderStatus := OrderStatus o1\<rparr>"
    by simp
  also have "\<dots> = o1" by (simp only: o(5) o(2))
  finally have "o3\<lparr>OrderStatus := OrderStatus o1\<rparr> = o1" .
  moreover have "OrderStatus o1 \<in> {OrderStatusPaid, OrderStatusCancelled} \<longrightarrow> o3 = o1"
    using o(3,6) by metis
  ultimately show ?thesis unfolding order_kept_Some Some o(4) by blast
qed (simp add: order_kept_def)

locale order_system =
  order_backend OT orders ET outbox tx get svc + outbox_relay ET outbox orders wr log r
  for OT :: "'db order_table" and orders :: "'db \<Rightarrow> Order view"
    and ET :: "'db outbox_table" and outbox :: "'db \<Rightarrow> OutboxEvent view"
    and tx :: "('db, unit) gorm_transaction" and get svc
    and wr :: "'k kafka_write" and log :: "'k \<Rightarrow> kafka_message list" and r
begin

definition good :: "'db order_state \<times> 'k \<Rightarrow> bool" where
  "good sk \<longleftrightarrow> (case sk of (s, k) \<Rightarrow>
     outbox_truthful (orders (st_db s)) (outbox (st_db s)) \<and> sent_published (outbox (st_db s)) (log k))"

lemma good_unchanged: "good (s, k) \<Longrightarrow> unchanged orders outbox s s' \<Longrightarrow> good (s', k)"
  by (simp add: good_def unchanged_def)

lemma sent_published_new:
  "sent_published out lg \<Longrightarrow> oe_Status e = EventStatusPending \<Longrightarrow> sent_published (out(k \<mapsto> e)) lg"
  by (auto simp: sent_published_def ran_def split: if_splits)

lemma good_written:
  assumes "good (s, k)"
    and w: "order_written svc env order ev ty (orders (st_db s)) (outbox (st_db s))
              (orders (st_db s')) (outbox (st_db s'))"
    and "OrderStatus order \<in> {OrderStatusCreated, OrderStatusPaid, OrderStatusCancelled}"
    and "\<And>t. status_events order t
           = (case orders (st_db s) (OrderID order) of None \<Rightarrow> 0 | Some o' \<Rightarrow> status_events o' t) + of_bool (t = ty)"
  shows "good (s', k)"
proof -
  have "outbox_truthful (orders (st_db s')) (outbox (st_db s'))"
    using assms(1) by (intro written_truthful [OF _ w assms(3,4)]) (simp add: good_def)
  moreover have "sent_published (outbox (st_db s')) (log k)"
    using assms(1) w by (auto simp: good_def order_written_def outbox_event_def intro!: sent_published_new)
  ultimately show ?thesis by (simp add: good_def)
qed

lemma good_status:
  "good (s, k) \<Longrightarrow> orders (st_db s) i = Some order \<Longrightarrow>
   OrderStatus order \<in> {OrderStatusCreated, OrderStatusPaid, OrderStatusCancelled}"
  by (auto simp: good_def outbox_truthful_def order_truthful_def split: option.splits dest!: spec [of _ i])

lemma pay_step:
  assumes "MarkOrderPaid svc env i s = (x, s')" and g: "good (s, k)"
  shows "good (s', k) \<and> (\<forall>j. order_kept (orders (st_db s) j) (orders (st_db s') j))"
proof (cases x)
  case (Inl e)
  with MarkOrderPaid_cases [OF assms(1)] good_unchanged [OF g] show ?thesis by (simp add: unchanged_def)
next
  case (Inr order)
  with MarkOrderPaid_cases [OF assms(1)] obtain old where
    old: "orders (st_db s) i = Some old" "order = old\<lparr>OrderStatus := OrderStatusPaid\<rparr>" "OrderID old = i"
      "OrderStatus old = OrderStatusCreated"
    and w: "order_written svc env order (Paid \<lparr>op_OrderID = i, op_PaidAt = Unix (env_now env)\<rparr>) EventOrderPaid
       (orders (st_db s)) (outbox (st_db s)) (orders (st_db s')) (outbox (st_db s'))"
    by (auto simp: status_change_def)
  have "good (s', k)"
    by (rule good_written [OF g w]) (simp_all add: old status_events_def)
  moreover have "order_kept (orders (st_db s) j) (orders (st_db s') j)" for j
    using order_written_db [OF w] old by (auto simp: order_kept_Some)
  ultimately show ?thesis by simp
qed

lemma cancel_step:
  assumes "CancelOrder svc env i s = (x, s')" and g: "good (s, k)"
  shows "good (s', k) \<and> (\<forall>j. order_kept (orders (st_db s) j) (orders (st_db s') j))"
proof -
  note C = CancelOrder_cases [OF assms(1)]
  have "unchanged orders outbox s s' \<or> (\<exists>old order. orders (st_db s) i = Some old
      \<and> order = old\<lparr>OrderStatus := OrderStatusCancelled\<rparr> \<and> OrderID old = i
      \<and> OrderStatus old \<notin> {OrderStatusPaid, OrderStatusCancelled}
      \<and> order_written svc env order (Cancelled \<lparr>ox_OrderID = i, ox_CancelledAt = Unix (env_now env)\<rparr>)
          EventOrderCancelled (orders (st_db s)) (outbox (st_db s)) (orders (st_db s')) (outbox (st_db s')))"
    using C by (auto simp: status_change_def split: sum.splits)
  then show ?thesis
  proof (elim disjE exE conjE)
    assume "unchanged orders outbox s s'"
    with good_unchanged [OF g] show ?thesis by (simp add: unchanged_def)
  next
    fix old order
    assume old: "orders (st_db s) i = Some old" "order = old\<lparr>OrderStatus := OrderStatusCancelled\<rparr>"
        "OrderID old = i" "OrderStatus old \<notin> {OrderStatusPaid, OrderStatusCancelled}"
      and w: "order_written svc env order (Cancelled \<lparr>ox_OrderID = i, ox_CancelledAt = Unix (env_now env)\<rparr>)
          EventOrderCancelled (orders (st_db s)) (outbox (st_db s)) (orders (st_db s')) (outbox (st_db s'))"
    have c: "OrderStatus old = OrderStatusCreated" using good_status [OF g old(1)] old(4) by auto
    have "good (s', k)"
      by (rule good_written [OF g w]) (simp_all add: old(1,2,3) c status_events_def)
    moreover have "order_kept (orders (st_db s) j) (orders (st_db s') j)" for j
      using order_written_db [OF w] old(1,2,3) c by (auto simp: order_kept_Some)
    ultimately show ?thesis by simp
  qed
qed

lemma create_step:
  assumes "CreateOrder svc env items s = (x, s')" and g: "good (s, k)"
    and new: "orders (st_db s) (env_id env) = None"
  shows "good (s', k) \<and> (\<forall>j. order_kept (orders (st_db s) j) (orders (st_db s') j))"
proof (cases x)
  case (Inl e)
  with CreateOrder_cases [OF assms(1)] good_unchanged [OF g] show ?thesis by (simp add: unchanged_def)
next
  case (Inr order)
  with CreateOrder_cases [OF assms(1)] obtain t where o: "order = new_order env items t"
    and w: "order_written svc env order (created_event order) EventOrderCreated
             (orders (st_db s)) (outbox (st_db s)) (orders (st_db s')) (outbox (st_db s'))" by auto
  have "good (s', k)"
    by (rule good_written [OF g w]) (simp_all add: o new status_events_def)
  moreover have "order_kept (orders (st_db s) i) (orders (st_db s') i)" for i
    using order_written_db [OF w] new by (cases "i = env_id env") (simp_all add: o)
  ultimately show ?thesis by simp
qed

lemma relay_step:
  assumes "processOnce r now (st_db s) k = (y, db', k')" and g: "good (s, k)"
  shows "good (s\<lparr>st_db := db'\<rparr>, k') \<and> orders db' = orders (st_db s)"
proof -
  have s: "sent_published (outbox (st_db s)) (log k)" using g by (simp add: good_def)
  note S = cycle_safe [OF s assms(1)]
  then obtain ms where "\<forall>i. relay_row now ms (outbox (st_db s) i) (outbox db' i)" by auto
  note ids = relay_event_ids [OF this [rule_format]]
  have "event_ids (outbox db') i = event_ids (outbox (st_db s)) i" for i by (rule ext) (rule ids(1))
  with g S show ?thesis by (simp add: good_def outbox_truthful_def ids(2))
qed

lemma good_step:
  assumes "order_step svc r orders (s, k) (s', k')" and g: "good (s, k)"
  shows "good (s', k') \<and> (\<forall>i. order_kept (orders (st_db s) i) (orders (st_db s') i))"
  using assms
proof (induction "(s, k)" "(s', k')" arbitrary: s k s' k' rule: order_step.induct)
  case (step_get i s x s' k)
  with GetOrder_cases [OF step_get(1)] good_unchanged show ?case by (simp add: unchanged_def)
next
  case (step_relay now s k y db' k')
  with relay_step [OF step_relay(1)] show ?case by simp
next
  case (step_create s env items x s' k)
  then show ?case by (intro create_step [OF step_create(2)])
next
  case (step_pay env i s x s' k)
  then show ?case by (intro pay_step [OF step_pay(1)])
next
  case (step_cancel env i s x s' k)
  then show ?case by (intro cancel_step [OF step_cancel(1)])
qed

lemma good_run:
  assumes "(order_step svc r orders)\<^sup>*\<^sup>* sk sk'" and "good sk"
  shows "good sk' \<and> (\<forall>i. order_kept (orders (st_db (fst sk)) i) (orders (st_db (fst sk')) i))"
  using assms
proof (induction rule: rtranclp_induct)
  case (step y z)
  then have "good (fst y, snd y)" "order_step svc r orders (fst y, snd y) (fst z, snd z)" by auto
  from good_step [OF this(2,1)] step show ?case by (auto intro: order_kept_trans)
qed simp

end

interpretation mem_system: order_system "left_table OrderID" mem_orders "right_table oe_ID" mem_outbox
    mem_transaction "OrderRepository_GetOrder (left_table OrderID)" mem_service mem_write mk_log
    "NewRelay (right_table oe_ID) mem_write i b" for i b
  by (intro order_system.intro mem_backend.order_backend_axioms NewRelay_outbox_relay
      right_is_gorm_table mem_writer.kafka_writer_axioms)

section \<open>Properties of the whole service\<close>

lemma truthful_run:
  assumes "order_system OT orders ET outbox tx get svc wr log r"
    and "orders (st_db s0) = Map.empty" and "outbox (st_db s0) = Map.empty"
    and "(order_step svc r orders)\<^sup>*\<^sup>* (s0, k0) (s, k)"
  shows "outbox_truthful (orders (st_db s)) (outbox (st_db s)) \<and> sent_published (outbox (st_db s)) (log k)"
proof -
  have "order_system.good orders outbox log (s0, k0)"
    using assms(2,3) by (simp add: order_system.good_def [OF assms(1)] outbox_truthful_def
        order_truthful_def event_ids_def sent_published_def)
  from order_system.good_run [OF assms(1,4) this] show ?thesis
    by (simp add: order_system.good_def [OF assms(1)])
qed

text \<open>
  C1: As long as calls do not overlap, in every state the service can reach from empty tables,
  whatever calls arrive, whatever fails in them and however often the relay runs, the outbox tells
  the truth about the orders: every order has exactly one creation event, a paid event exactly when
  it is PAID and a cancellation event exactly when it is CANCELLED, there is no event for an
  unknown order, and every event marked sent is in the broker's log. (A step is a whole call or a
  whole relay cycle; what is left of this when payments and cancellations overlap, and that a race
  can leave an order with both events, is shown in theory \<open>OrderThreads\<close>.)
\<close>

theorem outbox_always_truthful:
  assumes "order_system OT orders ET outbox tx get svc wr log r"
    and "orders (st_db s0) = Map.empty" and "outbox (st_db s0) = Map.empty"
    and "(order_step svc r orders)\<^sup>*\<^sup>* (s0, k0) (s, k)"
  shows "outbox_truthful (orders (st_db s)) (outbox (st_db s)) \<and> sent_published (outbox (st_db s)) (log k)"
  by (rule truthful_run [OF assms])

abbreviation empty_state :: "(Order, OutboxEvent) memdb order_state" where
  "empty_state \<equiv> \<lparr>st_db = \<lparr>mem_left = [], mem_right = [], mem_faults = []\<rparr>, st_metrics = zero_metrics [] []\<rparr>"

lemma example_create_rows:
  "\<exists>order row s'. CreateOrder mem_service example_env [usd_item ''p'' 2 500] empty_state = (Inr order, s')
     \<and> OrderID order = ''o2'' \<and> OrderStatus order = OrderStatusCreated \<and> oe_ID row = ''e1''
     \<and> st_db s' = \<lparr>mem_left = [order], mem_right = [row], mem_faults = []\<rparr>"
proof -
  let ?o = "new_order example_env [usd_item ''p'' 2 500] 1000"
  have v: "validateItems [usd_item ''p'' 2 500] = None" by (simp add: validateItems_None)
  have t: "calcTotalUSD [usd_item ''p'' 2 500] ToUSD = Inr 1000"
    by (simp add: calcTotalUSD_def usd_item_def)
  obtain j where j: "enc_event (created_event ?o) = Some j"
    using example_marshal by (auto simp: created_event_def new_order_def)
  have "\<exists>row s'. CreateOrder mem_service example_env [usd_item ''p'' 2 500] empty_state = (Inr ?o, s')
      \<and> oe_ID row = ''e1'' \<and> st_db s' = \<lparr>mem_left = [?o], mem_right = [row], mem_faults = []\<rparr>"
    by (simp add: CreateOrder_write v t run_mem j Let_def)
  then show ?thesis by (elim exE conjE, intro exI conjI) (assumption | simp)+
qed

lemma example_create:
  "\<exists>order s'. CreateOrder mem_service example_env [usd_item ''p'' 2 500] empty_state = (Inr order, s')
     \<and> mem_orders (st_db s') ''o2'' = Some order"
proof -
  obtain order row s' where "CreateOrder mem_service example_env [usd_item ''p'' 2 500] empty_state = (Inr order, s')"
      "OrderID order = ''o2''" "OrderStatus order = OrderStatusCreated" "oe_ID row = ''e1''"
      "st_db s' = \<lparr>mem_left = [order], mem_right = [row], mem_faults = []\<rparr>"
    using example_create_rows by (elim exE conjE)
  then show ?thesis by (intro exI [of _ order] exI [of _ s']) (simp add: lookup_row_def)
qed

theorem outbox_always_truthful_witness:
  "\<exists>order s. CreateOrder mem_service example_env [usd_item ''p'' 2 500] empty_state = (Inr order, s)
     \<and> card (event_ids (mem_outbox (st_db s)) ''o2'' EventOrderCreated) = 1"
proof -
  obtain order s where run: "CreateOrder mem_service example_env [usd_item ''p'' 2 500] empty_state = (Inr order, s)"
    and row: "mem_orders (st_db s) ''o2'' = Some order" using example_create by blast
  let ?k = "\<lparr>mk_log = [], mk_fates = []\<rparr>" and ?r = "NewRelay (right_table oe_ID) mem_write 2 0"
  have "order_step mem_service ?r mem_orders (empty_state, ?k) (s, ?k)"
    using run by (rule step_create [rotated]) (simp add: lookup_row_def)
  then have "(order_step mem_service ?r mem_orders)\<^sup>*\<^sup>* (empty_state, ?k) (s, ?k)" by blast
  from outbox_always_truthful [OF mem_system.order_system_axioms _ _ this]
  have "outbox_truthful (mem_orders (st_db s)) (mem_outbox (st_db s))"
    by (simp add: lookup_row_def fun_eq_iff)
  then have "order_truthful (mem_orders (st_db s) ''o2'') (event_ids (mem_outbox (st_db s)) ''o2'')"
    by (simp add: outbox_truthful_def)
  with run row show ?thesis by (auto simp: order_truthful_def status_events_def)
qed

text \<open>
  C18: As long as calls do not overlap, orders are kept and their end states are final: along any
  run of whole calls and relay cycles from empty tables, with any failures, no order disappears,
  its items, total and creation time never change, and once it is PAID or CANCELLED its row never
  changes again, however many calls and cycles follow. (When a payment and a cancellation overlap,
  a PAID order can become CANCELLED: theory \<open>OrderThreads\<close>.)
\<close>

theorem final_status_stays:
  assumes "order_system OT orders ET outbox tx get svc wr log r"
    and "orders (st_db s0) = Map.empty" and "outbox (st_db s0) = Map.empty"
    and "(order_step svc r orders)\<^sup>*\<^sup>* (s0, k0) (s, k)"
    and "(order_step svc r orders)\<^sup>*\<^sup>* (s, k) (s', k')"
  shows "order_kept (orders (st_db s) i) (orders (st_db s') i)"
proof -
  have "order_system.good orders outbox log (s, k)"
    using truthful_run [OF assms(1-4)] by (simp add: order_system.good_def [OF assms(1)])
  from order_system.good_run [OF assms(1,5) this] show ?thesis by simp
qed

theorem final_status_stays_witness:
  "\<exists>s1 order s2 x s3. MarkOrderPaid mem_service (example_env\<lparr>env_event_id := ''e2''\<rparr>) ''o2'' s1 = (Inr order, s2)
     \<and> OrderStatus order = OrderStatusPaid
     \<and> CancelOrder mem_service (example_env\<lparr>env_event_id := ''e3''\<rparr>) ''o2'' s2 = (x, s3)
     \<and> mem_orders (st_db s3) ''o2'' = Some order"
proof -
  let ?k = "\<lparr>mk_log = [], mk_fates = []\<rparr>" and ?r = "NewRelay (right_table oe_ID) mem_write 2 0"
  let ?step = "order_step mem_service ?r mem_orders"
  obtain order0 row s1 where c: "CreateOrder mem_service example_env [usd_item ''p'' 2 500] empty_state = (Inr order0, s1)"
    and o: "OrderID order0 = ''o2''" "OrderStatus order0 = OrderStatusCreated" "oe_ID row = ''e1''"
    and db: "st_db s1 = \<lparr>mem_left = [order0], mem_right = [row], mem_faults = []\<rparr>"
    using example_create_rows by (elim exE conjE)
  have "\<exists>s2. MarkOrderPaid mem_service (example_env\<lparr>env_event_id := ''e2''\<rparr>) ''o2'' s1
      = (Inr (order0\<lparr>OrderStatus := OrderStatusPaid\<rparr>), s2)
    \<and> mem_left (st_db s2) = [order0\<lparr>OrderStatus := OrderStatusPaid\<rparr>]"
    using o db by (simp add: run_mem Let_def)
  then obtain s2 where p: "MarkOrderPaid mem_service (example_env\<lparr>env_event_id := ''e2''\<rparr>) ''o2'' s1
      = (Inr (order0\<lparr>OrderStatus := OrderStatusPaid\<rparr>), s2)"
    and row2: "mem_left (st_db s2) = [order0\<lparr>OrderStatus := OrderStatusPaid\<rparr>]" by (elim exE conjE)
  obtain x s3 where x: "CancelOrder mem_service (example_env\<lparr>env_event_id := ''e3''\<rparr>) ''o2'' s2 = (x, s3)" by fastforce
  have "?step (empty_state, ?k) (s1, ?k)" using c by (rule step_create [rotated]) (simp add: lookup_row_def)
  moreover have "?step (s1, ?k) (s2, ?k)" by (rule step_pay [OF p])
  ultimately have run: "?step\<^sup>*\<^sup>* (empty_state, ?k) (s2, ?k)" by (auto intro: rtranclp.rtrancl_into_rtrancl)
  have last: "?step\<^sup>*\<^sup>* (s2, ?k) (s3, ?k)" by (rule r_into_rtranclp) (rule step_cancel [OF x])
  have z: "mem_orders (st_db empty_state) = Map.empty" "mem_outbox (st_db empty_state) = Map.empty"
    by (simp_all add: lookup_row_def fun_eq_iff)
  have "mem_orders (st_db s2) ''o2'' = Some (order0\<lparr>OrderStatus := OrderStatusPaid\<rparr>)"
    using row2 o by (simp add: lookup_row_def)
  with final_status_stays [OF mem_system.order_system_axioms z run last, of "''o2''"]
  have "mem_orders (st_db s3) ''o2'' = Some (order0\<lparr>OrderStatus := OrderStatusPaid\<rparr>)"
    by (auto simp: order_kept_Some)
  with p x show ?thesis by (intro exI conjI) (assumption | simp)+
qed

end
