(* ===== verification/BillingModel.thy ===== *)
theory BillingModel
  imports OrderModel
begin

text \<open>
  The billing service's data: \<open>billing_domain/invoice\<close> (invoices, their statuses, the JSON
  column of their amount) and \<open>billing_domain/events\<close> (the events it consumes and how their
  JSON is read, the record of a processed event). The structs for money and items have the
  fields and JSON tags of the order service's, so they are the same records here; a conversion
  between the two is the identity.
\<close>

section \<open>Invoices\<close>

type_synonym InvoiceStatus = string

abbreviation InvoiceStatusPending :: InvoiceStatus where "InvoiceStatusPending \<equiv> ''PENDING''"
abbreviation InvoiceStatusPaid :: InvoiceStatus where "InvoiceStatusPaid \<equiv> ''PAID''"
abbreviation InvoiceStatusCancelled :: InvoiceStatus where "InvoiceStatusCancelled \<equiv> ''CANCELLED''"

type_synonym InvoiceMoney = Money

record Invoice =
  inv_ID :: string
  inv_OrderID :: string
  inv_Amount :: InvoiceMoney
  inv_Status :: InvoiceStatus
  inv_CreatedAt :: gotime
  inv_PaidAt :: "gotime option"

text \<open>The amount as a JSON column; \<open>Scan\<close> reads into the value that is already there.\<close>

definition InvoiceMoney_Value :: "InvoiceMoney \<Rightarrow> driver_value" where
  "InvoiceMoney_Value m = DriverBytes (print_json (enc_Money m))"

definition InvoiceMoney_Scan :: "driver_value \<Rightarrow> InvoiceMoney \<Rightarrow> go_error + InvoiceMoney" where
  "InvoiceMoney_Scan value old =
     (case value of
        DriverBytes bytes \<Rightarrow>
          (case Option.bind (parse_json bytes) (\<lambda>j. dec_Money j old) of
             None \<Rightarrow> Inl (ErrorString ''json: cannot unmarshal'')
           | Some m \<Rightarrow> Inr m)
      | _ \<Rightarrow> Inl (ErrorString ''failed to scan Money''))"

text \<open>
  An invoice's amount survives its JSON column: what \<open>Value\<close> writes, \<open>Scan\<close> reads back
  as the same amount and currency for every currency that is valid UTF-8, whatever the target
  held before.
\<close>

lemma InvoiceMoney_round_trip:
  assumes "utf8_valid (Currency m)"
  shows "InvoiceMoney_Scan (InvoiceMoney_Value m) old = Inr m"
  using assms by (simp add: InvoiceMoney_Scan_def InvoiceMoney_Value_def parse_json_print)

lemma InvoiceMoney_round_trip_witness:
  "InvoiceMoney_Scan (InvoiceMoney_Value \<lparr>Amount = 700, Currency = ''total''\<rparr>) zero_Money
   = Inr \<lparr>Amount = 700, Currency = ''total''\<rparr>"
  by (rule InvoiceMoney_round_trip) simp

section \<open>Events\<close>

record BillingCreatedEvent =
  bc_OrderID :: string
  bc_Total :: Money
  bc_Items :: "OrderItem list"
  bc_CreatedAt :: gotime

record BillingPaidEvent =
  bp_OrderID :: string
  bp_PaidAt :: int64

record BillingCancelledEvent =
  bx_OrderID :: string
  bx_CancelledAt :: int64

record ProcessedEvent =
  pe_EventID :: string
  pe_Topic :: string
  pe_ProcessedAt :: int64

definition zero_Created :: BillingCreatedEvent where
  "zero_Created = \<lparr>bc_OrderID = [], bc_Total = zero_Money, bc_Items = [], bc_CreatedAt = zero_time\<rparr>"

definition zero_Paid :: BillingPaidEvent where
  "zero_Paid = \<lparr>bp_OrderID = [], bp_PaidAt = 0\<rparr>"

definition zero_Cancelled :: BillingCancelledEvent where
  "zero_Cancelled = \<lparr>bx_OrderID = [], bx_CancelledAt = 0\<rparr>"

definition dec_Created :: "json \<Rightarrow> BillingCreatedEvent \<Rightarrow> BillingCreatedEvent option" where
  "dec_Created = decode_struct [''order_id'', ''total'', ''items'', ''created_at'']
     (\<lambda>f v e. if f = ''order_id'' then
                map_option (\<lambda>i. e\<lparr>bc_OrderID := i\<rparr>) (decode_string v (bc_OrderID e))
              else if f = ''total'' then
                map_option (\<lambda>m. e\<lparr>bc_Total := m\<rparr>) (dec_Money v (bc_Total e))
              else if f = ''items'' then
                map_option (\<lambda>is. e\<lparr>bc_Items := is\<rparr>) (decode_slice dec_Item zero_Item v (bc_Items e))
              else map_option (\<lambda>t. e\<lparr>bc_CreatedAt := t\<rparr>) (decode_time v (bc_CreatedAt e)))"

definition dec_Paid :: "json \<Rightarrow> BillingPaidEvent \<Rightarrow> BillingPaidEvent option" where
  "dec_Paid = decode_struct [''order_id'', ''paid_at'']
     (\<lambda>f v e. if f = ''order_id'' then
                map_option (\<lambda>i. e\<lparr>bp_OrderID := i\<rparr>) (decode_string v (bp_OrderID e))
              else map_option (\<lambda>t. e\<lparr>bp_PaidAt := t\<rparr>) (decode_int64 v (bp_PaidAt e)))"

definition dec_Cancelled :: "json \<Rightarrow> BillingCancelledEvent \<Rightarrow> BillingCancelledEvent option" where
  "dec_Cancelled = decode_struct [''order_id'', ''cancelled_at'']
     (\<lambda>f v e. if f = ''order_id'' then
                map_option (\<lambda>i. e\<lparr>bx_OrderID := i\<rparr>) (decode_string v (bx_OrderID e))
              else map_option (\<lambda>t. e\<lparr>bx_CancelledAt := t\<rparr>) (decode_int64 v (bx_CancelledAt e)))"

text \<open>\<open>json.Unmarshal\<close> of a message value into a zero event.\<close>

definition unmarshal_json :: "(json \<Rightarrow> 'e \<Rightarrow> 'e option) \<Rightarrow> 'e \<Rightarrow> string \<Rightarrow> 'e option" where
  "unmarshal_json dec zero value = Option.bind (parse_json value) (\<lambda>j. dec j zero)"

text \<open>The strings of an event are valid UTF-8.\<close>

fun event_utf8 :: "order_event \<Rightarrow> bool" where
  "event_utf8 (Created e) \<longleftrightarrow>
     utf8_valid (oc_OrderID e) \<and> utf8_valid (Currency (oc_Total e)) \<and> list_all item_utf8 (oc_Items e)"
| "event_utf8 (Paid e) \<longleftrightarrow> utf8_valid (op_OrderID e)"
| "event_utf8 (Cancelled e) \<longleftrightarrow> utf8_valid (ox_OrderID e)"

lemma decode_time_text:
  "time_MarshalText t = Some s \<Longrightarrow> decode_time (JStr s) old = Some t"
  by (simp add: decode_time_def time_text_round_trip)

lemma decode_items:
  "list_all item_utf8 items \<Longrightarrow>
   decode_slice dec_Item zero_Item (JArr (map enc_Item items)) old = Some items"
  using decode_elems_map [of items dec_Item enc_Item zero_Item old]
  by (simp add: decode_slice_def list_all_iff)

lemma unmarshal_payload:
  assumes "BuildPayload ev = Inr p"
  shows "\<exists>j. enc_event ev = Some j \<and> unmarshal_json dec zero p = dec j zero"
  using parse_BuildPayload [OF assms] by (auto simp: unmarshal_json_def)

lemma unmarshal_Created:
  assumes "BuildPayload (Created e) = Inr p" and "event_utf8 (Created e)"
  shows "unmarshal_json dec_Created zero_Created p =
    Some \<lparr>bc_OrderID = oc_OrderID e, bc_Total = oc_Total e, bc_Items = oc_Items e, bc_CreatedAt = oc_CreatedAt e\<rparr>"
proof -
  obtain j where j: "enc_event (Created e) = Some j"
    and u: "unmarshal_json dec_Created zero_Created p = dec_Created j zero_Created"
    using unmarshal_payload [OF assms(1), of dec_Created zero_Created] by (elim exE conjE)
  obtain t where t: "time_MarshalText (oc_CreatedAt e) = Some t"
    using j by (auto split: option.splits)
  have v: "utf8_valid (oc_OrderID e)" "utf8_valid (Currency (oc_Total e))" "list_all item_utf8 (oc_Items e)"
    using assms(2) by simp_all
  have "j = JObj [member ''order_id'' (json_string (oc_OrderID e)), member ''total'' (enc_Money (oc_Total e)),
      member ''items'' (JArr (map enc_Item (oc_Items e))), member ''created_at'' (JStr t)]"
    using j t by simp
  then show ?thesis
    unfolding u
    by (simp add: dec_Created_def decode_struct_def zero_Created_def decode_items v decode_time_text [OF t])
qed

lemma unmarshal_Paid:
  assumes "BuildPayload (Paid e) = Inr p" and "event_utf8 (Paid e)"
  shows "unmarshal_json dec_Paid zero_Paid p = Some \<lparr>bp_OrderID = op_OrderID e, bp_PaidAt = op_PaidAt e\<rparr>"
  using unmarshal_payload [OF assms(1), of dec_Paid zero_Paid] assms(2)
  by (auto simp: dec_Paid_def decode_struct_def zero_Paid_def)

lemma unmarshal_Cancelled:
  assumes "BuildPayload (Cancelled e) = Inr p" and "event_utf8 (Cancelled e)"
  shows "unmarshal_json dec_Cancelled zero_Cancelled p =
    Some \<lparr>bx_OrderID = ox_OrderID e, bx_CancelledAt = ox_CancelledAt e\<rparr>"
  using unmarshal_payload [OF assms(1), of dec_Cancelled zero_Cancelled] assms(2)
  by (auto simp: dec_Cancelled_def decode_struct_def zero_Cancelled_def)

end
