(* ===== verification/BillingRepo.thy ===== *)
theory BillingRepo
  imports BillingModel Gorm
begin

text \<open>
  The package \<open>billing_service/internal/repository\<close>: the repository of invoices, the one of
  processed events, and the read repository behind the queries. The two interfaces the rest of
  the service uses are locales here, and the repositories over any table that meets the
  contract of GORM satisfy them.
\<close>

type_synonym 'db invoice_table = "('db, Invoice) gorm_table_ops"
type_synonym 'db processed_table = "('db, ProcessedEvent) gorm_table_ops"

section \<open>Invoices\<close>

record 'db BillingRepositoryInterface =
  repo_Create :: "Invoice \<Rightarrow> 'db \<Rightarrow> go_error option \<times> 'db"
  repo_Get :: "string \<Rightarrow> 'db \<Rightarrow> (go_error + Invoice) \<times> 'db"
  repo_UpdateStatus :: "string \<Rightarrow> InvoiceStatus \<Rightarrow> gotime option \<Rightarrow> 'db \<Rightarrow> go_error option \<times> 'db"

definition BillingRepository_Create :: "'db invoice_table \<Rightarrow> Invoice \<Rightarrow> 'db \<Rightarrow> go_error option \<times> 'db" where
  "BillingRepository_Create db iv s =
     (case gorm_Create db iv s of
        (Some err, s') \<Rightarrow> (Some err, s')
      | (None, s') \<Rightarrow> (None, s'))"

definition BillingRepository_Get :: "'db invoice_table \<Rightarrow> string \<Rightarrow> 'db \<Rightarrow> (go_error + Invoice) \<times> 'db" where
  "BillingRepository_Get db orderID s =
     (case gorm_First db (\<lambda>iv. inv_OrderID iv = orderID) s of
        (Inl err, s') \<Rightarrow>
          if is_RecordNotFound err then (Inl err, s')
          else (Inl (WrapErr ''failed to get invoice: '' err), s')
      | (Inr invoice, s') \<Rightarrow> (Inr invoice, s'))"

definition set_status :: "InvoiceStatus \<Rightarrow> gotime option \<Rightarrow> Invoice \<Rightarrow> Invoice" where
  "set_status status paidAt iv =
     (case paidAt of
        None \<Rightarrow> iv\<lparr>inv_Status := status\<rparr>
      | Some t \<Rightarrow> iv\<lparr>inv_Status := status, inv_PaidAt := Some t\<rparr>)"

definition BillingRepository_UpdateStatus ::
  "'db invoice_table \<Rightarrow> string \<Rightarrow> InvoiceStatus \<Rightarrow> gotime option \<Rightarrow> 'db \<Rightarrow> go_error option \<times> 'db" where
  "BillingRepository_UpdateStatus db orderID status paidAt s =
     (case gorm_Updates db (\<lambda>iv. inv_OrderID iv = orderID) (set_status status paidAt) s of
        (Inl err, s') \<Rightarrow> (Some (WrapErr ''failed to update invoice: '' err), s')
      | (Inr rowsAffected, s') \<Rightarrow>
          if rowsAffected = 0 then (Some (ErrorString ''invoice not found''), s') else (None, s'))"

definition NewBillingRepository :: "'db invoice_table \<Rightarrow> 'db BillingRepositoryInterface" where
  "NewBillingRepository db =
     \<lparr>repo_Create = BillingRepository_Create db, repo_Get = BillingRepository_Get db,
      repo_UpdateStatus = BillingRepository_UpdateStatus db\<rparr>"

lemma set_status_simps [simp]:
  "inv_OrderID (set_status st p iv) = inv_OrderID iv" "inv_Status (set_status st p iv) = st"
  "inv_ID (set_status st p iv) = inv_ID iv" "inv_Amount (set_status st p iv) = inv_Amount iv"
  "inv_CreatedAt (set_status st p iv) = inv_CreatedAt iv"
  "inv_PaidAt (set_status st (Some t) iv) = Some t" "inv_PaidAt (set_status st None iv) = inv_PaidAt iv"
  by (simp_all add: set_status_def split: option.splits)

locale billing_repository =
  fixes repo :: "'db BillingRepositoryInterface"
    and invoices :: "'db \<Rightarrow> Invoice view" and others :: "'db \<Rightarrow> 'rest"
  assumes invoices_key: "invoices s i = Some iv \<Longrightarrow> inv_OrderID iv = i"
    and invoices_finite: "finite (dom (invoices s))"
    and Create_ok: "repo_Create repo iv s = (None, s') \<Longrightarrow>
        invoices s (inv_OrderID iv) = None
        \<and> invoices s' = (invoices s)(inv_OrderID iv \<mapsto> iv) \<and> others s' = others s"
    and Create_err: "repo_Create repo iv s = (Some e, s') \<Longrightarrow> invoices s' = invoices s \<and> others s' = others s"
    and Get_ok: "repo_Get repo i s = (Inr iv, s') \<Longrightarrow> invoices s i = Some iv"
    and Get_none: "repo_Get repo i s = (Inl e, s') \<Longrightarrow> is_RecordNotFound e \<Longrightarrow> invoices s i = None"
    and Get_frame: "repo_Get repo i s = (x, s') \<Longrightarrow> invoices s' = invoices s \<and> others s' = others s"
    and Update_ok: "repo_UpdateStatus repo i st p s = (None, s') \<Longrightarrow>
        (\<exists>iv. invoices s i = Some iv \<and> invoices s' = (invoices s)(i \<mapsto> set_status st p iv))
        \<and> others s' = others s"
    and Update_err: "repo_UpdateStatus repo i st p s = (Some e, s') \<Longrightarrow> invoices s' = invoices s \<and> others s' = others s"

lemma BillingRepository_contract:
  assumes "gorm_table IT invoices inv_OrderID others"
  shows "billing_repository (NewBillingRepository IT) invoices others"
proof -
  note fields = NewBillingRepository_def BillingRepository_Create_def BillingRepository_Get_def
    BillingRepository_UpdateStatus_def
  note C = gorm_table.Create_ok [OF assms] gorm_table.Create_err [OF assms]
  note F = gorm_table.First_key_ok [OF assms] gorm_table.First_key_none [OF assms] gorm_table.First_frame [OF assms]
  note U = gorm_table.Updates_key_ok [OF assms] gorm_table.Updates_err [OF assms]
  show ?thesis
  proof (unfold_locales, goal_cases)
    case (1 s i iv) then show ?case by (rule gorm_table.rows_key [OF assms])
  next
    case (2 s) show ?case by (rule gorm_table.rows_finite [OF assms])
  next
    case (3 iv s s') then show ?case using C(1) by (auto simp: fields split: prod.splits option.splits)
  next
    case (4 iv s e s') then show ?case using C(2) by (auto simp: fields split: prod.splits option.splits)
  next
    case (5 i s iv s')
    then show ?case using F(1) by (auto simp: fields split: prod.splits sum.splits if_splits)
  next
    case (6 i s e s')
    then show ?case using F(2) by (auto simp: fields split: prod.splits sum.splits if_splits)
  next
    case (7 i s x s')
    then show ?case using F(3) by (auto simp: fields split: prod.splits sum.splits if_splits)
  next
    case (8 i st p s s')
    then obtain n where n: "gorm_Updates IT (\<lambda>iv. inv_OrderID iv = i) (set_status st p) s = (Inr n, s')" "n \<noteq> 0"
      by (auto simp: fields split: prod.splits sum.splits if_splits)
    from U(1-3) [OF n(1)] n(2) show ?case by (auto split: option.splits)
  next
    case (9 i st p s e s')
    consider (err) e' where "gorm_Updates IT (\<lambda>iv. inv_OrderID iv = i) (set_status st p) s = (Inl e', s')"
      | (none) "gorm_Updates IT (\<lambda>iv. inv_OrderID iv = i) (set_status st p) s = (Inr 0, s')"
      using 9 by (auto simp: fields split: prod.splits sum.splits if_splits)
    then show ?case
    proof cases
      case err with U(4) show ?thesis by blast
    next
      case none
      from U(1-3) [OF this] show ?thesis by (auto simp: fun_upd_idem)
    qed
  qed
qed

interpretation mem_billing_repo: billing_repository "NewBillingRepository (left_table inv_OrderID)"
    "\<lambda>s. lookup_row inv_OrderID (mem_left s)" "\<lambda>s. lookup_row pe_EventID (mem_right s)"
  by (rule BillingRepository_contract [OF left_is_gorm_table])

section \<open>Processed events\<close>

record 'db ProcessedEventRepository =
  proc_Exists :: "string \<Rightarrow> 'db \<Rightarrow> (go_error + bool) \<times> 'db"
  proc_Save :: "gotime \<Rightarrow> string \<Rightarrow> string \<Rightarrow> 'db \<Rightarrow> go_error option \<times> 'db"

definition eventRepository_Exists :: "'db processed_table \<Rightarrow> string \<Rightarrow> 'db \<Rightarrow> (go_error + bool) \<times> 'db" where
  "eventRepository_Exists db eventID s =
     (case gorm_First db (\<lambda>e. pe_EventID e = eventID) s of
        (Inl err, s') \<Rightarrow> if is_RecordNotFound err then (Inr False, s') else (Inl err, s')
      | (Inr _, s') \<Rightarrow> (Inr True, s'))"

definition eventRepository_Save ::
  "'db processed_table \<Rightarrow> gotime \<Rightarrow> string \<Rightarrow> string \<Rightarrow> 'db \<Rightarrow> go_error option \<times> 'db" where
  "eventRepository_Save db now eventID topic =
     gorm_Create db \<lparr>pe_EventID = eventID, pe_Topic = topic, pe_ProcessedAt = Unix now\<rparr>"

definition NewProcessedEventRepo :: "'db processed_table \<Rightarrow> 'db ProcessedEventRepository" where
  "NewProcessedEventRepo db =
     \<lparr>proc_Exists = eventRepository_Exists db, proc_Save = eventRepository_Save db\<rparr>"

locale processed_repository =
  fixes proc :: "'db ProcessedEventRepository"
    and processed :: "'db \<Rightarrow> ProcessedEvent view" and others :: "'db \<Rightarrow> 'rest"
  assumes Exists_true: "proc_Exists proc i s = (Inr True, s') \<Longrightarrow> processed s i \<noteq> None"
    and Exists_false: "proc_Exists proc i s = (Inr False, s') \<Longrightarrow> processed s i = None"
    and Exists_frame: "proc_Exists proc i s = (x, s') \<Longrightarrow> processed s' = processed s \<and> others s' = others s"
    and Save_ok: "proc_Save proc now i topic s = (None, s') \<Longrightarrow>
        processed s i = None
        \<and> processed s' = (processed s)(i \<mapsto> \<lparr>pe_EventID = i, pe_Topic = topic, pe_ProcessedAt = Unix now\<rparr>)
        \<and> others s' = others s"
    and Save_err: "proc_Save proc now i topic s = (Some e, s') \<Longrightarrow>
        processed s' = processed s \<and> others s' = others s"

lemma eventRepository_contract:
  assumes "gorm_table PT processed pe_EventID others"
  shows "processed_repository (NewProcessedEventRepo PT) processed others"
proof -
  note fields = NewProcessedEventRepo_def eventRepository_Exists_def eventRepository_Save_def
  note C = gorm_table.Create_ok [OF assms] gorm_table.Create_err [OF assms]
  note F = gorm_table.First_key_ok [OF assms] gorm_table.First_key_none [OF assms] gorm_table.First_frame [OF assms]
  show ?thesis
  proof (unfold_locales, goal_cases)
    case (1 i s s')
    then show ?case using F(1) by (auto simp: fields split: prod.splits sum.splits if_splits)
  next
    case (2 i s s')
    then show ?case using F(2) by (auto simp: fields split: prod.splits sum.splits if_splits)
  next
    case (3 i s x s')
    then show ?case using F(3) by (auto simp: fields split: prod.splits sum.splits if_splits)
  next
    case (4 now i topic s s')
    then have "gorm_Create PT \<lparr>pe_EventID = i, pe_Topic = topic, pe_ProcessedAt = Unix now\<rparr> s = (None, s')"
      by (simp add: fields)
    from C(1) [OF this] show ?case by simp
  next
    case (5 now i topic s e s')
    then have "gorm_Create PT \<lparr>pe_EventID = i, pe_Topic = topic, pe_ProcessedAt = Unix now\<rparr> s = (Some e, s')"
      by (simp add: fields)
    from C(2) [OF this] show ?case by simp
  qed
qed

interpretation mem_processed_repo: processed_repository "NewProcessedEventRepo (right_table pe_EventID)"
    "\<lambda>s. lookup_row pe_EventID (mem_right s)" "\<lambda>s. lookup_row inv_OrderID (mem_left s)"
  by (rule eventRepository_contract [OF right_is_gorm_table])

section \<open>Reading for queries\<close>

record BillingStats =
  TotalInvoices :: int64
  PaidInvoices :: int64
  PendingInvoices :: int64
  CancelledInvoices :: int64
  TotalRevenue :: InvoiceMoney

definition InvoiceReadRepository_GetByOrderID ::
  "'db invoice_table \<Rightarrow> string \<Rightarrow> 'db \<Rightarrow> (go_error + Invoice) \<times> 'db" where
  "InvoiceReadRepository_GetByOrderID db orderID s =
     (case gorm_First db (\<lambda>iv. inv_OrderID iv = orderID) s of
        (Inl err, s') \<Rightarrow>
          if is_RecordNotFound err then
            (Inl (AppErr (ErrNotFound (''invoice not found for order '' @ orderID))), s')
          else (Inl err, s')
      | (Inr invoice, s') \<Rightarrow> (Inr invoice, s'))"

text \<open>\<open>ORDER BY created_at DESC\<close> is the key \<open>- created_at\<close>.\<close>

definition list_query :: "InvoiceStatus option \<Rightarrow> int64 \<Rightarrow> int64 \<Rightarrow> Invoice gorm_query" where
  "list_query status limit offset =
     \<lparr>q_where = (\<lambda>iv. case status of None \<Rightarrow> True | Some st \<Rightarrow> inv_Status iv = st),
      q_order = (\<lambda>iv. - inv_CreatedAt iv), q_limit = limit, q_offset = offset\<rparr>"

definition InvoiceReadRepository_List ::
  "'db invoice_table \<Rightarrow> InvoiceStatus option \<Rightarrow> int64 \<Rightarrow> int64 \<Rightarrow> 'db \<Rightarrow> (go_error + Invoice list) \<times> 'db" where
  "InvoiceReadRepository_List db status limit offset = gorm_Find db (list_query status limit offset)"

definition stats_body :: "'db invoice_table \<Rightarrow> 'db \<Rightarrow> (go_error + BillingStats) \<times> 'db" where
  "stats_body tx s =
     (case gorm_CountSum tx (\<lambda>iv. inv_Status iv = InvoiceStatusPaid) (\<lambda>iv. Amount (inv_Amount iv)) s of
        (Inl err, s1) \<Rightarrow> (Inl err, s1)
      | (Inr (count, revenue), s1) \<Rightarrow>
     (case gorm_Count tx (\<lambda>_. True) s1 of
        (Inl err, s2) \<Rightarrow> (Inl err, s2)
      | (Inr total', s2) \<Rightarrow>
     (case gorm_Count tx (\<lambda>iv. inv_Status iv = InvoiceStatusPending) s2 of
        (Inl err, s3) \<Rightarrow> (Inl err, s3)
      | (Inr pending', s3) \<Rightarrow>
     (case gorm_Count tx (\<lambda>iv. inv_Status iv = InvoiceStatusCancelled) s3 of
        (Inl err, s4) \<Rightarrow> (Inl err, s4)
      | (Inr cancelled, s4) \<Rightarrow>
          (Inr \<lparr>TotalInvoices = total', PaidInvoices = count, PendingInvoices = pending',
                CancelledInvoices = cancelled,
                TotalRevenue = \<lparr>Amount = revenue, Currency = ''USD''\<rparr>\<rparr>, s4)))))"

definition InvoiceReadRepository_GetStats ::
  "'db invoice_table \<Rightarrow> ('db, BillingStats) gorm_transaction \<Rightarrow> 'db \<Rightarrow> (go_error + BillingStats) \<times> 'db" where
  "InvoiceReadRepository_GetStats db tx = tx (stats_body db)"

text \<open>What the statistics of a set of invoices are.\<close>

definition with_status :: "InvoiceStatus \<Rightarrow> Invoice view \<Rightarrow> Invoice set" where
  "with_status st m = {iv \<in> ran m. inv_Status iv = st}"

definition stats_of :: "Invoice view \<Rightarrow> BillingStats \<Rightarrow> bool" where
  "stats_of m st \<longleftrightarrow>
     sint (TotalInvoices st) = int (card (ran m))
     \<and> sint (PaidInvoices st) = int (card (with_status InvoiceStatusPaid m))
     \<and> sint (PendingInvoices st) = int (card (with_status InvoiceStatusPending m))
     \<and> sint (CancelledInvoices st) = int (card (with_status InvoiceStatusCancelled m))
     \<and> Currency (TotalRevenue st) = ''USD''
     \<and> sint (Amount (TotalRevenue st)) = (\<Sum>iv \<in> with_status InvoiceStatusPaid m. sint (Amount (inv_Amount iv)))"

lemma stats_body_ok:
  assumes T: "gorm_table IT invoices inv_OrderID others"
    and run: "stats_body IT s = (Inr st, s')"
  shows "stats_of (invoices s) st \<and> invoices s' = invoices s \<and> others s' = others s"
proof -
  obtain n t s1 where 1: "gorm_CountSum IT (\<lambda>iv. inv_Status iv = InvoiceStatusPaid) (\<lambda>iv. Amount (inv_Amount iv)) s
      = (Inr (n, t), s1)"
    using run by (auto simp: stats_body_def split: prod.splits sum.splits)
  obtain a s2 where 2: "gorm_Count IT (\<lambda>_. True) s1 = (Inr a, s2)"
    using run 1 by (auto simp: stats_body_def split: prod.splits sum.splits)
  obtain p s3 where 3: "gorm_Count IT (\<lambda>iv. inv_Status iv = InvoiceStatusPending) s2 = (Inr p, s3)"
    using run 1 2 by (auto simp: stats_body_def split: prod.splits sum.splits)
  obtain c where 4: "gorm_Count IT (\<lambda>iv. inv_Status iv = InvoiceStatusCancelled) s3 = (Inr c, s')"
    and st: "st = \<lparr>TotalInvoices = a, PaidInvoices = n, PendingInvoices = p, CancelledInvoices = c,
                TotalRevenue = \<lparr>Amount = t, Currency = ''USD''\<rparr>\<rparr>"
    using run 1 2 3 by (auto simp: stats_body_def split: prod.splits sum.splits)
  note F = gorm_table.CountSum_frame [OF T 1] gorm_table.Count_frame [OF T 2]
    gorm_table.Count_frame [OF T 3] gorm_table.Count_frame [OF T 4]
  show ?thesis
    using gorm_table.CountSum_ok [OF T 1] gorm_table.Count_ok [OF T 2] gorm_table.Count_ok [OF T 3]
      gorm_table.Count_ok [OF T 4] F
    by (simp add: stats_of_def st with_status_def)
qed

end
