(* ===== verification/InvoiceQuery.thy ===== *)
theory InvoiceQuery
  imports BillingRepo
begin

text \<open>
  The package \<open>billing_service/internal/query\<close> over the read repository: looking an invoice up
  by its order, listing invoices in pages whose size is clamped, and the statistics.
\<close>

record 'db BillingReadRepository =
  read_List :: "InvoiceStatus option \<Rightarrow> int64 \<Rightarrow> int64 \<Rightarrow> 'db \<Rightarrow> (go_error + Invoice list) \<times> 'db"
  read_GetStats :: "'db \<Rightarrow> (go_error + BillingStats) \<times> 'db"
  read_GetByOrderID :: "string \<Rightarrow> 'db \<Rightarrow> (go_error + Invoice) \<times> 'db"

definition NewInvoiceReadRepository ::
  "'db invoice_table \<Rightarrow> ('db, BillingStats) gorm_transaction \<Rightarrow> 'db BillingReadRepository" where
  "NewInvoiceReadRepository db tx =
     \<lparr>read_List = InvoiceReadRepository_List db,
      read_GetStats = InvoiceReadRepository_GetStats db tx,
      read_GetByOrderID = InvoiceReadRepository_GetByOrderID db\<rparr>"

definition QueryService_GetByOrderID ::
  "'db BillingReadRepository \<Rightarrow> string \<Rightarrow> 'db \<Rightarrow> (go_error + Invoice) \<times> 'db" where
  "QueryService_GetByOrderID repo orderID = read_GetByOrderID repo orderID"

definition clamp_limit :: "int64 \<Rightarrow> int64" where
  "clamp_limit limit =
     (let limit1 = (if sint limit \<le> 0 then 20 else limit)
      in if sint limit1 > 100 then 100 else limit1)"

definition QueryService_List ::
  "'db BillingReadRepository \<Rightarrow> InvoiceStatus option \<Rightarrow> int64 \<Rightarrow> int64 \<Rightarrow> 'db
   \<Rightarrow> (go_error + Invoice list) \<times> 'db" where
  "QueryService_List repo status limit offset = read_List repo status (clamp_limit limit) offset"

definition QueryService_GetStats :: "'db BillingReadRepository \<Rightarrow> 'db \<Rightarrow> (go_error + BillingStats) \<times> 'db" where
  "QueryService_GetStats repo = read_GetStats repo"

lemma clamp_limit_bounds: "1 \<le> sint (clamp_limit l)" "sint (clamp_limit l) \<le> 100"
  by (auto simp: clamp_limit_def Let_def)

lemma clamp_limit_le: "0 < sint l \<Longrightarrow> sint (clamp_limit l) \<le> sint l"
  by (auto simp: clamp_limit_def Let_def)

lemma clamp_limit_id: "1 \<le> sint l \<Longrightarrow> sint l \<le> 100 \<Longrightarrow> clamp_limit l = l"
  by (auto simp: clamp_limit_def Let_def)

lemma list_page:
  assumes T: "gorm_table IT invoices inv_OrderID others"
    and run: "QueryService_List (NewInvoiceReadRepository IT tx) status limit offset s = (Inr page, s')"
  shows "query_result (list_query status (clamp_limit limit) offset) (invoices s) page
    \<and> length page \<le> 100 \<and> (0 < sint limit \<longrightarrow> int (length page) \<le> sint limit)
    \<and> sorted_wrt (\<lambda>a b. inv_CreatedAt b \<le> inv_CreatedAt a) page \<and> distinct page
    \<and> (\<forall>iv \<in> set page. invoices s (inv_OrderID iv) = Some iv
          \<and> (\<forall>st. status = Some st \<longrightarrow> inv_Status iv = st))
    \<and> invoices s' = invoices s \<and> others s' = others s"
proof -
  let ?q = "list_query status (clamp_limit limit) offset"
  have F: "gorm_Find IT ?q s = (Inr page, s')"
    using run by (simp add: QueryService_List_def NewInvoiceReadRepository_def InvoiceReadRepository_List_def)
  have pos: "0 < sint (q_limit ?q)" using clamp_limit_bounds(1) [of limit] by (simp add: list_query_def)
  have len: "int (length page) \<le> sint (clamp_limit limit)"
    using gorm_table.Find_length [OF T F pos] by (simp add: list_query_def)
  have srt: "sorted (map (\<lambda>iv. - inv_CreatedAt iv) page)" "distinct page"
    using gorm_table.Find_sorted [OF T F pos] by (auto simp: list_query_def)
  have "sorted_wrt (\<lambda>a b. inv_CreatedAt b \<le> inv_CreatedAt a) page"
    using srt(1) by (simp add: sorted_map)
  moreover have "\<forall>iv \<in> set page. invoices s (inv_OrderID iv) = Some iv
          \<and> (\<forall>st. status = Some st \<longrightarrow> inv_Status iv = st)"
    using gorm_table.Find_subset [OF T F pos] by (auto simp: list_query_def split: option.splits)
  moreover have "length page \<le> 100" using len clamp_limit_bounds(2) [of limit] by linarith
  moreover have "0 < sint limit \<longrightarrow> int (length page) \<le> sint limit"
    using len clamp_limit_le [of limit] by linarith
  ultimately show ?thesis
    using gorm_table.Find_ok [OF T F pos] gorm_table.Find_frame [OF T F] srt(2) by simp
qed

text \<open>
  C27: A listing is a page of the stored invoices: whatever limit and offset the request carries,
  the page has between 1 and 100 places (20 when the limit is not positive, never more than a
  positive limit asks), it holds the stored invoices of the wanted status from the offset on, in
  descending order of creation, without repetition, and reading it changes nothing.
\<close>

theorem List_is_a_page:
  assumes T: "gorm_table IT invoices inv_OrderID others"
    and run: "QueryService_List (NewInvoiceReadRepository IT tx) status limit offset s = (Inr page, s')"
  shows "query_result (list_query status (clamp_limit limit) offset) (invoices s) page
    \<and> length page \<le> 100 \<and> (0 < sint limit \<longrightarrow> int (length page) \<le> sint limit)
    \<and> sorted_wrt (\<lambda>a b. inv_CreatedAt b \<le> inv_CreatedAt a) page \<and> distinct page
    \<and> (\<forall>iv \<in> set page. invoices s (inv_OrderID iv) = Some iv
          \<and> (\<forall>st. status = Some st \<longrightarrow> inv_Status iv = st))
    \<and> invoices s' = invoices s \<and> others s' = others s"
  by (rule list_page [OF assms])

definition example_invoice :: "string \<Rightarrow> InvoiceStatus \<Rightarrow> gotime \<Rightarrow> Invoice" where
  "example_invoice i st t =
     \<lparr>inv_ID = i, inv_OrderID = i, inv_Amount = \<lparr>Amount = 700, Currency = ''USD''\<rparr>, inv_Status = st,
      inv_CreatedAt = t, inv_PaidAt = None\<rparr>"

lemma example_invoice_simps [simp]:
  "inv_OrderID (example_invoice i st t) = i" "inv_Status (example_invoice i st t) = st"
  "inv_CreatedAt (example_invoice i st t) = t" "Amount (inv_Amount (example_invoice i st t)) = 700"
  by (simp_all add: example_invoice_def)

type_synonym billing_mem = "(Invoice, ProcessedEvent) memdb"

definition example_billing :: billing_mem where
  "example_billing = \<lparr>mem_left = [example_invoice ''a'' InvoiceStatusPending 5,
     example_invoice ''b'' InvoiceStatusPaid 7], mem_right = [], mem_faults = []\<rparr>"

theorem List_is_a_page_witness:
  "\<exists>page s'. QueryService_List (NewInvoiceReadRepository (left_table inv_OrderID) mem_transaction)
      (Some InvoiceStatusPaid) 500 0 example_billing = (Inr page, s')
    \<and> length page \<le> 100 \<and> (\<forall>iv \<in> set page. inv_Status iv = InvoiceStatusPaid)"
proof -
  obtain page s' where run: "QueryService_List (NewInvoiceReadRepository (left_table inv_OrderID) mem_transaction)
      (Some InvoiceStatusPaid) 500 0 example_billing = (Inr page, s')"
    by (simp add: QueryService_List_def NewInvoiceReadRepository_def InvoiceReadRepository_List_def
        mem_store example_billing_def Let_def)
  from List_is_a_page [OF left_is_gorm_table [where h = "\<lambda>x. x"] run] run show ?thesis by blast
qed

text \<open>
  C26: The statistics are those of the invoice table: the counts of all, paid, pending and
  cancelled invoices and the sum of the amounts of the paid ones, in dollars; when every stored
  status is one of the three, the three counts add up to the total.
\<close>

theorem GetStats_correct:
  assumes T: "gorm_table IT invoices inv_OrderID others"
    and X: "gorm_transaction tx invoices"
    and run: "QueryService_GetStats (NewInvoiceReadRepository IT tx) s = (Inr st, s')"
  shows "stats_of (invoices s) st \<and> invoices s' = invoices s
    \<and> ((\<forall>iv \<in> ran (invoices s). inv_Status iv \<in> {InvoiceStatusPending, InvoiceStatusPaid, InvoiceStatusCancelled})
       \<longrightarrow> sint (TotalInvoices st) = sint (PaidInvoices st) + sint (PendingInvoices st) + sint (CancelledInvoices st))"
proof -
  have "tx (stats_body IT) s = (Inr st, s')"
    using run by (simp add: QueryService_GetStats_def NewInvoiceReadRepository_def InvoiceReadRepository_GetStats_def)
  from gorm_transaction.tx_ok [OF X this] obtain s1 s2 where
    s: "invoices s1 = invoices s" "stats_body IT s1 = (Inr st, s2)" "invoices s' = invoices s2" by auto
  note B = stats_body_ok [OF T s(2)]
  have so: "stats_of (invoices s) st" "invoices s' = invoices s" using B s by simp_all
  have fin: "finite (ran (invoices s))" by (rule gorm_table.finite_ran [OF T])
  have "card (ran (invoices s)) = card (with_status InvoiceStatusPaid (invoices s))
      + card (with_status InvoiceStatusPending (invoices s)) + card (with_status InvoiceStatusCancelled (invoices s))"
    if all: "\<forall>iv \<in> ran (invoices s). inv_Status iv \<in> {InvoiceStatusPending, InvoiceStatusPaid, InvoiceStatusCancelled}"
  proof -
    let ?P = "with_status InvoiceStatusPaid (invoices s)" and ?N = "with_status InvoiceStatusPending (invoices s)"
      and ?C = "with_status InvoiceStatusCancelled (invoices s)"
    have eq: "ran (invoices s) = (?P \<union> ?N) \<union> ?C" using all by (auto simp: with_status_def)
    have "finite (with_status st (invoices s))" for st using fin by (simp add: with_status_def)
    moreover have "?P \<inter> ?N = {}" "(?P \<union> ?N) \<inter> ?C = {}" by (auto simp: with_status_def)
    ultimately have "card ((?P \<union> ?N) \<union> ?C) = card ?P + card ?N + card ?C"
      by (simp add: card_Un_disjoint)
    then show ?thesis using arg_cong [OF eq, of card] by simp
  qed
  then show ?thesis using so by (auto simp: stats_of_def)
qed

theorem GetStats_correct_witness:
  "\<exists>st s'. QueryService_GetStats (NewInvoiceReadRepository (left_table inv_OrderID) mem_transaction)
      example_billing = (Inr st, s') \<and> sint (TotalInvoices st) = 2 \<and> sint (Amount (TotalRevenue st)) = 700"
proof -
  obtain st s' where run: "QueryService_GetStats (NewInvoiceReadRepository (left_table inv_OrderID) mem_transaction)
      example_billing = (Inr st, s')"
    by (simp add: QueryService_GetStats_def NewInvoiceReadRepository_def InvoiceReadRepository_GetStats_def
        mem_transaction_def stats_body_def mem_store example_billing_def in_int64_def)
  have X: "gorm_transaction mem_transaction (\<lambda>s :: billing_mem. lookup_row inv_OrderID (mem_left s))"
    by (rule mem_transaction_view [where v = "\<lambda>l r. lookup_row inv_OrderID l"])
  have r: "ran (lookup_row inv_OrderID (mem_left example_billing)) =
      {example_invoice ''a'' InvoiceStatusPending 5, example_invoice ''b'' InvoiceStatusPaid 7}"
    by (simp add: ran_lookup example_billing_def)
  have d: "example_invoice ''a'' InvoiceStatusPending 5 \<noteq> example_invoice ''b'' InvoiceStatusPaid 7"
    by (simp add: example_invoice_def)
  have w: "with_status InvoiceStatusPaid (lookup_row inv_OrderID (mem_left example_billing))
      = {example_invoice ''b'' InvoiceStatusPaid 7}"
    by (auto simp: with_status_def r)
  have "stats_of (lookup_row inv_OrderID (mem_left example_billing)) st"
    using GetStats_correct [OF left_is_gorm_table [where h = "\<lambda>x. x"] X run] by simp
  then show ?thesis using run d by (auto simp: stats_of_def r w)
qed

end
