(* ===== verification/BillingService.thy ===== *)
theory BillingService
  imports InvoiceQuery Metrics Kafka
begin

text \<open>
  \<open>billing_service/internal/service\<close>: what the billing service does with the three events of
  an order. The state is that of the whole service, which the Kafka side shares: the database,
  the metrics, the dead letter writer and the consumer group. An abstract machine on one invoice
  is the specification of the handlers; that they refine it, and what they do to the metrics, is
  proved over any repository that meets its contract.
\<close>

section \<open>State\<close>

record ('db, 'k, 'c) billing_world =
  bw_db :: 'db
  bw_metrics :: metrics
  bw_dlq :: 'k
  bw_group :: 'c

type_synonym ('db, 'k, 'c) service_call = "('db, 'k, 'c) billing_world \<Rightarrow> go_error option \<times> ('db, 'k, 'c) billing_world"

section \<open>Handlers\<close>

text \<open>\<open>newID\<close> is what \<open>uuid.NewString\<close> returns.\<close>

definition new_invoice :: "string \<Rightarrow> BillingCreatedEvent \<Rightarrow> Invoice" where
  "new_invoice newID event =
     \<lparr>inv_ID = newID, inv_OrderID = bc_OrderID event, inv_Amount = bc_Total event,
      inv_Status = InvoiceStatusPending, inv_CreatedAt = bc_CreatedAt event, inv_PaidAt = None\<rparr>"

definition count_created :: "metrics \<Rightarrow> metrics" where
  "count_created m = m\<lparr>InvoicesCreatedTotal := InvoicesCreatedTotal m + 1,
     InvoiceStateTotal := gauge_add (InvoiceStateTotal m) ''pending'' 1\<rparr>"

definition count_paid :: "metrics \<Rightarrow> metrics" where
  "count_paid m = m\<lparr>InvoicesPaidTotal := InvoicesPaidTotal m + 1,
     InvoiceStateTotal := gauge_add (gauge_add (InvoiceStateTotal m) ''pending'' (- 1)) ''paid'' 1\<rparr>"

definition count_cancelled :: "metrics \<Rightarrow> metrics" where
  "count_cancelled m = m\<lparr>InvoicesCancelledTotal := InvoicesCancelledTotal m + 1,
     InvoiceStateTotal := gauge_add (gauge_add (InvoiceStateTotal m) ''pending'' (- 1)) ''cancelled'' 1\<rparr>"

definition HandleOrderCreated ::
  "'db BillingRepositoryInterface \<Rightarrow> string \<Rightarrow> BillingCreatedEvent \<Rightarrow> ('db, 'k, 'c) service_call" where
  "HandleOrderCreated repo newID event w =
     (case repo_Get repo (bc_OrderID event) (bw_db w) of
        (Inr _, db1) \<Rightarrow> (None, w\<lparr>bw_db := db1\<rparr>)
      | (Inl _, db1) \<Rightarrow>
          (case repo_Create repo (new_invoice newID event) db1 of
             (Some _, db2) \<Rightarrow> (Some (AppErr (ErrInternalError ''failed to create invoice'')), w\<lparr>bw_db := db2\<rparr>)
           | (None, db2) \<Rightarrow> (None, w\<lparr>bw_db := db2, bw_metrics := count_created (bw_metrics w)\<rparr>)))"

definition HandleOrderPaid ::
  "'db BillingRepositoryInterface \<Rightarrow> BillingPaidEvent \<Rightarrow> ('db, 'k, 'c) service_call" where
  "HandleOrderPaid repo event w =
     (case repo_Get repo (bp_OrderID event) (bw_db w) of
        (Inl _, db1) \<Rightarrow> (Some (AppErr (ErrNotFound ''invoice not found'')), w\<lparr>bw_db := db1\<rparr>)
      | (Inr invoice, db1) \<Rightarrow>
          if inv_Status invoice \<noteq> InvoiceStatusPending then
            (Some (AppErr (ErrInvalidOrderState ''invoice cannot be paid: not in PENDING status'')), w\<lparr>bw_db := db1\<rparr>)
          else
            let paidAt = time_Unix (bp_PaidAt event) in
            (case repo_UpdateStatus repo (bp_OrderID event) InvoiceStatusPaid (Some paidAt) db1 of
               (Some _, db2) \<Rightarrow>
                 (Some (AppErr (ErrInternalError ''failed to update invoice status'')), w\<lparr>bw_db := db2\<rparr>)
             | (None, db2) \<Rightarrow> (None, w\<lparr>bw_db := db2, bw_metrics := count_paid (bw_metrics w)\<rparr>)))"

definition HandleOrderCancelled ::
  "'db BillingRepositoryInterface \<Rightarrow> BillingCancelledEvent \<Rightarrow> ('db, 'k, 'c) service_call" where
  "HandleOrderCancelled repo event w =
     (case repo_Get repo (bx_OrderID event) (bw_db w) of
        (Inl _, db1) \<Rightarrow> (Some (AppErr (ErrNotFound ''invoice not found'')), w\<lparr>bw_db := db1\<rparr>)
      | (Inr invoice, db1) \<Rightarrow>
          if inv_Status invoice = InvoiceStatusPaid then
            (Some (AppErr (ErrInvalidOrderState ''paid invoice cannot be cancelled'')), w\<lparr>bw_db := db1\<rparr>)
          else if inv_Status invoice = InvoiceStatusCancelled then (None, w\<lparr>bw_db := db1\<rparr>)
          else if inv_Status invoice \<noteq> InvoiceStatusPending then
            (Some (AppErr (ErrInvalidOrderState (''cannot cancel invoice in status '' @ inv_Status invoice))), w\<lparr>bw_db := db1\<rparr>)
          else
            (case repo_UpdateStatus repo (bx_OrderID event) InvoiceStatusCancelled None db1 of
               (Some _, db2) \<Rightarrow>
                 (Some (AppErr (ErrInternalError ''failed to update invoice status'')), w\<lparr>bw_db := db2\<rparr>)
             | (None, db2) \<Rightarrow> (None, w\<lparr>bw_db := db2, bw_metrics := count_cancelled (bw_metrics w)\<rparr>)))"

section \<open>Specification: one invoice\<close>

datatype billing_event =
    BCreated string BillingCreatedEvent
  | BPaid BillingPaidEvent
  | BCancelled BillingCancelledEvent

fun event_order :: "billing_event \<Rightarrow> string" where
  "event_order (BCreated _ e) = bc_OrderID e"
| "event_order (BPaid e) = bp_OrderID e"
| "event_order (BCancelled e) = bx_OrderID e"

definition handle_event :: "'db BillingRepositoryInterface \<Rightarrow> billing_event \<Rightarrow> ('db, 'k, 'c) service_call" where
  "handle_event repo ev =
     (case ev of
        BCreated newID e \<Rightarrow> HandleOrderCreated repo newID e
      | BPaid e \<Rightarrow> HandleOrderPaid repo e
      | BCancelled e \<Rightarrow> HandleOrderCancelled repo e)"

text \<open>
  What an event does to the invoice of its order: \<open>None\<close> when it is refused, else the new
  invoice. A creation makes a PENDING invoice or leaves the one that is there; a payment needs
  a PENDING one; a cancellation a PENDING or a CANCELLED one.
\<close>

fun invoice_step :: "billing_event \<Rightarrow> Invoice option \<Rightarrow> Invoice option" where
  "invoice_step (BCreated newID e) None = Some (new_invoice newID e)"
| "invoice_step (BCreated _ _) (Some iv) = Some iv"
| "invoice_step (BPaid e) (Some iv) =
     (if inv_Status iv = InvoiceStatusPending
      then Some (set_status InvoiceStatusPaid (Some (time_Unix (bp_PaidAt e))) iv) else None)"
| "invoice_step (BCancelled e) (Some iv) =
     (if inv_Status iv = InvoiceStatusPending then Some (set_status InvoiceStatusCancelled None iv)
      else if inv_Status iv = InvoiceStatusCancelled then Some iv else None)"
| "invoice_step _ None = None"

text \<open>The counters an accepted event moves: those of the step the invoice took.\<close>

fun count_step :: "billing_event \<Rightarrow> Invoice option \<Rightarrow> metrics \<Rightarrow> metrics" where
  "count_step (BCreated _ _) None m = count_created m"
| "count_step (BPaid _) (Some _) m = count_paid m"
| "count_step (BCancelled _) (Some iv) m = (if inv_Status iv = InvoiceStatusPending then count_cancelled m else m)"
| "count_step _ _ m = m"

section \<open>The handlers refine the specification\<close>

text \<open>The outcome of an event, on the view of the invoices.\<close>

definition event_outcome ::
  "billing_event \<Rightarrow> Invoice view \<Rightarrow> metrics \<Rightarrow> go_error option \<Rightarrow> Invoice view \<Rightarrow> metrics \<Rightarrow> bool" where
  "event_outcome ev m mt r m' mt' \<longleftrightarrow>
     (case r of
        None \<Rightarrow> (\<exists>new. invoice_step ev (m (event_order ev)) = Some new \<and> m' = m(event_order ev \<mapsto> new))
                \<and> mt' = count_step ev (m (event_order ev)) mt
      | Some _ \<Rightarrow> m' = m \<and> mt' = mt)"

lemma new_invoice_simps [simp]:
  "inv_OrderID (new_invoice newID e) = bc_OrderID e" "inv_Status (new_invoice newID e) = InvoiceStatusPending"
  "inv_Amount (new_invoice newID e) = bc_Total e"
  by (simp_all add: new_invoice_def)

context billing_repository
begin

abbreviation same_rest :: "('db, 'k, 'c) billing_world \<Rightarrow> ('db, 'k, 'c) billing_world \<Rightarrow> bool" where
  "same_rest w w' \<equiv> others (bw_db w') = others (bw_db w) \<and> bw_dlq w' = bw_dlq w \<and> bw_group w' = bw_group w"

lemma created_outcome:
  assumes "HandleOrderCreated repo newID e w = (r, w')"
  shows "event_outcome (BCreated newID e) (invoices (bw_db w)) (bw_metrics w) r (invoices (bw_db w')) (bw_metrics w')
         \<and> same_rest w w'"
proof -
  obtain x db1 where g: "repo_Get repo (bc_OrderID e) (bw_db w) = (x, db1)" by fastforce
  note f = Get_frame [OF g]
  show ?thesis
  proof (cases x)
    case (Inr iv)
    note i = Get_ok [OF g [unfolded Inr]]
    have "r = None" "w' = w\<lparr>bw_db := db1\<rparr>" using assms g Inr by (auto simp: HandleOrderCreated_def)
    with i f show ?thesis by (auto simp: event_outcome_def fun_upd_idem)
  next
    case (Inl err)
    obtain y db2 where c: "repo_Create repo (new_invoice newID e) db1 = (y, db2)" by fastforce
    show ?thesis
    proof (cases y)
      case None
      have "r = None" "w' = w\<lparr>bw_db := db2, bw_metrics := count_created (bw_metrics w)\<rparr>"
        using assms g Inl c None by (auto simp: HandleOrderCreated_def)
      with Create_ok [OF c [unfolded None]] f show ?thesis by (simp add: event_outcome_def)
    next
      case (Some er)
      have "r \<noteq> None" "w' = w\<lparr>bw_db := db2\<rparr>" using assms g Inl c Some by (auto simp: HandleOrderCreated_def)
      with Create_err [OF c [unfolded Some]] f show ?thesis by (auto simp: event_outcome_def)
    qed
  qed
qed

lemma paid_outcome:
  assumes "HandleOrderPaid repo e w = (r, w')"
  shows "event_outcome (BPaid e) (invoices (bw_db w)) (bw_metrics w) r (invoices (bw_db w')) (bw_metrics w')
         \<and> same_rest w w'"
proof -
  obtain x db1 where g: "repo_Get repo (bp_OrderID e) (bw_db w) = (x, db1)" by fastforce
  note f = Get_frame [OF g]
  consider (err) er where "x = Inl er" | (refused) iv where "x = Inr iv" "inv_Status iv \<noteq> InvoiceStatusPending"
    | (go) iv where "x = Inr iv" "inv_Status iv = InvoiceStatusPending" by (cases x) auto
  then show ?thesis
  proof cases
    case go
    note i = Get_ok [OF g [unfolded go(1)]]
    obtain y db2 where c: "repo_UpdateStatus repo (bp_OrderID e) InvoiceStatusPaid (Some (time_Unix (bp_PaidAt e))) db1 = (y, db2)"
      by fastforce
    show ?thesis
    proof (cases y)
      case None
      have "r = None" "w' = w\<lparr>bw_db := db2, bw_metrics := count_paid (bw_metrics w)\<rparr>"
        using assms g go c None by (auto simp: HandleOrderPaid_def)
      with Update_ok [OF c [unfolded None]] f i go(2) show ?thesis by (auto simp: event_outcome_def)
    next
      case (Some er)
      have "r \<noteq> None" "w' = w\<lparr>bw_db := db2\<rparr>" using assms g go c Some by (auto simp: HandleOrderPaid_def)
      with Update_err [OF c [unfolded Some]] f show ?thesis by (auto simp: event_outcome_def)
    qed
  qed (use assms g f in \<open>auto simp: HandleOrderPaid_def event_outcome_def\<close>)
qed

lemma cancelled_outcome:
  assumes "HandleOrderCancelled repo e w = (r, w')"
  shows "event_outcome (BCancelled e) (invoices (bw_db w)) (bw_metrics w) r (invoices (bw_db w')) (bw_metrics w')
         \<and> same_rest w w'"
proof -
  obtain x db1 where g: "repo_Get repo (bx_OrderID e) (bw_db w) = (x, db1)" by fastforce
  note f = Get_frame [OF g]
  consider (err) er where "x = Inl er"
    | (refused) iv where "x = Inr iv" "inv_Status iv \<noteq> InvoiceStatusPending" "inv_Status iv \<noteq> InvoiceStatusCancelled"
    | (again) iv where "x = Inr iv" "inv_Status iv = InvoiceStatusCancelled"
    | (go) iv where "x = Inr iv" "inv_Status iv = InvoiceStatusPending" by (cases x) auto
  then show ?thesis
  proof cases
    case again
    note i = Get_ok [OF g [unfolded again(1)]]
    have "r = None" "w' = w\<lparr>bw_db := db1\<rparr>" using assms g again by (auto simp: HandleOrderCancelled_def)
    with i f again(2) show ?thesis by (auto simp: event_outcome_def fun_upd_idem)
  next
    case go
    note i = Get_ok [OF g [unfolded go(1)]]
    obtain y db2 where c: "repo_UpdateStatus repo (bx_OrderID e) InvoiceStatusCancelled None db1 = (y, db2)"
      by fastforce
    show ?thesis
    proof (cases y)
      case None
      have "r = None" "w' = w\<lparr>bw_db := db2, bw_metrics := count_cancelled (bw_metrics w)\<rparr>"
        using assms g go c None by (auto simp: HandleOrderCancelled_def)
      with Update_ok [OF c [unfolded None]] f i go(2) show ?thesis by (auto simp: event_outcome_def)
    next
      case (Some er)
      have "r \<noteq> None" "w' = w\<lparr>bw_db := db2\<rparr>" using assms g go c Some by (auto simp: HandleOrderCancelled_def)
      with Update_err [OF c [unfolded Some]] f show ?thesis by (auto simp: event_outcome_def)
    qed
  qed (use assms g f in \<open>auto simp: HandleOrderCancelled_def event_outcome_def split: if_splits\<close>)
qed

lemma handle_outcome:
  assumes "handle_event repo ev w = (r, w')"
  shows "event_outcome ev (invoices (bw_db w)) (bw_metrics w) r (invoices (bw_db w')) (bw_metrics w')
         \<and> same_rest w w'"
  using assms created_outcome paid_outcome cancelled_outcome
  by (cases ev) (simp_all add: handle_event_def)

end

section \<open>Life of an invoice\<close>

text \<open>What never changes about a stored invoice; a PAID or CANCELLED one does not change at all.\<close>

definition invoice_kept :: "Invoice option \<Rightarrow> Invoice option \<Rightarrow> bool" where
  "invoice_kept old new \<longleftrightarrow>
     (case old of
        None \<Rightarrow> True
      | Some iv \<Rightarrow>
          (\<exists>iv'. new = Some iv' \<and> inv_ID iv' = inv_ID iv \<and> inv_OrderID iv' = inv_OrderID iv
                 \<and> inv_Amount iv' = inv_Amount iv \<and> inv_CreatedAt iv' = inv_CreatedAt iv
                 \<and> (inv_Status iv \<in> {InvoiceStatusPaid, InvoiceStatusCancelled} \<longrightarrow> iv' = iv)))"

lemma invoice_kept_refl [simp]: "invoice_kept old old"
  by (simp add: invoice_kept_def split: option.splits)

lemma invoice_kept_trans: "invoice_kept a b \<Longrightarrow> invoice_kept b c \<Longrightarrow> invoice_kept a c"
  by (auto simp: invoice_kept_def split: option.splits)

lemma invoice_step_kept: "invoice_step ev old = Some new \<Longrightarrow> invoice_kept old (Some new)"
  by (cases ev; cases old) (auto simp: invoice_kept_def split: if_splits)

lemma event_outcome_kept:
  "event_outcome ev m mt r m' mt' \<Longrightarrow> invoice_kept (m i) (m' i)"
  by (auto simp: event_outcome_def split: option.splits intro: invoice_step_kept)

text \<open>Handling a sequence of events, whatever their outcomes.\<close>

fun handle_all :: "'db BillingRepositoryInterface \<Rightarrow> billing_event list \<Rightarrow> ('db, 'k, 'c) billing_world \<Rightarrow> ('db, 'k, 'c) billing_world" where
  "handle_all repo [] w = w"
| "handle_all repo (ev # evs) w = handle_all repo evs (snd (handle_event repo ev w))"

section \<open>The gauges\<close>

text \<open>The orders whose invoice has a status, and the label of the gauge of that status.\<close>

definition status_ids :: "InvoiceStatus \<Rightarrow> Invoice view \<Rightarrow> string set" where
  "status_ids st m = {i. \<exists>iv. m i = Some iv \<and> inv_Status iv = st}"

definition gauge_label :: "InvoiceStatus \<Rightarrow> string" where
  "gauge_label st = (if st = InvoiceStatusPending then ''pending''
                     else if st = InvoiceStatusPaid then ''paid'' else ''cancelled'')"

text \<open>By how much a gauge is off the number of invoices it is to show.\<close>

definition gauge_drift :: "InvoiceStatus \<Rightarrow> Invoice view \<Rightarrow> metrics \<Rightarrow> int" where
  "gauge_drift st m mt = InvoiceStateTotal mt (gauge_label st) - int (card (status_ids st m))"

lemma card_status_upd:
  assumes "finite (dom m)"
  shows "int (card (status_ids st (m(i \<mapsto> iv)))) =
    int (card (status_ids st m)) - of_bool (\<exists>x. m i = Some x \<and> inv_Status x = st) + of_bool (inv_Status iv = st)"
proof -
  have fin: "finite (status_ids st m)"
    by (rule finite_subset [OF _ assms]) (auto simp: status_ids_def)
  have e: "status_ids st (m(i \<mapsto> iv)) = (if inv_Status iv = st then insert i (status_ids st m - {i}) else status_ids st m - {i})"
    by (auto simp: status_ids_def)
  have c: "int (card (status_ids st m - {i})) = int (card (status_ids st m)) - of_bool (i \<in> status_ids st m)"
    using fin card_gt_0_iff [of "status_ids st m"] by (auto simp: card_Diff_singleton_if)
  have "i \<in> status_ids st m \<longleftrightarrow> (\<exists>x. m i = Some x \<and> inv_Status x = st)" by (simp add: status_ids_def)
  moreover have "card (insert i (status_ids st m - {i})) = Suc (card (status_ids st m - {i}))"
    using fin by (intro card_insert_disjoint) auto
  ultimately show ?thesis using c by (auto simp: e)
qed

text \<open>The counters move the gauges of the statuses the invoice leaves and enters.\<close>

lemma counted_gauges:
  assumes "st \<in> {InvoiceStatusPending, InvoiceStatusPaid, InvoiceStatusCancelled}"
  shows "InvoiceStateTotal (count_created mt) (gauge_label st)
      = InvoiceStateTotal mt (gauge_label st) + of_bool (st = InvoiceStatusPending)"
    and "InvoiceStateTotal (count_paid mt) (gauge_label st)
      = InvoiceStateTotal mt (gauge_label st) - of_bool (st = InvoiceStatusPending) + of_bool (st = InvoiceStatusPaid)"
    and "InvoiceStateTotal (count_cancelled mt) (gauge_label st)
      = InvoiceStateTotal mt (gauge_label st) - of_bool (st = InvoiceStatusPending) + of_bool (st = InvoiceStatusCancelled)"
  using assms by (auto simp: gauge_label_def count_created_def count_paid_def count_cancelled_def gauge_add_def)

lemma gauge_step:
  assumes "finite (dom m)" and "event_outcome ev m mt r m' mt'"
    and "st \<in> {InvoiceStatusPending, InvoiceStatusPaid, InvoiceStatusCancelled}"
  shows "gauge_drift st m' mt' = gauge_drift st m mt"
proof (cases r)
  case None
  then obtain new where n: "invoice_step ev (m (event_order ev)) = Some new"
      "m' = m(event_order ev \<mapsto> new)" "mt' = count_step ev (m (event_order ev)) mt"
    using assms(2) by (auto simp: event_outcome_def)
  show ?thesis
    using n(1) unfolding gauge_drift_def n(2,3) card_status_upd [OF assms(1)]
    by (cases ev; cases "m (event_order ev)") (auto simp: counted_gauges [OF assms(3)] split: if_splits)
qed (use assms(2) in \<open>simp add: event_outcome_def\<close>)

context billing_repository
begin

lemma handle_all_kept:
  "invoice_kept (invoices (bw_db w) i) (invoices (bw_db (handle_all repo evs w)) i)"
proof (induction evs arbitrary: w)
  case (Cons ev evs)
  obtain r w' where h: "handle_event repo ev w = (r, w')" by fastforce
  have "invoice_kept (invoices (bw_db w) i) (invoices (bw_db w') i)"
    using handle_outcome [OF h] event_outcome_kept by blast
  then show ?case using Cons [of w'] h by (auto intro: invoice_kept_trans)
qed simp

lemma handle_all_gauge:
  assumes "st \<in> {InvoiceStatusPending, InvoiceStatusPaid, InvoiceStatusCancelled}"
  shows "gauge_drift st (invoices (bw_db (handle_all repo evs w))) (bw_metrics (handle_all repo evs w))
         = gauge_drift st (invoices (bw_db w)) (bw_metrics w)"
proof (induction evs arbitrary: w)
  case (Cons ev evs)
  obtain r w' where h: "handle_event repo ev w = (r, w')" by fastforce
  have "gauge_drift st (invoices (bw_db w')) (bw_metrics w') = gauge_drift st (invoices (bw_db w)) (bw_metrics w)"
    using handle_outcome [OF h] by (intro gauge_step [OF invoices_finite _ assms]) blast
  then show ?case using Cons [of w'] h by simp
qed simp

end

section \<open>Properties of the service\<close>

text \<open>
  C9: The billing handlers refine the abstract invoice machine, over any repository that meets
  its contract and whatever fails: an event that is accepted takes the invoice of its order
  exactly the step of the machine, touches no other invoice and moves the counters of that step;
  an event that is answered with an error changes no invoice and no metric; and neither ever
  touches the processed events, the dead letters or the offsets.
\<close>

theorem handlers_refine:
  assumes "billing_repository repo invoices others"
    and "handle_event repo ev w = (r, w')"
  shows "event_outcome ev (invoices (bw_db w)) (bw_metrics w) r (invoices (bw_db w')) (bw_metrics w')
         \<and> others (bw_db w') = others (bw_db w) \<and> bw_dlq w' = bw_dlq w \<and> bw_group w' = bw_group w"
  by (rule billing_repository.handle_outcome [OF assms])

definition billing_example :: "InvoiceStatus \<Rightarrow> bool list \<Rightarrow> (billing_mem, mem_kafka, mem_group) billing_world" where
  "billing_example st faults =
     \<lparr>bw_db = \<lparr>mem_left = [example_invoice ''o1'' st 5], mem_right = [], mem_faults = faults\<rparr>,
      bw_metrics = zero_metrics [] [], bw_dlq = \<lparr>mk_log = [], mk_fates = []\<rparr>, bw_group = ([], [])\<rparr>"

abbreviation mem_billing :: "billing_mem BillingRepositoryInterface" where
  "mem_billing \<equiv> NewBillingRepository (left_table inv_OrderID)"

lemmas run_billing =
  billing_example_def NewBillingRepository_def BillingRepository_Get_def BillingRepository_Create_def
  BillingRepository_UpdateStatus_def mem_store handle_event_def
  HandleOrderCreated_def HandleOrderPaid_def HandleOrderCancelled_def

theorem handlers_refine_witness:
  "\<exists>w'. handle_event mem_billing (BPaid \<lparr>bp_OrderID = ''o1'', bp_PaidAt = 3\<rparr>)
         (billing_example InvoiceStatusPending []) = (None, w')
     \<and> lookup_row inv_OrderID (mem_left (bw_db w')) ''o1''
       = Some (set_status InvoiceStatusPaid (Some (time_Unix 3)) (example_invoice ''o1'' InvoiceStatusPending 5))"
proof -
  obtain w' where run: "handle_event mem_billing (BPaid \<lparr>bp_OrderID = ''o1'', bp_PaidAt = 3\<rparr>)
         (billing_example InvoiceStatusPending []) = (None, w')"
    by (simp add: run_billing Let_def)
  have row: "lookup_row inv_OrderID (mem_left (bw_db (billing_example InvoiceStatusPending []))) ''o1''
      = Some (example_invoice ''o1'' InvoiceStatusPending 5)"
    by (simp add: billing_example_def lookup_row_def)
  from handlers_refine [OF mem_billing_repo.billing_repository_axioms run] run show ?thesis
    by (auto simp: event_outcome_def row)
qed

text \<open>
  C19: Invoices are kept: along any sequence of events, with any failures, no invoice disappears
  and its identity, order, amount and creation time never change; an invoice that is PAID or
  CANCELLED never changes again.
\<close>

theorem invoices_kept:
  assumes "billing_repository repo invoices others"
  shows "invoice_kept (invoices (bw_db w) i) (invoices (bw_db (handle_all repo evs w)) i)"
  by (rule billing_repository.handle_all_kept [OF assms])

theorem invoices_kept_witness:
  "lookup_row inv_OrderID (mem_left (bw_db (handle_all mem_billing
      [BCancelled \<lparr>bx_OrderID = ''o1'', bx_CancelledAt = 9\<rparr>, BPaid \<lparr>bp_OrderID = ''o1'', bp_PaidAt = 3\<rparr>]
      (billing_example InvoiceStatusPaid [])))) ''o1'' = Some (example_invoice ''o1'' InvoiceStatusPaid 5)"
  using invoices_kept [OF mem_billing_repo.billing_repository_axioms, of "billing_example InvoiceStatusPaid []" "''o1''"
    "[BCancelled \<lparr>bx_OrderID = ''o1'', bx_CancelledAt = 9\<rparr>, BPaid \<lparr>bp_OrderID = ''o1'', bp_PaidAt = 3\<rparr>]"]
  by (simp add: invoice_kept_def billing_example_def lookup_row_def)

text \<open>
  C25: The gauges of invoices per state follow the table: along any sequence of events, with any
  failures, the difference between a gauge and the number of invoices in its state stays what it
  was at the start. They agree for ever when the service starts on an empty table; after a
  restart on a table with invoices they stay off by the number there was, since they start at 0.
\<close>

theorem gauges_follow:
  assumes "billing_repository repo invoices others"
    and "st \<in> {InvoiceStatusPending, InvoiceStatusPaid, InvoiceStatusCancelled}"
  shows "gauge_drift st (invoices (bw_db (handle_all repo evs w))) (bw_metrics (handle_all repo evs w))
         = gauge_drift st (invoices (bw_db w)) (bw_metrics w)"
  by (rule billing_repository.handle_all_gauge [OF assms])

theorem gauges_follow_witness:
  "gauge_drift InvoiceStatusPending (lookup_row inv_OrderID (mem_left (bw_db (handle_all mem_billing
      [BPaid \<lparr>bp_OrderID = ''o1'', bp_PaidAt = 3\<rparr>] (billing_example InvoiceStatusPending [])))))
      (bw_metrics (handle_all mem_billing
      [BPaid \<lparr>bp_OrderID = ''o1'', bp_PaidAt = 3\<rparr>] (billing_example InvoiceStatusPending []))) = - 1"
proof -
  have "status_ids InvoiceStatusPending (lookup_row inv_OrderID (mem_left (bw_db (billing_example InvoiceStatusPending []))))
      = {''o1''}"
    by (auto simp: status_ids_def billing_example_def lookup_row_def)
  then have "gauge_drift InvoiceStatusPending (lookup_row inv_OrderID (mem_left (bw_db (billing_example InvoiceStatusPending []))))
      (bw_metrics (billing_example InvoiceStatusPending [])) = - 1"
    by (simp add: gauge_drift_def billing_example_def zero_metrics_def)
  with gauges_follow [OF mem_billing_repo.billing_repository_axioms, of InvoiceStatusPending
    "[BPaid \<lparr>bp_OrderID = ''o1'', bp_PaidAt = 3\<rparr>]" "billing_example InvoiceStatusPending []"] show ?thesis by simp
qed

end
