(* ===== verification/Middleware.thy ===== *)
theory Middleware
  imports Metrics Kafka
begin

text \<open>
  \<open>shared/requestid\<close>, \<open>shared/middleware\<close> and \<open>shared/middleware_grpc\<close>: the request id in
  a context, the four interceptors of a gRPC call and the order the services chain them in, and
  the recovery around a Kafka handler. A handler is a function of the context, the request and
  the service's state that returns or panics; a panic keeps the effects it had before.
\<close>

section \<open>Request ids\<close>

record ctx =
  ctx_request_id :: "string option"

definition requestid_Set :: "ctx \<Rightarrow> string \<Rightarrow> ctx" where
  "requestid_Set c i = c\<lparr>ctx_request_id := Some i\<rparr>"

definition requestid_Get :: "ctx \<Rightarrow> string" where
  "requestid_Get c = (case ctx_request_id c of None \<Rightarrow> '''' | Some v \<Rightarrow> v)"

lemma requestid_Get_Set [simp]: "requestid_Get (requestid_Set c i) = i"
  by (simp add: requestid_Get_def requestid_Set_def)

section \<open>Interceptors\<close>

type_synonym ('req, 'resp, 's) grpc_handler =
  "ctx \<Rightarrow> 'req \<Rightarrow> 's \<Rightarrow> (grpc_status + 'resp) outcome \<times> 's"

text \<open>
  \<open>md\<close> is the metadata of the incoming context, if it has any: the values of the header
  \<open>x-request-id\<close>. \<open>newID\<close> is what \<open>uuid.NewString\<close> returns.
\<close>

definition RequestIDInterceptor ::
  "string list option \<Rightarrow> string \<Rightarrow> ('req, 'resp, 's) grpc_handler \<Rightarrow> ('req, 'resp, 's) grpc_handler" where
  "RequestIDInterceptor md newID handler c req =
     (let reqID = (case md of None \<Rightarrow> '''' | Some values \<Rightarrow> if 0 < length values then values ! 0 else '''');
          reqID' = (if reqID = '''' then newID else reqID)
      in handler (requestid_Set c reqID') req)"

text \<open>
  \<open>validate\<close> is \<open>None\<close> for a request type without a \<open>Validate\<close> method, else the error text
  that the method returns, if any.
\<close>

definition ValidationInterceptor ::
  "('req \<Rightarrow> string option option) \<Rightarrow> ('req, 'resp, 's) grpc_handler \<Rightarrow> ('req, 'resp, 's) grpc_handler" where
  "ValidationInterceptor validate handler c req s =
     (case validate req of
        Some (Some err) \<Rightarrow> (Returned (Inl (InvalidArgument, ''validation failed: '' @ err)), s)
      | _ \<Rightarrow> handler c req s)"

definition RecoveryInterceptor :: "('req, 'resp, 's) grpc_handler \<Rightarrow> ('req, 'resp, 's) grpc_handler" where
  "RecoveryInterceptor handler c req s =
     (case handler c req s of
        (Panicked _, s') \<Rightarrow> (Returned (Inl (Internal, ''internal server error'')), s')
      | (Returned r, s') \<Rightarrow> (Returned r, s'))"

fun code_String :: "grpc_code \<Rightarrow> string" where
  "code_String NotFound = ''NotFound''"
| "code_String InvalidArgument = ''InvalidArgument''"
| "code_String FailedPrecondition = ''FailedPrecondition''"
| "code_String Internal = ''Internal''"
| "code_String Unimplemented = ''Unimplemented''"

definition status_label :: "grpc_status + 'resp \<Rightarrow> string" where
  "status_label r = (case r of Inr _ \<Rightarrow> ''ok'' | Inl st \<Rightarrow> code_String (fst st))"

definition count_request :: "string \<Rightarrow> int \<Rightarrow> string \<Rightarrow> metrics \<Rightarrow> metrics" where
  "count_request fullMethod duration label m =
     m\<lparr>GRPCRequestsTotal := inc_at (GRPCRequestsTotal m) (fullMethod, label),
       GRPCRequestDuration := observe_at (GRPCRequestDuration m) fullMethod duration\<rparr>"

text \<open>\<open>upd\<close> applies a change to the metrics in the service's state; \<open>duration\<close> is the time the call took.\<close>

definition GRPCMetricsInterceptor ::
  "((metrics \<Rightarrow> metrics) \<Rightarrow> 's \<Rightarrow> 's) \<Rightarrow> string \<Rightarrow> int
   \<Rightarrow> ('req, 'resp, 's) grpc_handler \<Rightarrow> ('req, 'resp, 's) grpc_handler" where
  "GRPCMetricsInterceptor upd fullMethod duration handler c req s =
     (case handler c req s of
        (Panicked p, s') \<Rightarrow> (Panicked p, s')
      | (Returned r, s') \<Rightarrow> (Returned r, upd (count_request fullMethod duration (status_label r)) s'))"

text \<open>\<open>grpc.ChainUnaryInterceptor\<close> with the four, the first one outermost.\<close>

definition chain_interceptors ::
  "string list option \<Rightarrow> string \<Rightarrow> ('req \<Rightarrow> string option option) \<Rightarrow> ((metrics \<Rightarrow> metrics) \<Rightarrow> 's \<Rightarrow> 's)
   \<Rightarrow> string \<Rightarrow> int \<Rightarrow> ('req, 'resp, 's) grpc_handler \<Rightarrow> ('req, 'resp, 's) grpc_handler" where
  "chain_interceptors md newID validate upd fullMethod duration handler =
     RequestIDInterceptor md newID (ValidationInterceptor validate (RecoveryInterceptor
       (GRPCMetricsInterceptor upd fullMethod duration handler)))"

lemma chain_run:
  assumes "newID \<noteq> []"
  shows "\<exists>i. i \<noteq> [] \<and> (\<forall>v vs. md = Some (v # vs) \<longrightarrow> v \<noteq> [] \<longrightarrow> i = v)
    \<and> chain_interceptors md newID validate upd fullMethod duration handler c req s =
       (case validate req of
          Some (Some err) \<Rightarrow> (Returned (Inl (InvalidArgument, ''validation failed: '' @ err)), s)
        | _ \<Rightarrow>
            (case handler (requestid_Set c i) req s of
               (Panicked _, s') \<Rightarrow> (Returned (Inl (Internal, ''internal server error'')), s')
             | (Returned r, s') \<Rightarrow>
                 (Returned r, upd (count_request fullMethod duration (status_label r)) s')))"
proof -
  define i where "i = (case md of Some (v # vs) \<Rightarrow> if v = [] then newID else v | _ \<Rightarrow> newID)"
  have "chain_interceptors md newID validate upd fullMethod duration handler c req s =
      ValidationInterceptor validate (RecoveryInterceptor
       (GRPCMetricsInterceptor upd fullMethod duration handler)) (requestid_Set c i) req s"
    by (auto simp: chain_interceptors_def RequestIDInterceptor_def i_def Let_def split: option.splits list.splits)
  moreover have "i \<noteq> []" using assms by (auto simp: i_def split: option.splits list.splits)
  moreover have "\<forall>v vs. md = Some (v # vs) \<longrightarrow> v \<noteq> [] \<longrightarrow> i = v" by (auto simp: i_def)
  ultimately show ?thesis
    by (intro exI [of _ i])
       (auto simp: ValidationInterceptor_def RecoveryInterceptor_def GRPCMetricsInterceptor_def
         split: option.splits prod.splits outcome.splits)
qed

text \<open>
  C30: A gRPC call always gets an answer and always runs under a request id: the chain of the
  interceptors never panics. A request that fails its validation is answered INVALID_ARGUMENT
  and never reaches the handler. Otherwise the handler runs with the client's request id, or
  with a fresh one when the client sent none or an empty one; its answer is passed on and
  counted under its status. When the handler panics the answer is INTERNAL and the call is not
  counted at all.
\<close>

theorem chain_answers:
  assumes "newID \<noteq> []"
  shows "\<exists>i. i \<noteq> [] \<and> (\<forall>v vs. md = Some (v # vs) \<longrightarrow> v \<noteq> [] \<longrightarrow> i = v)
    \<and> chain_interceptors md newID validate upd fullMethod duration handler c req s =
       (case validate req of
          Some (Some err) \<Rightarrow> (Returned (Inl (InvalidArgument, ''validation failed: '' @ err)), s)
        | _ \<Rightarrow>
            (case handler (requestid_Set c i) req s of
               (Panicked _, s') \<Rightarrow> (Returned (Inl (Internal, ''internal server error'')), s')
             | (Returned r, s') \<Rightarrow>
                 (Returned r, upd (count_request fullMethod duration (status_label r)) s')))"
  by (rule chain_run [OF assms])

theorem chain_answers_witness:
  "fst (chain_interceptors None ''id'' (\<lambda>_. None) (\<lambda>f m. f m) ''/m'' 0
     (\<lambda>c req s. (Panicked ''nil pointer'', s)) \<lparr>ctx_request_id = None\<rparr> () (zero_metrics [] []))
   = Returned (Inl (Internal, ''internal server error'') :: grpc_status + unit)"
  using chain_answers [of "''id''" None "\<lambda>_. None" "\<lambda>f m. f m" "''/m''" 0
     "\<lambda>c req s. (Panicked ''nil pointer'' :: (grpc_status + unit) outcome, s)" "\<lparr>ctx_request_id = None\<rparr>" "()" "zero_metrics [] []"]
  by auto

section \<open>Recovery around a Kafka handler\<close>

type_synonym 's kafka_handler = "ctx \<Rightarrow> kafka_message \<Rightarrow> 's \<Rightarrow> go_error option outcome \<times> 's"

text \<open>\<open>stack\<close> is the text of the stack trace.\<close>

definition SafeHandle ::
  "string \<Rightarrow> 's kafka_handler \<Rightarrow> ctx \<Rightarrow> kafka_message \<Rightarrow> 's \<Rightarrow> go_error option \<times> 's" where
  "SafeHandle stack handler c msg s =
     (case handler c msg s of
        (Panicked r, s') \<Rightarrow>
          (Some (ErrorString (''panic recovered in kafka handler: '' @ r @ [CHR 0x0A] @ stack)), s')
      | (Returned err, s') \<Rightarrow> (err, s'))"

lemma SafeHandle_Returned [simp]:
  "handler c msg s = (Returned err, s') \<Longrightarrow> SafeHandle stack handler c msg s = (err, s')"
  by (simp add: SafeHandle_def)

end
