(* ===== verification/Reliability.thy ===== *)
theory Reliability
  imports BillingModel Middleware "HOL-Library.Signed_Division"
begin

text \<open>
  \<open>billing_service/internal/kafka/reliability\<close>: \<open>Retry\<close>, with the delays it computes before
  it tries again, and the producer of dead letters.
\<close>

section \<open>Retry\<close>

definition context_canceled :: go_error where
  "context_canceled = ErrorString ''context canceled''"

definition retry_base :: "nat \<Rightarrow> int64" where
  "retry_base i = push_bit i 1 * 1000000000"

text \<open>
  \<open>n\<close> attempts are left, the next is number \<open>i\<close>, and \<open>err\<close> is the last error. \<open>fn\<close> is the
  function to try, on the state it changes; \<open>cancelled i\<close> says that the context ends during the
  wait after attempt \<open>i\<close>. \<open>rand.Int63n\<close> panics when its argument is not positive; how much jitter
  it returns has no other effect.
\<close>

fun retry_from ::
  "nat \<Rightarrow> nat \<Rightarrow> (nat \<Rightarrow> bool) \<Rightarrow> ('s \<Rightarrow> go_error option \<times> 's) \<Rightarrow> go_error option \<Rightarrow> 's
   \<Rightarrow> go_error option outcome \<times> 's" where
  "retry_from 0 i cancelled fn err s = (Returned err, s)"
| "retry_from (Suc n) i cancelled fn err s =
     (case fn s of
        (None, s') \<Rightarrow> (Returned None, s')
      | (Some e, s') \<Rightarrow>
          if 0 < n then
            (if sint (retry_base i) sdiv 5 \<le> 0 then (Panicked ''invalid argument to Int63n'', s')
             else if cancelled i then (Returned (Some context_canceled), s')
             else retry_from n (Suc i) cancelled fn (Some e) s')
          else retry_from n (Suc i) cancelled fn (Some e) s')"

definition Retry ::
  "(nat \<Rightarrow> bool) \<Rightarrow> int \<Rightarrow> ('s \<Rightarrow> go_error option \<times> 's) \<Rightarrow> 's \<Rightarrow> go_error option outcome \<times> 's" where
  "Retry cancelled attempts fn s = retry_from (nat attempts) 0 cancelled fn None s"

lemma retry_base_value: "i \<le> 33 \<Longrightarrow> sint (retry_base i) = 2 ^ i * 10 ^ 9"
proof -
  assume i: "i \<le> 33"
  have "(2::int) ^ i \<le> 2 ^ 33" using i by (intro power_increasing) auto
  then have "in_int64 (2 ^ i * 10 ^ 9)"
    using zero_le_power [of "2::int" i] unfolding in_int64_def by (auto intro: order_trans [of _ 0])
  moreover have "retry_base i = of_int (2 ^ i * 10 ^ 9)"
    by (simp add: retry_base_def push_bit_eq_mult)
  ultimately show ?thesis by (simp only: sint_of_int64)
qed

lemma retry_delay_positive: "i \<le> 33 \<Longrightarrow> 0 < sint (retry_base i) sdiv 5"
proof -
  assume i: "i \<le> 33"
  have "(1::int) \<le> 2 ^ i" by simp
  then have "10 ^ 9 div 5 \<le> (2 ^ i * 10 ^ 9 :: int) div 5" by (intro zdiv_mono1) auto
  then show ?thesis by (simp add: retry_base_value [OF i] signed_divide_int_def)
qed

text \<open>The state after \<open>k\<close> calls.\<close>

definition after_calls :: "('s \<Rightarrow> go_error option \<times> 's) \<Rightarrow> nat \<Rightarrow> 's \<Rightarrow> 's" where
  "after_calls fn k s = ((\<lambda>s. snd (fn s)) ^^ k) s"

lemma after_calls_simps [simp]:
  "after_calls fn 0 s = s" "after_calls fn (Suc k) s = after_calls fn k (snd (fn s))"
  by (simp_all add: after_calls_def funpow_Suc_right del: funpow.simps(2))

text \<open>
  What a run of attempts did: \<open>k\<close> calls were made, all but the last failed; with \<open>None\<close> the
  last succeeded, with an error it failed too and either no attempt was left or the context
  ended in the wait after it.
\<close>

definition tried ::
  "(nat \<Rightarrow> bool) \<Rightarrow> nat \<Rightarrow> nat \<Rightarrow> ('s \<Rightarrow> go_error option \<times> 's) \<Rightarrow> 's \<Rightarrow> nat \<Rightarrow> go_error option \<Rightarrow> bool" where
  "tried cancelled n i fn s k r \<longleftrightarrow>
     1 \<le> k \<and> k \<le> n \<and> (\<forall>j < k - 1. fst (fn (after_calls fn j s)) \<noteq> None)
     \<and> (case r of
          None \<Rightarrow> fst (fn (after_calls fn (k - 1) s)) = None
        | Some e \<Rightarrow> fst (fn (after_calls fn (k - 1) s)) \<noteq> None
            \<and> (k = n \<and> fst (fn (after_calls fn (k - 1) s)) = Some e
               \<or> cancelled (i + k - 1) \<and> e = context_canceled))"

text \<open>What every failing call keeps is still there at the last call.\<close>

lemma tried_view:
  assumes "tried cancelled n i fn s k r" and "\<And>s. fst (fn s) \<noteq> None \<Longrightarrow> v (snd (fn s)) = v s"
  shows "v (after_calls fn (k - 1) s) = v s
    \<and> (if r = None then fst (fn (after_calls fn (k - 1) s)) = None else v (after_calls fn k s) = v s)
    \<and> after_calls fn k s = snd (fn (after_calls fn (k - 1) s))"
proof -
  have step: "after_calls fn (Suc j) s = snd (fn (after_calls fn j s))" for j
    by (simp add: after_calls_def)
  have "j \<le> k - 1 \<Longrightarrow> v (after_calls fn j s) = v s" for j
    using assms(1) by (induction j) (auto simp: step assms(2) tried_def simp del: after_calls_simps(2))
  moreover obtain k' where "k = Suc k'" using assms(1) by (cases k) (auto simp: tried_def)
  ultimately show ?thesis
    using assms(1) assms(2) [of "after_calls fn (k - 1) s"]
    by (auto simp: step tried_def simp del: after_calls_simps(2) split: option.splits)
qed

lemma tried_Suc:
  assumes "fst (fn s) \<noteq> None" and "tried cancelled n (Suc i) fn (snd (fn s)) k r"
  shows "tried cancelled (Suc n) i fn s (Suc k) r"
proof -
  obtain k' where k: "k = Suc k'" using assms(2) by (cases k) (auto simp: tried_def)
  have "fst (fn (after_calls fn j s)) \<noteq> None" if "j < Suc k'" for j
    using assms that by (cases j) (auto simp: tried_def k)
  then show ?thesis using assms(2) by (auto simp: tried_def k split: option.splits)
qed

lemma retry_from_spec:
  assumes "0 < n" and "n + i \<le> 35"
  shows "\<exists>k r. retry_from n i cancelled fn err s = (Returned r, after_calls fn k s)
           \<and> tried cancelled n i fn s k r"
  using assms
proof (induction n arbitrary: i err s)
  case (Suc n)
  obtain x s' where f: "fn s = (x, s')" by fastforce
  have d: "0 < sint (retry_base i) sdiv 5" if "0 < n"
    using Suc.prems(2) that by (intro retry_delay_positive) simp
  show ?case
  proof (cases x)
    case None
    then show ?thesis using f by (intro exI [of _ 1] exI [of _ None]) (simp add: tried_def)
  next
    case (Some e)
    show ?thesis
    proof (cases "n = 0 \<or> cancelled i")
      case True
      then have "\<exists>e'. retry_from (Suc n) i cancelled fn err s = (Returned (Some e'), s')
          \<and> (n = 0 \<and> e' = e \<or> cancelled i \<and> e' = context_canceled)"
        using f Some d by (cases "n = 0") auto
      then show ?thesis using f Some
        by (elim exE) (rename_tac e', rule_tac x = 1 in exI, rule_tac x = "Some e'" in exI, auto simp: tried_def)
    next
      case False
      then have "retry_from (Suc n) i cancelled fn err s = retry_from n (Suc i) cancelled fn (Some e) s'"
        using f Some d by auto
      moreover obtain k r where "retry_from n (Suc i) cancelled fn (Some e) s' = (Returned r, after_calls fn k s')"
          "tried cancelled n (Suc i) fn s' k r"
        using Suc.IH [of "Suc i" "Some e" s'] False Suc.prems(2) by auto
      ultimately show ?thesis
        using tried_Suc [of fn s cancelled n i k r] f Some by (intro exI [of _ "Suc k"] exI [of _ r]) simp
    qed
  qed
qed simp

lemma retry_run:
  assumes "1 \<le> attempts" and "attempts \<le> 35"
  shows "\<exists>k r. Retry cancelled attempts fn s = (Returned r, after_calls fn k s)
           \<and> tried cancelled (nat attempts) 0 fn s k r"
  using retry_from_spec [of "nat attempts" 0 cancelled fn None s] assms by (simp add: Retry_def)

text \<open>
  C23: Retrying terminates and is bounded: for 1 to 35 attempts \<open>Retry\<close> never panics and calls
  the function between one and \<open>attempts\<close> times; it stops at the first success; it returns an
  error only after every call failed, and then either all attempts are used up and the error is
  the last call's, or the context ended while it waited. (With 36 attempts the delay before the
  last would overflow.)
\<close>

theorem Retry_spec:
  assumes "1 \<le> attempts" and "attempts \<le> 35"
  shows "\<exists>k r. Retry cancelled attempts fn s = (Returned r, after_calls fn k s)
           \<and> tried cancelled (nat attempts) 0 fn s k r"
  by (rule retry_run [OF assms])

theorem Retry_spec_witness:
  "\<exists>k. Retry (\<lambda>_. False) 3 (\<lambda>n :: nat. (if n < 2 then Some ErrRecordNotFound else None, n + 1)) 1 = (Returned None, k)
       \<and> k \<le> 4"
proof -
  let ?fn = "\<lambda>n :: nat. (if n < 2 then Some ErrRecordNotFound else None, n + 1)"
  have a: "after_calls ?fn k m = k + m" for k m
    by (induction k arbitrary: m) simp_all
  obtain k r where "Retry (\<lambda>_. False) 3 ?fn 1 = (Returned r, k + 1)" "tried (\<lambda>_. False) 3 0 ?fn 1 k r"
    using Retry_spec [of 3 "\<lambda>_. False" ?fn 1] unfolding a by auto
  moreover have "Retry (\<lambda>_. False) 3 ?fn 1 = (Returned None, 3)"
    using retry_delay_positive [of 0] by (simp add: Retry_def numeral_3_eq_3)
  ultimately show ?thesis by auto
qed

lemma retry_overflow: "sint (retry_base 34) sdiv 5 \<le> 0"
  by (simp add: retry_base_def signed_divide_int_def)

section \<open>Dead letters\<close>

record DLQMessage =
  dlq_OriginalTopic :: string
  dlq_EventType :: string
  dlq_Payload :: string
  dlq_Error :: string
  dlq_FailedAt :: int64

definition enc_DLQ :: "DLQMessage \<Rightarrow> json" where
  "enc_DLQ m = JObj
     ([member ''original_topic'' (json_string (dlq_OriginalTopic m))]
      @ omitempty ''event_type'' (dlq_EventType m)
      @ [member ''payload'' (json_string (dlq_Payload m))]
      @ omitempty ''error'' (dlq_Error m)
      @ [member ''failed_at'' (json_int (dlq_FailedAt m))])"

text \<open>
  The message \<open>Send\<close> writes has only a value: the topic is the writer's. \<open>json.Marshal\<close> never
  fails on this struct.
\<close>

definition dlq_message :: "DLQMessage \<Rightarrow> kafka_message" where
  "dlq_message m =
     \<lparr>msg_Topic = [], msg_Partition = 0, msg_Offset = 0, msg_Key = [],
      msg_Value = print_json (enc_DLQ m), msg_Headers = []\<rparr>"

definition DLQ_Send :: "'k kafka_write \<Rightarrow> DLQMessage \<Rightarrow> 'k \<Rightarrow> 'k" where
  "DLQ_Send writer m k = (case writer (dlq_message m) k of (_, k') \<Rightarrow> k')"

definition DLQ_Close :: "('k \<Rightarrow> go_error option \<times> 'k) \<Rightarrow> 'k \<Rightarrow> go_error option \<times> 'k" where
  "DLQ_Close close k =
     (case close k of
        (Some err, k') \<Rightarrow> (Some (WrapErr ''failed to close DLQ writer: '' err), k')
      | (None, k') \<Rightarrow> (None, k'))"

context kafka_writer
begin

lemma DLQ_Send_log:
  "log (DLQ_Send wr m k) = log k \<or> log (DLQ_Send wr m k) = log k @ [dlq_message m]"
  using write_cases [of "dlq_message m" k] by (auto simp: DLQ_Send_def split: prod.split)

end

text \<open>Reading a dead letter back, with the tags of the struct.\<close>

definition dec_DLQ :: "json \<Rightarrow> DLQMessage \<Rightarrow> DLQMessage option" where
  "dec_DLQ = decode_struct [''original_topic'', ''event_type'', ''payload'', ''error'', ''failed_at'']
     (\<lambda>f v m. if f = ''original_topic'' then
                map_option (\<lambda>s. m\<lparr>dlq_OriginalTopic := s\<rparr>) (decode_string v (dlq_OriginalTopic m))
              else if f = ''event_type'' then
                map_option (\<lambda>s. m\<lparr>dlq_EventType := s\<rparr>) (decode_string v (dlq_EventType m))
              else if f = ''payload'' then
                map_option (\<lambda>s. m\<lparr>dlq_Payload := s\<rparr>) (decode_string v (dlq_Payload m))
              else if f = ''error'' then
                map_option (\<lambda>s. m\<lparr>dlq_Error := s\<rparr>) (decode_string v (dlq_Error m))
              else map_option (\<lambda>t. m\<lparr>dlq_FailedAt := t\<rparr>) (decode_int64 v (dlq_FailedAt m)))"

definition zero_DLQ :: DLQMessage where
  "zero_DLQ = \<lparr>dlq_OriginalTopic = [], dlq_EventType = [], dlq_Payload = [], dlq_Error = [], dlq_FailedAt = 0\<rparr>"

text \<open>What JSON keeps of a dead letter: bytes that are not UTF-8 are replaced, and nothing else.\<close>

definition valid_letter :: "DLQMessage \<Rightarrow> DLQMessage" where
  "valid_letter m = m\<lparr>dlq_OriginalTopic := to_valid (dlq_OriginalTopic m), dlq_EventType := to_valid (dlq_EventType m),
     dlq_Payload := to_valid (dlq_Payload m), dlq_Error := to_valid (dlq_Error m)\<rparr>"

definition dlq_utf8 :: "DLQMessage \<Rightarrow> bool" where
  "dlq_utf8 m \<longleftrightarrow> utf8_valid (dlq_OriginalTopic m) \<and> utf8_valid (dlq_EventType m)
     \<and> utf8_valid (dlq_Payload m) \<and> utf8_valid (dlq_Error m)"

lemma dlq_names [simp]:
  "utf8_valid ''original_topic''" "utf8_valid ''event_type''" "utf8_valid ''payload''"
  "utf8_valid ''error''" "utf8_valid ''failed_at''"
  by (rule utf8_ascii, simp add: byte_def)+

lemma wf_enc_DLQ [simp]: "wf_json (enc_DLQ m)"
  by (simp add: enc_DLQ_def omitempty_def)

lemma dec_DLQ_enc: "dec_DLQ (enc_DLQ m) zero_DLQ = Some (valid_letter m)"
  by (simp add: dec_DLQ_def enc_DLQ_def omitempty_def decode_struct_def zero_DLQ_def valid_letter_def
      decode_string_any del: decode_string_json)

text \<open>
  A dead letter can be read back: from the message that \<open>Send\<close> writes, a JSON reader with
  the same tags recovers the original topic, event type, payload, error text and time (an omitted
  empty field included), exactly as long as the texts are valid UTF-8.
\<close>

lemma read_dead_letter: "unmarshal_json dec_DLQ zero_DLQ (msg_Value (dlq_message m)) = Some (valid_letter m)"
  using dec_DLQ_enc by (simp add: unmarshal_json_def dlq_message_def parse_json_print)

lemma valid_letter_id: "dlq_utf8 m \<Longrightarrow> valid_letter m = m"
  by (simp add: dlq_utf8_def valid_letter_def to_valid_id)

text \<open>
  A dead letter does not keep a payload that is not valid UTF-8: two different broken
  payloads, the single bytes FF and FE, give the same dead letter, since the payload travels
  as a JSON string and every bad byte becomes the replacement character.
\<close>

lemma dead_letter_loses_bytes:
  "dlq_message (m\<lparr>dlq_Payload := [CHR 0xFF]\<rparr>) = dlq_message (m\<lparr>dlq_Payload := [CHR 0xFE]\<rparr>)"
  by (simp add: dlq_message_def enc_DLQ_def json_string_def escape.simps rune_size_def byte_def)

end
