(* ===== verification/Handlers.thy ===== *)
theory Handlers
  imports BillingService Reliability "HOL-Library.Sublist"
begin

text \<open>
  \<open>billing_service/internal/kafka/handler\<close>: the handler of the billing service's Kafka
  messages, which picks a function by topic, decodes the event, calls the service, and sends what
  it cannot read to the dead letter topic. Also the service as the interface the handler calls.
  The locale \<open>event_handler\<close> is what the consumer relies on: a handler leaves the processed
  events and the offsets alone and only ever adds dead letters.
\<close>

section \<open>The service as the handler sees it\<close>

record ('db, 'k, 'c) BillingServiceInterface =
  svc_HandleOrderCreated :: "string \<Rightarrow> BillingCreatedEvent \<Rightarrow> ('db, 'k, 'c) service_call"
  svc_HandleOrderPaid :: "BillingPaidEvent \<Rightarrow> ('db, 'k, 'c) service_call"
  svc_HandleOrderCancelled :: "BillingCancelledEvent \<Rightarrow> ('db, 'k, 'c) service_call"

definition NewBillingService :: "'db BillingRepositoryInterface \<Rightarrow> ('db, 'k, 'c) BillingServiceInterface" where
  "NewBillingService repo =
     \<lparr>svc_HandleOrderCreated = HandleOrderCreated repo, svc_HandleOrderPaid = HandleOrderPaid repo,
      svc_HandleOrderCancelled = HandleOrderCancelled repo\<rparr>"

section \<open>What one message draws from its environment\<close>

text \<open>
  The identifier a creation uses (only the attempt that creates the invoice keeps it), the times
  of a dead letter from the handler, of one from the consumer and of the processed record, the
  duration of the call, the text of a stack trace, and whether the context ends in the wait after
  an attempt.
\<close>

record occasion =
  occ_newID :: string
  occ_handledAt :: gotime
  occ_failedAt :: gotime
  occ_savedAt :: gotime
  occ_duration :: int
  occ_stack :: string
  occ_cancelled :: "nat \<Rightarrow> bool"

type_synonym ('db, 'k, 'c) TopicHandlerFunc = "occasion \<Rightarrow> ('db, 'k, 'c) billing_world kafka_handler"

record ('db, 'k, 'c) OrderHandler =
  oh_service :: "('db, 'k, 'c) BillingServiceInterface"
  oh_dlq :: "'k kafka_write"
  oh_topicHandlers :: "string \<Rightarrow> ('db, 'k, 'c) TopicHandlerFunc option"

section \<open>Decoding\<close>

text \<open>One text stands for every error of the JSON decoder.\<close>

definition json_error :: go_error where
  "json_error = ErrorString ''json: cannot unmarshal''"

definition sendToDLQ ::
  "('db, 'k, 'c) OrderHandler \<Rightarrow> occasion \<Rightarrow> kafka_message \<Rightarrow> go_error option
   \<Rightarrow> ('db, 'k, 'c) billing_world \<Rightarrow> ('db, 'k, 'c) billing_world" where
  "sendToDLQ h occ msg err w =
     (let dlqMsg = \<lparr>dlq_OriginalTopic = msg_Topic msg, dlq_EventType = [],
                    dlq_Payload = msg_Value msg, dlq_Error = [], dlq_FailedAt = Unix (occ_handledAt occ)\<rparr>;
          dlqMsg' = (case err of None \<Rightarrow> dlqMsg | Some e \<Rightarrow> dlqMsg\<lparr>dlq_Error := Error e\<rparr>)
      in w\<lparr>bw_dlq := DLQ_Send (oh_dlq h) dlqMsg' (bw_dlq w)\<rparr>)"

definition unmarshal_event ::
  "(json \<Rightarrow> 'e \<Rightarrow> 'e option) \<Rightarrow> 'e \<Rightarrow> ('db, 'k, 'c) OrderHandler \<Rightarrow> occasion \<Rightarrow> kafka_message
   \<Rightarrow> ('db, 'k, 'c) billing_world \<Rightarrow> 'e option \<times> ('db, 'k, 'c) billing_world" where
  "unmarshal_event dec zero h occ msg w =
     (case unmarshal_json dec zero (msg_Value msg) of
        None \<Rightarrow> (None, sendToDLQ h occ msg (Some json_error) w)
      | Some event \<Rightarrow> (Some event, w))"

section \<open>Handlers\<close>

definition handleCreated :: "('db, 'k, 'c) OrderHandler \<Rightarrow> ('db, 'k, 'c) TopicHandlerFunc" where
  "handleCreated h occ c msg w =
     (case unmarshal_event dec_Created zero_Created h occ msg w of
        (None, w1) \<Rightarrow> (Returned None, w1)
      | (Some event, w1) \<Rightarrow>
          if bc_OrderID event = [] then (Returned None, sendToDLQ h occ msg None w1)
          else (case svc_HandleOrderCreated (oh_service h) (occ_newID occ) event w1 of
                  (err, w2) \<Rightarrow> (Returned err, w2)))"

definition handlePaid :: "('db, 'k, 'c) OrderHandler \<Rightarrow> ('db, 'k, 'c) TopicHandlerFunc" where
  "handlePaid h occ c msg w =
     (case unmarshal_event dec_Paid zero_Paid h occ msg w of
        (None, w1) \<Rightarrow> (Returned None, w1)
      | (Some event, w1) \<Rightarrow>
          if bp_OrderID event = [] then (Returned None, sendToDLQ h occ msg None w1)
          else (case svc_HandleOrderPaid (oh_service h) event w1 of (err, w2) \<Rightarrow> (Returned err, w2)))"

definition handleCancelled :: "('db, 'k, 'c) OrderHandler \<Rightarrow> ('db, 'k, 'c) TopicHandlerFunc" where
  "handleCancelled h occ c msg w =
     (case unmarshal_event dec_Cancelled zero_Cancelled h occ msg w of
        (None, w1) \<Rightarrow> (Returned None, w1)
      | (Some event, w1) \<Rightarrow>
          if bx_OrderID event = [] then (Returned None, sendToDLQ h occ msg None w1)
          else (case svc_HandleOrderCancelled (oh_service h) event w1 of (err, w2) \<Rightarrow> (Returned err, w2)))"

text \<open>A map literal keeps the last of equal keys.\<close>

definition NewOrderHandler ::
  "('db, 'k, 'c) BillingServiceInterface \<Rightarrow> 'k kafka_write \<Rightarrow> string \<Rightarrow> string \<Rightarrow> string
   \<Rightarrow> ('db, 'k, 'c) OrderHandler" where
  "NewOrderHandler s dlq topicCreated topicPaid topicCancelled =
     (let h = \<lparr>oh_service = s, oh_dlq = dlq, oh_topicHandlers = Map.empty\<rparr>
      in h\<lparr>oh_topicHandlers := [topicCreated \<mapsto> handleCreated h, topicPaid \<mapsto> handlePaid h,
             topicCancelled \<mapsto> handleCancelled h]\<rparr>)"

definition OrderHandler_Handle :: "('db, 'k, 'c) OrderHandler \<Rightarrow> ('db, 'k, 'c) TopicHandlerFunc" where
  "OrderHandler_Handle h occ c msg w =
     (case oh_topicHandlers h (msg_Topic msg) of
        None \<Rightarrow> (Returned None, w)
      | Some fn \<Rightarrow> fn occ c msg w)"

section \<open>What a message does\<close>

text \<open>The event a message carries: what its topic and its value say.\<close>

datatype carried = Unreadable | Nothing | Event billing_event

definition carried_event :: "string \<Rightarrow> string \<Rightarrow> string \<Rightarrow> string \<Rightarrow> kafka_message \<Rightarrow> carried" where
  "carried_event newID topicCreated topicPaid topicCancelled msg =
     (if msg_Topic msg = topicCancelled then case unmarshal_json dec_Cancelled zero_Cancelled (msg_Value msg) of
              None \<Rightarrow> Unreadable | Some e \<Rightarrow> if bx_OrderID e = [] then Unreadable else Event (BCancelled e)
         else if msg_Topic msg = topicPaid then case unmarshal_json dec_Paid zero_Paid (msg_Value msg) of
              None \<Rightarrow> Unreadable | Some e \<Rightarrow> if bp_OrderID e = [] then Unreadable else Event (BPaid e)
         else if msg_Topic msg = topicCreated then case unmarshal_json dec_Created zero_Created (msg_Value msg) of
              None \<Rightarrow> Unreadable | Some e \<Rightarrow> if bc_OrderID e = [] then Unreadable else Event (BCreated newID e)
         else Nothing)"

lemma sendToDLQ_simps [simp]:
  "bw_db (sendToDLQ h occ msg err w) = bw_db w" "bw_group (sendToDLQ h occ msg err w) = bw_group w"
  "bw_metrics (sendToDLQ h occ msg err w) = bw_metrics w"
  by (simp_all add: sendToDLQ_def Let_def)

text \<open>A dead letter that carries a message: its topic and its payload.\<close>

definition letter_for :: "kafka_message \<Rightarrow> kafka_message \<Rightarrow> bool" where
  "letter_for msg letter \<longleftrightarrow>
     (\<exists>d. letter = dlq_message d \<and> dlq_OriginalTopic d = msg_Topic msg \<and> dlq_Payload d = msg_Value msg)"

text \<open>Exactly one dead letter with the topic and the payload of \<open>msg\<close> is handed to the writer.\<close>

definition letter_sent :: "'k kafka_write \<Rightarrow> kafka_message \<Rightarrow> 'k \<Rightarrow> 'k \<Rightarrow> bool" where
  "letter_sent wr msg k k' \<longleftrightarrow>
     (\<exists>d. dlq_OriginalTopic d = msg_Topic msg \<and> dlq_Payload d = msg_Value msg \<and> k' = snd (wr (dlq_message d) k))"

lemma sendToDLQ_sent: "oh_dlq h = wr \<Longrightarrow> letter_sent wr msg (bw_dlq w) (bw_dlq (sendToDLQ h occ msg err w))"
  by (cases err)
     (auto simp: letter_sent_def sendToDLQ_def Let_def DLQ_Send_def split: prod.split
       intro!: exI [of _ "\<lparr>dlq_OriginalTopic = msg_Topic msg, dlq_EventType = [], dlq_Payload = msg_Value msg,
         dlq_Error = (case err of None \<Rightarrow> [] | Some e \<Rightarrow> Error e), dlq_FailedAt = Unix (occ_handledAt occ)\<rparr>"])

context kafka_writer
begin

lemma sendToDLQ_log:
  assumes "oh_dlq h = wr"
  shows "\<exists>ls. log (bw_dlq (sendToDLQ h occ msg err w)) = log (bw_dlq w) @ ls
    \<and> length ls \<le> 1 \<and> (\<forall>l \<in> set ls. letter_for msg l)"
proof -
  define d where "d = (let d0 = \<lparr>dlq_OriginalTopic = msg_Topic msg, dlq_EventType = [],
      dlq_Payload = msg_Value msg, dlq_Error = [], dlq_FailedAt = Unix (occ_handledAt occ)\<rparr>
    in case err of None \<Rightarrow> d0 | Some e \<Rightarrow> d0\<lparr>dlq_Error := Error e\<rparr>)"
  have "bw_dlq (sendToDLQ h occ msg err w) = DLQ_Send wr d (bw_dlq w)"
    by (simp add: sendToDLQ_def d_def Let_def assms)
  moreover have "letter_for msg (dlq_message d)"
    unfolding letter_for_def by (rule exI [of _ d]) (auto simp: d_def Let_def split: option.split)
  ultimately show ?thesis
    using DLQ_Send_log [of d "bw_dlq w"] by (auto intro: exI [of _ "[]"] exI [of _ "[dlq_message d]"])
qed

lemma letter_logged:
  assumes "letter_sent wr msg k k'"
  shows "\<exists>l. letter_for msg l \<and> (log k' = log k @ [l] \<or> log k' = log k \<and> fst (wr l k) \<noteq> None)"
proof -
  obtain d where d: "dlq_OriginalTopic d = msg_Topic msg" "dlq_Payload d = msg_Value msg"
    and k': "k' = snd (wr (dlq_message d) k)" using assms by (auto simp: letter_sent_def)
  have "letter_for msg (dlq_message d)" using d by (auto simp: letter_for_def)
  moreover have "log k' = log k @ [dlq_message d] \<or> log k' = log k \<and> fst (wr (dlq_message d) k) \<noteq> None"
    using write_cases [of "dlq_message d" k "fst (wr (dlq_message d) k)" k'] by (auto simp: k')
  ultimately show ?thesis by blast
qed

end

lemma sendToDLQ_dlq: "oh_dlq h = oh_dlq h' \<Longrightarrow> sendToDLQ h = sendToDLQ h'"
  by (intro ext) (simp add: sendToDLQ_def)

definition dispatched ::
  "'db BillingRepositoryInterface \<Rightarrow> ('db, 'k, 'c) OrderHandler \<Rightarrow> occasion \<Rightarrow> kafka_message \<Rightarrow> carried
   \<Rightarrow> ('db, 'k, 'c) billing_world \<Rightarrow> go_error option outcome \<times> ('db, 'k, 'c) billing_world \<Rightarrow> bool" where
  "dispatched repo h occ msg ca w x \<longleftrightarrow>
     (case ca of
        Nothing \<Rightarrow> x = (Returned None, w)
      | Unreadable \<Rightarrow> (\<exists>err. x = (Returned None, sendToDLQ h occ msg err w))
      | Event ev \<Rightarrow> x = (Returned (fst (handle_event repo ev w)), snd (handle_event repo ev w)))"

lemma read_dispatched:
  assumes "oh_dlq h0 = oh_dlq h"
    and "\<And>e. svc e = handle_event repo (mk e)"
  shows "dispatched repo h occ msg
      (case unmarshal_json dec zero (msg_Value msg) of
         None \<Rightarrow> Unreadable | Some e \<Rightarrow> if ident e = [] then Unreadable else Event (mk e)) w
      (case unmarshal_event dec zero h0 occ msg w of
        (None, w1) \<Rightarrow> (Returned None, w1)
      | (Some event, w1) \<Rightarrow>
          if ident event = [] then (Returned None, sendToDLQ h0 occ msg None w1)
          else (case svc event w1 of (err, w2) \<Rightarrow> (Returned err, w2)))"
  using sendToDLQ_dlq [OF assms(1)] assms(2)
  by (auto simp: dispatched_def unmarshal_event_def split: option.split prod.split)

lemma Handle_run:
  fixes h :: "('db, 'k, 'c) OrderHandler"
  assumes h_def: "h = NewOrderHandler (NewBillingService repo) dlq tc tp tx"
  shows "dispatched repo h occ msg (carried_event (occ_newID occ) tc tp tx msg) w (OrderHandler_Handle h occ c msg w)"
proof -
  define h0 :: "('db, 'k, 'c) OrderHandler" where "h0 = \<lparr>oh_service = NewBillingService repo, oh_dlq = dlq, oh_topicHandlers = Map.empty\<rparr>"
  have h: "h = h0\<lparr>oh_topicHandlers := [tc \<mapsto> handleCreated h0, tp \<mapsto> handlePaid h0, tx \<mapsto> handleCancelled h0]\<rparr>"
    by (simp add: h_def h0_def NewOrderHandler_def Let_def)
  have d: "oh_dlq h0 = oh_dlq h" by (simp add: h)
  have svc: "svc_HandleOrderCreated (oh_service h0) n e = handle_event repo (BCreated n e)"
      "svc_HandleOrderPaid (oh_service h0) e1 = handle_event repo (BPaid e1)"
      "svc_HandleOrderCancelled (oh_service h0) e2 = handle_event repo (BCancelled e2)" for n e e1 e2
    by (simp_all add: h0_def NewBillingService_def handle_event_def fun_eq_iff)
  have fns: "oh_topicHandlers h = [tc \<mapsto> handleCreated h0, tp \<mapsto> handlePaid h0, tx \<mapsto> handleCancelled h0]"
    by (simp add: h)
  note run = OrderHandler_Handle_def carried_event_def fns
  consider "msg_Topic msg = tx" | "msg_Topic msg \<noteq> tx" "msg_Topic msg = tp"
    | "msg_Topic msg \<noteq> tx" "msg_Topic msg \<noteq> tp" "msg_Topic msg = tc"
    | "msg_Topic msg \<notin> {tc, tp, tx}" by blast
  then show ?thesis
  proof cases
    case 1
    with read_dispatched [OF d svc(3)] show ?thesis by (simp add: run handleCancelled_def)
  next
    case 2
    with read_dispatched [OF d svc(2)] show ?thesis by (simp add: run handlePaid_def)
  next
    case 3
    with read_dispatched [OF d svc(1)] show ?thesis by (simp add: run handleCreated_def)
  next
    case 4
    then show ?thesis by (simp add: run dispatched_def)
  qed
qed

section \<open>The contract of a handler\<close>

definition kafka_counters ::
  "metrics \<Rightarrow> (string \<times> string \<Rightarrow> nat) \<times> (string \<times> string \<Rightarrow> nat) \<times> (string \<times> string \<Rightarrow> int list)" where
  "kafka_counters m = (KafkaMessagesConsumed m, KafkaMessagesFailed m, KafkaProcessingDuration m)"

lemma event_outcome_counters:
  "event_outcome ev m mt r m' mt' \<Longrightarrow> kafka_counters mt' = kafka_counters mt"
  by (cases ev; cases "m (event_order ev)")
     (auto simp: event_outcome_def kafka_counters_def count_created_def count_paid_def count_cancelled_def
       split: option.splits)

locale event_handler = kafka_writer wr log
  for wr :: "'k kafka_write" and log :: "'k \<Rightarrow> kafka_message list" +
  fixes handler :: "('db, 'k, 'c) TopicHandlerFunc" and kept :: "'db \<Rightarrow> 'x"
  assumes handler_frame: "handler occ c msg w = (x, w') \<Longrightarrow>
    kept (bw_db w') = kept (bw_db w) \<and> bw_group w' = bw_group w
    \<and> kafka_counters (bw_metrics w') = kafka_counters (bw_metrics w)
    \<and> (\<exists>ls. log (bw_dlq w') = log (bw_dlq w) @ ls \<and> (\<forall>l \<in> set ls. letter_for msg l))"

lemma OrderHandler_contract:
  assumes R: "billing_repository repo invoices others" and W: "kafka_writer wr log"
  shows "event_handler wr log (OrderHandler_Handle (NewOrderHandler (NewBillingService repo) wr tc tp tx)) others"
proof (rule event_handler.intro [OF W], unfold_locales)
  fix occ c msg x and w w' :: "('a, 'c, 'e) billing_world"
  define h :: "('a, 'c, 'e) OrderHandler" where "h = NewOrderHandler (NewBillingService repo) wr tc tp tx"
  assume "OrderHandler_Handle (NewOrderHandler (NewBillingService repo) wr tc tp tx) occ c msg w = (x, w')"
  then have run: "dispatched repo h occ msg (carried_event (occ_newID occ) tc tp tx msg) w (x, w')"
    using Handle_run [OF h_def, of occ msg w c] by (simp add: h_def)
  have dlq: "oh_dlq h = wr" by (simp add: h_def NewOrderHandler_def Let_def)
  show "others (bw_db w') = others (bw_db w) \<and> bw_group w' = bw_group w
    \<and> kafka_counters (bw_metrics w') = kafka_counters (bw_metrics w)
    \<and> (\<exists>ls. log (bw_dlq w') = log (bw_dlq w) @ ls \<and> (\<forall>l \<in> set ls. letter_for msg l))"
  proof (cases "carried_event (occ_newID occ) tc tp tx msg")
    case Unreadable
    then obtain err where "w' = sendToDLQ h occ msg err w" using run by (auto simp: dispatched_def)
    with kafka_writer.sendToDLQ_log [OF W dlq, of occ msg err w] show ?thesis by auto
  next
    case (Event ev)
    then have "handle_event repo ev w = (fst (handle_event repo ev w), w')"
      using run by (simp add: dispatched_def prod_eq_iff)
    from billing_repository.handle_outcome [OF R this] show ?thesis
      by (auto dest: event_outcome_counters)
  qed (use run in \<open>auto simp: dispatched_def\<close>)
qed

interpretation mem_handler: event_handler mem_write mk_log
    "OrderHandler_Handle (NewOrderHandler (NewBillingService mem_billing) mem_write tc tp tx)"
    "\<lambda>s. lookup_row pe_EventID (mem_right s)"
  for tc tp tx :: string
  by (rule OrderHandler_contract [OF mem_billing_repo.billing_repository_axioms mem_writer.kafka_writer_axioms])

section \<open>What the handler promises\<close>

text \<open>
  C24: The message handler never panics and does exactly what the message says, over any invoice
  repository and any Kafka writer that meet their contracts: a message of an unknown topic is
  accepted without any effect; a message whose JSON cannot be read, or that names no order, is
  accepted, changes no table and no metric, and exactly one dead letter with its topic and payload
  is handed to the writer, so that it is in the log of dead letters unless the write fails; any
  other message is passed to the service, which takes the step of the invoice machine or refuses
  without effect, and no dead letter is written here. No offset is committed by the handler.
\<close>

theorem handler_dispatches:
  fixes w w' :: "('db, 'k, 'c) billing_world"
  assumes R: "billing_repository repo invoices others" and W: "kafka_writer wr log"
    and "OrderHandler_Handle (NewOrderHandler (NewBillingService repo) wr tc tp tx) occ c msg w = (x, w')"
  shows "case carried_event (occ_newID occ) tc tp tx msg of
      Nothing \<Rightarrow> x = Returned None \<and> w' = w
    | Unreadable \<Rightarrow> x = Returned None \<and> bw_db w' = bw_db w \<and> bw_metrics w' = bw_metrics w
        \<and> bw_group w' = bw_group w \<and> letter_sent wr msg (bw_dlq w) (bw_dlq w')
        \<and> (\<exists>l. letter_for msg l \<and> (log (bw_dlq w') = log (bw_dlq w) @ [l]
             \<or> log (bw_dlq w') = log (bw_dlq w) \<and> fst (wr l (bw_dlq w)) \<noteq> None))
    | Event ev \<Rightarrow> (\<exists>r. x = Returned r
        \<and> event_outcome ev (invoices (bw_db w)) (bw_metrics w) r (invoices (bw_db w')) (bw_metrics w'))
        \<and> bw_dlq w' = bw_dlq w \<and> bw_group w' = bw_group w"
proof -
  define h :: "('db, 'k, 'c) OrderHandler" where "h = NewOrderHandler (NewBillingService repo) wr tc tp tx"
  have run: "dispatched repo h occ msg (carried_event (occ_newID occ) tc tp tx msg) w (x, w')"
    using Handle_run [OF h_def, of occ msg w c] assms(3) by (simp add: h_def)
  have dlq: "oh_dlq h = wr" by (simp add: h_def NewOrderHandler_def Let_def)
  show ?thesis
  proof (cases "carried_event (occ_newID occ) tc tp tx msg")
    case Unreadable
    then obtain err where "x = Returned None" "w' = sendToDLQ h occ msg err w"
      using run by (auto simp: dispatched_def)
    moreover have sent: "letter_sent wr msg (bw_dlq w) (bw_dlq (sendToDLQ h occ msg err w))"
      by (rule sendToDLQ_sent [OF dlq])
    ultimately show ?thesis using Unreadable kafka_writer.letter_logged [OF W sent] by simp
  next
    case (Event ev)
    then have "x = Returned (fst (handle_event repo ev w))" "handle_event repo ev w = (fst (handle_event repo ev w), w')"
      using run by (simp_all add: dispatched_def prod_eq_iff)
    with Event billing_repository.handle_outcome [OF R this(2)] show ?thesis by auto
  qed (use run in \<open>auto simp: dispatched_def\<close>)
qed

theorem handler_dispatches_witness:
  "\<forall>occ c m. \<exists>w' :: (billing_mem, mem_kafka, mem_group) billing_world.
     OrderHandler_Handle (NewOrderHandler (NewBillingService mem_billing) mem_write ''c'' ''p'' ''x'') occ c
       (m\<lparr>msg_Topic := ''p'', msg_Value := ''{''\<rparr>) (billing_example InvoiceStatusPending []) = (Returned None, w')
     \<and> bw_db w' = bw_db (billing_example InvoiceStatusPending [])
     \<and> letter_sent mem_write (m\<lparr>msg_Topic := ''p'', msg_Value := ''{''\<rparr>)
         (bw_dlq (billing_example InvoiceStatusPending [])) (bw_dlq w')"
proof (intro allI)
  fix occ :: occasion and c :: ctx and m :: kafka_message
  let ?m = "m\<lparr>msg_Topic := ''p'', msg_Value := ''{''\<rparr>"
  have "parse_json ''{'' = None"
    by (simp add: parse_json_def skip_ws_def is_ws_def byte_def numeral_eq_Suc)
  then have c: "carried_event (occ_newID occ) ''c'' ''p'' ''x'' ?m = Unreadable"
    by (simp add: carried_event_def unmarshal_json_def)
  obtain x w' where run: "OrderHandler_Handle (NewOrderHandler (NewBillingService mem_billing) mem_write ''c'' ''p'' ''x'')
      occ c ?m (billing_example InvoiceStatusPending []) = (x, w')" by fastforce
  from handler_dispatches [OF mem_billing_repo.billing_repository_axioms mem_writer.kafka_writer_axioms run]
  show "\<exists>w' :: (billing_mem, mem_kafka, mem_group) billing_world.
     OrderHandler_Handle (NewOrderHandler (NewBillingService mem_billing) mem_write ''c'' ''p'' ''x'') occ c
       ?m (billing_example InvoiceStatusPending []) = (Returned None, w')
     \<and> bw_db w' = bw_db (billing_example InvoiceStatusPending [])
     \<and> letter_sent mem_write ?m (bw_dlq (billing_example InvoiceStatusPending [])) (bw_dlq w')"
    unfolding c by (simp add: run)
qed

end
