(* ===== verification/Consumer.thy ===== *)
theory Consumer
  imports Handlers
begin

text \<open>
  \<open>billing_service/internal/kafka/consumer\<close>: the consumer of one topic. It fetches a message,
  skips it when its event was processed before, else handles it with retries, records the event
  as processed and commits the offset, or sends a dead letter and commits. Its contract is proved
  over any repository of processed events, Kafka writer, consumer group and handler that meet
  theirs.
\<close>

section \<open>Consumer\<close>

record ('db, 'k, 'c) Consumer =
  co_topic :: string
  co_commit :: "'c kafka_commit"
  co_handler :: "('db, 'k, 'c) TopicHandlerFunc"
  co_dlq :: "'k kafka_write"
  co_processedRepo :: "'db ProcessedEventRepository"

text \<open>\<open>NewConsumer\<close>; the reader it opens for the topic is its topic and its \<open>CommitMessages\<close>.\<close>

definition NewConsumer ::
  "string \<Rightarrow> 'c kafka_commit \<Rightarrow> ('db, 'k, 'c) TopicHandlerFunc \<Rightarrow> 'k kafka_write
   \<Rightarrow> 'db ProcessedEventRepository \<Rightarrow> ('db, 'k, 'c) Consumer" where
  "NewConsumer topic commit handler dlq processedRepo =
     \<lparr>co_topic = topic, co_commit = commit, co_handler = handler, co_dlq = dlq,
      co_processedRepo = processedRepo\<rparr>"

fun header_value :: "(string \<times> string) list \<Rightarrow> string \<Rightarrow> string" where
  "header_value [] key = []"
| "header_value ((k, v) # hs) key = (if k = key then v else header_value hs key)"

definition extractHeader :: "kafka_message \<Rightarrow> string \<Rightarrow> string" where
  "extractHeader msg key = header_value (msg_Headers msg) key"

definition event_key :: "kafka_message \<Rightarrow> string" where
  "event_key msg =
     (let orderID = extractHeader msg ''order-id''; eventType = extractHeader msg ''event-type'' in
      if orderID \<noteq> [] \<and> eventType \<noteq> [] then eventType @ ''-'' @ orderID
      else msg_Topic msg @ ''-'' @ show_int (msg_Partition msg) @ ''-'' @ show_int64 (msg_Offset msg))"

definition count_failed :: "string \<Rightarrow> string \<Rightarrow> int \<Rightarrow> metrics \<Rightarrow> metrics" where
  "count_failed topic eventType duration m =
     m\<lparr>KafkaMessagesFailed := inc_at (KafkaMessagesFailed m) (topic, eventType),
       KafkaProcessingDuration := observe_at (KafkaProcessingDuration m) (topic, eventType) duration\<rparr>"

definition count_consumed :: "string \<Rightarrow> string \<Rightarrow> int \<Rightarrow> metrics \<Rightarrow> metrics" where
  "count_consumed topic eventType duration m =
     m\<lparr>KafkaMessagesConsumed := inc_at (KafkaMessagesConsumed m) (topic, eventType),
       KafkaProcessingDuration := observe_at (KafkaProcessingDuration m) (topic, eventType) duration\<rparr>"

text \<open>\<open>CommitMessages\<close>, whose error is only logged.\<close>

definition commit_offset :: "('db, 'k, 'c) Consumer \<Rightarrow> kafka_message \<Rightarrow> ('db, 'k, 'c) billing_world \<Rightarrow> ('db, 'k, 'c) billing_world" where
  "commit_offset con msg w = (case co_commit con msg (bw_group w) of (_, g) \<Rightarrow> w\<lparr>bw_group := g\<rparr>)"

definition dead_letter :: "occasion \<Rightarrow> kafka_message \<Rightarrow> go_error \<Rightarrow> DLQMessage" where
  "dead_letter occ msg err =
     \<lparr>dlq_OriginalTopic = msg_Topic msg, dlq_EventType = extractHeader msg ''event-type'',
      dlq_Payload = msg_Value msg, dlq_Error = Error err, dlq_FailedAt = Unix (occ_failedAt occ)\<rparr>"

text \<open>What follows the retries, by their result.\<close>

definition after_failure ::
  "('db, 'k, 'c) Consumer \<Rightarrow> occasion \<Rightarrow> kafka_message \<Rightarrow> go_error
   \<Rightarrow> ('db, 'k, 'c) billing_world \<Rightarrow> ('db, 'k, 'c) billing_world" where
  "after_failure con occ msg err w =
     (let w1 = w\<lparr>bw_metrics := count_failed (msg_Topic msg) (extractHeader msg ''event-type'')
                                 (occ_duration occ) (bw_metrics w)\<rparr>;
          w2 = w1\<lparr>bw_dlq := DLQ_Send (co_dlq con) (dead_letter occ msg err) (bw_dlq w1)\<rparr>
      in commit_offset con msg w2)"

definition after_success ::
  "('db, 'k, 'c) Consumer \<Rightarrow> occasion \<Rightarrow> kafka_message
   \<Rightarrow> ('db, 'k, 'c) billing_world \<Rightarrow> ('db, 'k, 'c) billing_world" where
  "after_success con occ msg w =
     (case proc_Save (co_processedRepo con) (occ_savedAt occ) (event_key msg) (msg_Topic msg) (bw_db w) of
        (Some _, db') \<Rightarrow> w\<lparr>bw_db := db'\<rparr>
      | (None, db') \<Rightarrow>
          (let w1 = commit_offset con msg (w\<lparr>bw_db := db'\<rparr>)
           in w1\<lparr>bw_metrics := count_consumed (msg_Topic msg) (extractHeader msg ''event-type'')
                                 (occ_duration occ) (bw_metrics w1)\<rparr>))"

definition processMessage ::
  "('db, 'k, 'c) Consumer \<Rightarrow> occasion \<Rightarrow> ctx \<Rightarrow> kafka_message
   \<Rightarrow> ('db, 'k, 'c) billing_world \<Rightarrow> unit outcome \<times> ('db, 'k, 'c) billing_world" where
  "processMessage con occ c msg w =
     (case proc_Exists (co_processedRepo con) (event_key msg) (bw_db w) of
        (Inr True, db1) \<Rightarrow> (Returned (), commit_offset con msg (w\<lparr>bw_db := db1\<rparr>))
      | (_, db1) \<Rightarrow>
          (let msgCtx = requestid_Set c (extractHeader msg ''x-request-id'') in
           case Retry (occ_cancelled occ) 3 (SafeHandle (occ_stack occ) (co_handler con occ) msgCtx msg)
                  (w\<lparr>bw_db := db1\<rparr>) of
             (Panicked p, w2) \<Rightarrow> (Panicked p, w2)
           | (Returned (Some err), w2) \<Rightarrow> (Returned (), after_failure con occ msg err w2)
           | (Returned None, w2) \<Rightarrow> (Returned (), after_success con occ msg w2)))"

text \<open>
  \<open>Start\<close>: what the loop receives is the input: the end of the context at the top of the loop, a
  failed fetch (with whether the context has ended, then or during the second it waits), or a
  message. The result says whether the loop has returned.
\<close>

datatype consumer_signal = Stop | Fetch_Failed bool | Fetched occasion kafka_message

fun consumer_Start ::
  "('db, 'k, 'c) Consumer \<Rightarrow> ctx \<Rightarrow> consumer_signal list
   \<Rightarrow> ('db, 'k, 'c) billing_world \<Rightarrow> bool outcome \<times> ('db, 'k, 'c) billing_world" where
  "consumer_Start con c [] w = (Returned False, w)"
| "consumer_Start con c (Stop # _) w = (Returned True, w)"
| "consumer_Start con c (Fetch_Failed ended # sigs) w =
     (if ended then (Returned True, w) else consumer_Start con c sigs w)"
| "consumer_Start con c (Fetched occ msg # sigs) w =
     (case processMessage con occ c msg w of
        (Panicked p, w') \<Rightarrow> (Panicked p, w')
      | (Returned _, w') \<Rightarrow> consumer_Start con c sigs w')"

definition consumer_Close :: "('c \<Rightarrow> go_error option \<times> 'c) \<Rightarrow> ('db, 'k, 'c) billing_world \<Rightarrow> go_error option \<times> ('db, 'k, 'c) billing_world" where
  "consumer_Close close w = (case close (bw_group w) of (err, g) \<Rightarrow> (err, w\<lparr>bw_group := g\<rparr>))"

section \<open>The contract of the consumer\<close>

text \<open>
  How a message can end: skipped as a duplicate, handled but not recorded (and not committed),
  handled and recorded, or failed. In every case but \<open>Unsaved\<close> the group is what one commit of
  this message leaves.
\<close>

datatype fate = Skipped | Unsaved | Recorded | Dead

definition processed_record :: "occasion \<Rightarrow> kafka_message \<Rightarrow> ProcessedEvent" where
  "processed_record occ msg =
     \<lparr>pe_EventID = event_key msg, pe_Topic = msg_Topic msg, pe_ProcessedAt = Unix (occ_savedAt occ)\<rparr>"

definition message_label :: "kafka_message \<Rightarrow> string \<times> string" where
  "message_label msg = (msg_Topic msg, extractHeader msg ''event-type'')"

definition consumed_as ::
  "('db, 'k, 'c) Consumer \<Rightarrow> ('k \<Rightarrow> kafka_message list) \<Rightarrow> ('db \<Rightarrow> ProcessedEvent view) \<Rightarrow> ('c \<Rightarrow> kafka_message set)
   \<Rightarrow> occasion \<Rightarrow> kafka_message \<Rightarrow> fate \<Rightarrow> ('db, 'k, 'c) billing_world \<Rightarrow> ('db, 'k, 'c) billing_world \<Rightarrow> bool" where
  "consumed_as con log processed committed occ msg fate w w' \<longleftrightarrow>
     bw_group w' = (if fate = Unsaved then bw_group w else snd (co_commit con msg (bw_group w)))
     \<and> committed (bw_group w) \<subseteq> committed (bw_group w')
     \<and> committed (bw_group w') \<subseteq> insert msg (committed (bw_group w))
     \<and> (\<exists>ls. log (bw_dlq w') = log (bw_dlq w) @ ls \<and> (\<forall>l \<in> set ls. letter_for msg l))
     \<and> (case fate of
          Skipped \<Rightarrow> processed (bw_db w) (event_key msg) \<noteq> None \<and> processed (bw_db w') = processed (bw_db w)
            \<and> bw_dlq w' = bw_dlq w \<and> bw_metrics w' = bw_metrics w
        | Unsaved \<Rightarrow> processed (bw_db w') = processed (bw_db w)
            \<and> kafka_counters (bw_metrics w') = kafka_counters (bw_metrics w)
        | Recorded \<Rightarrow> processed (bw_db w) (event_key msg) = None
            \<and> processed (bw_db w') = (processed (bw_db w))(event_key msg \<mapsto> processed_record occ msg)
            \<and> KafkaMessagesConsumed (bw_metrics w') = inc_at (KafkaMessagesConsumed (bw_metrics w)) (message_label msg)
            \<and> KafkaMessagesFailed (bw_metrics w') = KafkaMessagesFailed (bw_metrics w)
        | Dead \<Rightarrow> processed (bw_db w') = processed (bw_db w)
            \<and> KafkaMessagesFailed (bw_metrics w') = inc_at (KafkaMessagesFailed (bw_metrics w)) (message_label msg)
            \<and> KafkaMessagesConsumed (bw_metrics w') = KafkaMessagesConsumed (bw_metrics w)
            \<and> (\<exists>d k. letter_for msg (dlq_message d) \<and> bw_dlq w' = DLQ_Send (co_dlq con) d k))"

text \<open>The function that is retried.\<close>

definition attempt ::
  "('db, 'k, 'c) Consumer \<Rightarrow> occasion \<Rightarrow> ctx \<Rightarrow> kafka_message
   \<Rightarrow> ('db, 'k, 'c) billing_world \<Rightarrow> go_error option \<times> ('db, 'k, 'c) billing_world" where
  "attempt con occ c msg =
     SafeHandle (occ_stack occ) (co_handler con occ) (requestid_Set c (extractHeader msg ''x-request-id'')) msg"

text \<open>The dead letter after the last attempt, if any.\<close>

definition settle_letter ::
  "('db, 'k, 'c) Consumer \<Rightarrow> occasion \<Rightarrow> kafka_message \<Rightarrow> go_error option \<Rightarrow> 'k \<Rightarrow> 'k" where
  "settle_letter con occ msg r k =
     (case r of None \<Rightarrow> k | Some err \<Rightarrow> snd (co_dlq con (dlq_message (dead_letter occ msg err)) k))"

lemma settle_letter_sent: "letter_sent (co_dlq con) msg k (settle_letter con occ msg (Some err) k)"
  unfolding letter_sent_def settle_letter_def
  by (intro exI [of _ "dead_letter occ msg err"]) (simp add: dead_letter_def)

locale event_consumer =
  event_handler "co_dlq con" log "co_handler con" processed
  + processed_repository "co_processedRepo con" processed others
  + kafka_committer "co_commit con" committed
  for con :: "('db, 'k, 'c) Consumer" and log :: "'k \<Rightarrow> kafka_message list"
    and processed :: "'db \<Rightarrow> ProcessedEvent view" and others :: "'db \<Rightarrow> 'rest"
    and committed :: "'c \<Rightarrow> kafka_message set"
begin

abbreviation letters :: "kafka_message \<Rightarrow> 'k \<Rightarrow> 'k \<Rightarrow> bool" where
  "letters msg k k' \<equiv> \<exists>ls. log k' = log k @ ls \<and> (\<forall>l \<in> set ls. letter_for msg l)"

abbreviation same :: "kafka_message \<Rightarrow> ('db, 'k, 'c) billing_world \<Rightarrow> ('db, 'k, 'c) billing_world \<Rightarrow> bool" where
  "same msg w w' \<equiv> processed (bw_db w') = processed (bw_db w) \<and> bw_group w' = bw_group w
    \<and> kafka_counters (bw_metrics w') = kafka_counters (bw_metrics w) \<and> letters msg (bw_dlq w) (bw_dlq w')"

lemma letters_trans: "letters msg k1 k2 \<Longrightarrow> letters msg k2 k3 \<Longrightarrow> letters msg k1 k3"
  by force

lemma attempt_same: "same msg w (snd (attempt con occ c msg w))"
  using handler_frame [where occ = occ and c = "requestid_Set c (extractHeader msg ''x-request-id'')" and msg = msg and w = w]
  by (cases "co_handler con occ (requestid_Set c (extractHeader msg ''x-request-id'')) msg w")
     (auto simp: attempt_def SafeHandle_def split: outcome.split)

lemma attempts_same: "same msg w (after_calls (attempt con occ c msg) k w)"
proof (induction k arbitrary: w)
  case (Suc k)
  show ?case
    using Suc [of "snd (attempt con occ c msg w)"] attempt_same [where msg = msg and w = w and occ = occ and c = c]
      letters_trans [of "bw_dlq w" "bw_dlq (snd (attempt con occ c msg w))" msg]
    by auto
qed (auto intro: exI [of _ "[]"])

lemma Send_letters: "letter_for msg (dlq_message d) \<Longrightarrow> letters msg k (DLQ_Send (co_dlq con) d k)"
  using DLQ_Send_log [of d k] by (auto intro: exI [of _ "[]"] exI [of _ "[dlq_message d]"])

lemma commit_offset_frame:
  "bw_db (commit_offset con msg w) = bw_db w" "bw_metrics (commit_offset con msg w) = bw_metrics w"
  "bw_dlq (commit_offset con msg w) = bw_dlq w"
  "bw_group (commit_offset con msg w) = snd (co_commit con msg (bw_group w))"
  "committed (bw_group w) \<subseteq> committed (bw_group (commit_offset con msg w))"
  "committed (bw_group (commit_offset con msg w)) \<subseteq> insert msg (committed (bw_group w))"
  using commit_subset [of msg "bw_group w"] by (auto simp: commit_offset_def split: prod.split)

lemma dead_letter_for: "letter_for msg (dlq_message (dead_letter occ msg err))"
  unfolding letter_for_def by (rule exI) (auto simp: dead_letter_def)

lemma after_failure_Dead:
  assumes "same msg w w1"
  shows "consumed_as con log processed committed occ msg Dead w (after_failure con occ msg err w1)"
proof -
  let ?w2 = "w1\<lparr>bw_metrics := count_failed (msg_Topic msg) (extractHeader msg ''event-type'') (occ_duration occ) (bw_metrics w1),
     bw_dlq := DLQ_Send (co_dlq con) (dead_letter occ msg err) (bw_dlq w1)\<rparr>"
  have af: "after_failure con occ msg err w1 = commit_offset con msg ?w2"
    by (simp add: after_failure_def Let_def)
  have "letters msg (bw_dlq w) (DLQ_Send (co_dlq con) (dead_letter occ msg err) (bw_dlq w1))"
    using assms Send_letters [OF dead_letter_for] letters_trans by blast
  moreover have "\<exists>d k. letter_for msg (dlq_message d)
      \<and> DLQ_Send (co_dlq con) (dead_letter occ msg err) (bw_dlq w1) = DLQ_Send (co_dlq con) d k"
    using dead_letter_for by blast
  ultimately show ?thesis
    using assms commit_offset_frame [where msg = msg and w = ?w2] unfolding af
    by (simp add: consumed_as_def count_failed_def kafka_counters_def message_label_def)
qed

lemma after_success_fate:
  assumes "same msg w w1"
  shows "\<exists>fate \<in> {Unsaved, Recorded}.
    consumed_as con log processed committed occ msg fate w (after_success con occ msg w1)"
proof -
  obtain r db' where sv: "proc_Save (co_processedRepo con) (occ_savedAt occ) (event_key msg) (msg_Topic msg) (bw_db w1) = (r, db')"
    by fastforce
  show ?thesis
  proof (cases r)
    case None
    have "consumed_as con log processed committed occ msg Recorded w (after_success con occ msg w1)"
      using assms Save_ok [OF sv [unfolded None]] sv None commit_offset_frame [where msg = msg and w = "w1\<lparr>bw_db := db'\<rparr>"]
      by (simp add: consumed_as_def after_success_def Let_def count_consumed_def kafka_counters_def
          message_label_def processed_record_def)
    then show ?thesis by blast
  next
    case (Some e)
    have "consumed_as con log processed committed occ msg Unsaved w (after_success con occ msg w1)"
      using assms Save_err [OF sv [unfolded Some]] sv Some
      by (auto simp: consumed_as_def after_success_def)
    then show ?thesis by blast
  qed
qed

lemma after_success_others: "others (bw_db (after_success con occ msg w)) = others (bw_db w)"
  using Save_ok Save_err
  by (auto simp: after_success_def Let_def commit_offset_frame split: prod.split option.split)

lemma after_success_dlq: "bw_dlq (after_success con occ msg w) = bw_dlq w"
  by (auto simp: after_success_def Let_def commit_offset_frame split: prod.split option.split)

lemma process_outcome:
  assumes "processMessage con occ c msg w = (x, w')"
  shows "x = Returned () \<and> (\<exists>fate. consumed_as con log processed committed occ msg fate w w'
    \<and> (fate = Skipped \<and> others (bw_db w') = others (bw_db w) \<or> (\<exists>db1 k r. processed db1 = processed (bw_db w) \<and> others db1 = others (bw_db w)
         \<and> tried (occ_cancelled occ) 3 0 (attempt con occ c msg) (w\<lparr>bw_db := db1\<rparr>) k r
         \<and> fate \<noteq> Skipped \<and> (fate = Dead \<longleftrightarrow> r \<noteq> None)
         \<and> bw_dlq w' = settle_letter con occ msg r (bw_dlq (after_calls (attempt con occ c msg) k (w\<lparr>bw_db := db1\<rparr>)))
         \<and> others (bw_db w') = others (bw_db (after_calls (attempt con occ c msg) k (w\<lparr>bw_db := db1\<rparr>))))))"
proof -
  obtain b db1 where ex: "proc_Exists (co_processedRepo con) (event_key msg) (bw_db w) = (b, db1)" by fastforce
  note f = Exists_frame [OF ex]
  show ?thesis
  proof (cases "b = Inr True")
    case True
    have "x = Returned ()" and w': "w' = commit_offset con msg (w\<lparr>bw_db := db1\<rparr>)"
      using assms ex True by (auto simp: processMessage_def)
    moreover have "consumed_as con log processed committed occ msg Skipped w w'"
      using f Exists_true [OF ex [unfolded True]] commit_offset_frame [where msg = msg and w = "w\<lparr>bw_db := db1\<rparr>"]
      by (simp add: consumed_as_def w')
    moreover have "others (bw_db w') = others (bw_db w)" using f by (simp add: w' commit_offset_frame)
    ultimately show ?thesis by blast
  next
    case False
    let ?w0 = "w\<lparr>bw_db := db1\<rparr>"
    have p: "processMessage con occ c msg w =
        (case Retry (occ_cancelled occ) 3 (attempt con occ c msg) ?w0 of
             (Panicked p, w2) \<Rightarrow> (Panicked p, w2)
           | (Returned (Some err), w2) \<Rightarrow> (Returned (), after_failure con occ msg err w2)
           | (Returned None, w2) \<Rightarrow> (Returned (), after_success con occ msg w2))"
      using ex False by (cases b) (auto simp: processMessage_def attempt_def Let_def)
    obtain k r where R: "Retry (occ_cancelled occ) 3 (attempt con occ c msg) ?w0
          = (Returned r, after_calls (attempt con occ c msg) k ?w0)"
        and t: "tried (occ_cancelled occ) 3 0 (attempt con occ c msg) ?w0 k r"
      using retry_run [of 3 "occ_cancelled occ" "attempt con occ c msg" ?w0] by auto
    have s: "same msg w (after_calls (attempt con occ c msg) k ?w0)"
      using attempts_same [where msg = msg and w = ?w0 and occ = occ and c = c and k = k] f by simp
    show ?thesis
    proof (cases r)
      case None
      obtain fate where "fate \<in> {Unsaved, Recorded}" "consumed_as con log processed committed occ msg fate w w'"
        using after_success_fate [OF s, of occ] assms p R None by auto
      moreover have "x = Returned ()" "w' = after_success con occ msg (after_calls (attempt con occ c msg) k ?w0)"
        using assms p R None by simp_all
      moreover have "processed db1 = processed (bw_db w) \<and> others db1 = others (bw_db w)" using f by simp
      ultimately show ?thesis using t None after_success_others
        by (intro conjI exI [of _ fate] disjI2 exI [of _ db1] exI [of _ k] exI [of _ r])
           (auto simp: settle_letter_def after_success_dlq)
    next
      case (Some err)
      have "consumed_as con log processed committed occ msg Dead w w'"
        using after_failure_Dead [OF s, of occ err] assms p R Some by auto
      moreover have "x = Returned ()" "w' = after_failure con occ msg err (after_calls (attempt con occ c msg) k ?w0)"
        using assms p R Some by simp_all
      moreover have "processed db1 = processed (bw_db w) \<and> others db1 = others (bw_db w)" using f by simp
      ultimately show ?thesis using t Some
        by (intro conjI exI [of _ Dead] disjI2 exI [of _ db1] exI [of _ k] exI [of _ r])
           (auto simp: after_failure_def Let_def commit_offset_frame settle_letter_def DLQ_Send_def split: prod.split)
    qed
  qed
qed

lemma duplicate_skipped:
  assumes "processed (bw_db w) (event_key msg) \<noteq> None"
    and "proc_Exists (co_processedRepo con) (event_key msg) (bw_db w) = (Inr b, db1)"
  shows "processMessage con occ c msg w = (Returned (), commit_offset con msg (w\<lparr>bw_db := db1\<rparr>))
    \<and> processed db1 = processed (bw_db w) \<and> others db1 = others (bw_db w)"
proof -
  have b using Exists_false [of "event_key msg" "bw_db w" db1] assms by (cases b) auto
  with assms Exists_frame [OF assms(2)] show ?thesis by (simp add: processMessage_def)
qed

end

section \<open>Accounting for committed messages\<close>

text \<open>
  Every committed message is accounted for: its event is recorded as processed, or a dead letter
  for it is in the log.
\<close>

definition accounted ::
  "('k \<Rightarrow> kafka_message list) \<Rightarrow> ('db \<Rightarrow> ProcessedEvent view) \<Rightarrow> ('c \<Rightarrow> kafka_message set)
   \<Rightarrow> ('db, 'k, 'c) billing_world \<Rightarrow> bool" where
  "accounted log processed committed w \<longleftrightarrow>
     (\<forall>m \<in> committed (bw_group w).
        processed (bw_db w) (event_key m) \<noteq> None \<or> (\<exists>l \<in> set (log (bw_dlq w)). letter_for m l))"

context event_consumer
begin

lemma reliable_Send:
  assumes "\<forall>m k. fst (co_dlq con m k) = None"
  shows "dlq_message d \<in> set (log (DLQ_Send (co_dlq con) d k))"
  using assms [rule_format, of "dlq_message d" k] write_ok [of "dlq_message d" k "snd (co_dlq con (dlq_message d) k)"]
  by (auto simp: DLQ_Send_def split: prod.splits)

lemma consumed_accounted:
  assumes "consumed_as con log processed committed occ msg fate w w'"
    and "\<forall>m k. fst (co_dlq con m k) = None"
    and "accounted log processed committed w"
  shows "accounted log processed committed w'"
proof -
  have pmono: "processed (bw_db w) i \<noteq> None \<Longrightarrow> processed (bw_db w') i \<noteq> None" for i
    using assms(1) by (auto simp: consumed_as_def split: fate.splits if_splits)
  have lmono: "set (log (bw_dlq w)) \<subseteq> set (log (bw_dlq w'))"
    using assms(1) by (auto simp: consumed_as_def)
  have new: "processed (bw_db w') (event_key msg) \<noteq> None \<or> (\<exists>l \<in> set (log (bw_dlq w')). letter_for msg l)"
    if "fate \<noteq> Unsaved"
  proof (cases "fate = Dead")
    case True
    then obtain d k where "letter_for msg (dlq_message d)" "bw_dlq w' = DLQ_Send (co_dlq con) d k"
      using assms(1) by (auto simp: consumed_as_def)
    with reliable_Send [OF assms(2), of d k] show ?thesis by auto
  next
    case False
    with assms(1) that show ?thesis by (cases fate) (auto simp: consumed_as_def)
  qed
  have "m \<in> committed (bw_group w) \<or> m = msg \<and> fate \<noteq> Unsaved" if "m \<in> committed (bw_group w')" for m
    using assms(1) that by (auto simp: consumed_as_def)
  then show ?thesis
    using assms(3) pmono lmono new unfolding accounted_def by (metis subsetD)
qed

lemma start_run:
  assumes "consumer_Start con c sigs w = (x, w')"
  shows "(\<exists>b. x = Returned b) \<and> dom (processed (bw_db w)) \<subseteq> dom (processed (bw_db w'))
    \<and> (\<exists>ls. log (bw_dlq w') = log (bw_dlq w) @ ls)
    \<and> (\<forall>m \<in> committed (bw_group w') - committed (bw_group w). \<exists>occ. Fetched occ m \<in> set sigs)
    \<and> ((\<forall>m k. fst (co_dlq con m k) = None) \<longrightarrow> accounted log processed committed w \<longrightarrow>
        accounted log processed committed w')"
  using assms
proof (induction sigs arbitrary: w)
  case (Cons sig sigs)
  show ?case
  proof (cases sig)
    case (Fetched occ msg)
    obtain y w1 where p: "processMessage con occ c msg w = (y, w1)" by fastforce
    obtain fate where o: "y = Returned ()" "consumed_as con log processed committed occ msg fate w w1"
      using process_outcome [OF p] by blast
    have st: "consumer_Start con c sigs w1 = (x, w')" using Cons.prems Fetched p o(1) by simp
    have d: "dom (processed (bw_db w)) \<subseteq> dom (processed (bw_db w1))"
      using o(2) by (auto simp: consumed_as_def split: fate.splits if_splits)
    have l: "\<exists>ls. log (bw_dlq w1) = log (bw_dlq w) @ ls"
      and g: "committed (bw_group w1) \<subseteq> insert msg (committed (bw_group w))"
      using o(2) by (auto simp: consumed_as_def)
    note a = consumed_accounted [OF o(2)]
    note ih = Cons.IH [OF st]
    have "\<exists>occ'. Fetched occ' m \<in> set (sig # sigs)" if "m \<in> committed (bw_group w') - committed (bw_group w)" for m
      using ih g that Fetched by (cases "m = msg") auto
    moreover have "\<exists>ls. log (bw_dlq w') = log (bw_dlq w) @ ls" using ih l by auto
    ultimately show ?thesis using ih d a by blast
  qed (use Cons in \<open>auto split: if_splits\<close>)
qed auto

end

section \<open>The consumer of the billing service\<close>

text \<open>As \<open>Run\<close> puts it together: the service over its repository, the handler, the consumer.\<close>

definition billing_consumer ::
  "string \<Rightarrow> 'c kafka_commit \<Rightarrow> 'db BillingRepositoryInterface \<Rightarrow> 'k kafka_write \<Rightarrow> 'db ProcessedEventRepository
   \<Rightarrow> string \<Rightarrow> string \<Rightarrow> string \<Rightarrow> ('db, 'k, 'c) Consumer" where
  "billing_consumer topic cm repo wr proc tc tp tx =
     NewConsumer topic cm (OrderHandler_Handle (NewOrderHandler (NewBillingService repo) wr tc tp tx)) wr proc"

lemma billing_consumer_simps [simp]:
  "co_commit (billing_consumer topic cm repo wr proc tc tp tx) = cm"
  "co_dlq (billing_consumer topic cm repo wr proc tc tp tx) = wr"
  "co_processedRepo (billing_consumer topic cm repo wr proc tc tp tx) = proc"
  "co_handler (billing_consumer topic cm repo wr proc tc tp tx) =
     OrderHandler_Handle (NewOrderHandler (NewBillingService repo) wr tc tp tx)"
  by (simp_all add: billing_consumer_def NewConsumer_def)

locale order_consumer =
  billing_repository repo invoices processed + processed_repository proc processed invoices
  + kafka_writer wr log + kafka_committer cm committed
  for repo :: "'db BillingRepositoryInterface" and invoices :: "'db \<Rightarrow> Invoice view"
    and processed :: "'db \<Rightarrow> ProcessedEvent view" and proc :: "'db ProcessedEventRepository"
    and wr :: "'k kafka_write" and log :: "'k \<Rightarrow> kafka_message list"
    and cm :: "'c kafka_commit" and committed :: "'c \<Rightarrow> kafka_message set"

sublocale order_consumer < con: event_consumer
    "billing_consumer topic cm repo wr proc tc tp tx" log processed invoices committed
  for topic tc tp tx :: string
  unfolding event_consumer_def billing_consumer_simps
  using OrderHandler_contract [OF billing_repository_axioms kafka_writer_axioms]
    processed_repository_axioms kafka_committer_axioms by blast

interpretation mem_consumer: order_consumer "NewBillingRepository (left_table inv_OrderID)"
    "\<lambda>s. lookup_row inv_OrderID (mem_left s)" "\<lambda>s. lookup_row pe_EventID (mem_right s)"
    "NewProcessedEventRepo (right_table pe_EventID)" mem_write mk_log mem_commit mem_committed
  by unfold_locales

text \<open>What a message of fate \<open>fate\<close> does to the invoices.\<close>

definition invoice_effect :: "carried \<Rightarrow> fate \<Rightarrow> Invoice view \<Rightarrow> Invoice view \<Rightarrow> bool" where
  "invoice_effect ca fate m m' \<longleftrightarrow>
     (case ca of
        Event ev \<Rightarrow>
          (if fate = Unsaved \<or> fate = Recorded
           then \<exists>new. invoice_step ev (m (event_order ev)) = Some new \<and> m' = m(event_order ev \<mapsto> new)
           else m' = m)
      | _ \<Rightarrow> m' = m \<and> fate \<noteq> Dead)"

text \<open>
  And to the dead letters: one is handed to the writer when the message ends \<open>Dead\<close> and when it
  cannot be read, none otherwise.
\<close>

definition letter_effect :: "'k kafka_write \<Rightarrow> kafka_message \<Rightarrow> carried \<Rightarrow> fate \<Rightarrow> 'k \<Rightarrow> 'k \<Rightarrow> bool" where
  "letter_effect wr msg ca fate k k' \<longleftrightarrow>
     (if fate = Dead \<or> fate \<noteq> Skipped \<and> ca = Unreadable then letter_sent wr msg k k' else k' = k)"

context order_consumer
begin

abbreviation the_consumer :: "string \<Rightarrow> string \<Rightarrow> string \<Rightarrow> string \<Rightarrow> ('db, 'k, 'c) Consumer" where
  "the_consumer topic tc tp tx \<equiv> billing_consumer topic cm repo wr proc tc tp tx"

lemma attempt_effect:
  assumes "attempt (the_consumer topic tc tp tx) occ c msg w = (r, w')"
  shows "case carried_event (occ_newID occ) tc tp tx msg of
      Event ev \<Rightarrow> event_outcome ev (invoices (bw_db w)) (bw_metrics w) r (invoices (bw_db w')) (bw_metrics w')
        \<and> bw_dlq w' = bw_dlq w
    | Unreadable \<Rightarrow> r = None \<and> bw_db w' = bw_db w \<and> letter_sent wr msg (bw_dlq w) (bw_dlq w')
    | Nothing \<Rightarrow> r = None \<and> bw_db w' = bw_db w \<and> bw_dlq w' = bw_dlq w"
proof -
  define h :: "('db, 'k, 'c) OrderHandler" where "h = NewOrderHandler (NewBillingService repo) wr tc tp tx"
  define c' where "c' = requestid_Set c (extractHeader msg ''x-request-id'')"
  have run: "dispatched repo h occ msg (carried_event (occ_newID occ) tc tp tx msg) w (OrderHandler_Handle h occ c' msg w)"
    by (rule Handle_run [OF h_def])
  have a: "SafeHandle (occ_stack occ) (OrderHandler_Handle h occ) c' msg w = (r, w')"
    using assms by (simp add: attempt_def h_def c'_def)
  show ?thesis
  proof (cases "carried_event (occ_newID occ) tc tp tx msg")
    case (Event ev)
    then have "handle_event repo ev w = (r, w')"
      using run a by (simp add: dispatched_def prod_eq_iff)
    from handle_outcome [OF this] Event show ?thesis by simp
  next
    case Unreadable
    have "oh_dlq h = wr" by (simp add: h_def NewOrderHandler_def Let_def)
    from sendToDLQ_sent [OF this, of msg w occ] run a Unreadable show ?thesis
      by (auto simp: dispatched_def)
  qed (use run a in \<open>auto simp: dispatched_def\<close>)
qed

lemma attempts_effect:
  assumes "tried cancelled n i (attempt (the_consumer topic tc tp tx) occ c msg) w k r"
    and "w' = after_calls (attempt (the_consumer topic tc tp tx) occ c msg) k w"
  shows "case carried_event (occ_newID occ) tc tp tx msg of
      Event ev \<Rightarrow> if r = None
        then \<exists>new. invoice_step ev (invoices (bw_db w) (event_order ev)) = Some new
               \<and> invoices (bw_db w') = (invoices (bw_db w))(event_order ev \<mapsto> new)
        else invoices (bw_db w') = invoices (bw_db w)
    | _ \<Rightarrow> r = None \<and> invoices (bw_db w') = invoices (bw_db w)"
    and "if carried_event (occ_newID occ) tc tp tx msg = Unreadable then letter_sent wr msg (bw_dlq w) (bw_dlq w')
      else bw_dlq w' = bw_dlq w"
proof -
  let ?fn = "attempt (the_consumer topic tc tp tx) occ c msg"
  have keep: "(invoices (bw_db (snd (?fn s))), bw_dlq (snd (?fn s))) = (invoices (bw_db s), bw_dlq s)"
    if "fst (?fn s) \<noteq> None" for s
    using attempt_effect [where w = s and topic = topic and tc = tc and tp = tp and tx = tx and occ = occ and c = c and msg = msg,
        OF prod.collapse [symmetric]] that
    by (auto simp: event_outcome_def split: carried.splits option.splits)
  note T = tried_view [where v = "\<lambda>s. (invoices (bw_db s), bw_dlq s)", OF assms(1) keep]
  let ?s = "after_calls ?fn (k - 1) w"
  have e: "?fn ?s = (fst (?fn ?s), w')" using T assms(2) by (simp add: prod_eq_iff)
  note E = attempt_effect [OF e]
  show "if carried_event (occ_newID occ) tc tp tx msg = Unreadable then letter_sent wr msg (bw_dlq w) (bw_dlq w')
      else bw_dlq w' = bw_dlq w"
    using E T assms(2) by (cases "carried_event (occ_newID occ) tc tp tx msg") (simp_all split: if_splits)
  show "case carried_event (occ_newID occ) tc tp tx msg of
      Event ev \<Rightarrow> if r = None
        then \<exists>new. invoice_step ev (invoices (bw_db w) (event_order ev)) = Some new
               \<and> invoices (bw_db w') = (invoices (bw_db w))(event_order ev \<mapsto> new)
        else invoices (bw_db w') = invoices (bw_db w)
    | _ \<Rightarrow> r = None \<and> invoices (bw_db w') = invoices (bw_db w)"
  proof (cases r)
    case None
    with T have "fst (?fn ?s) = None" "invoices (bw_db ?s) = invoices (bw_db w)" by auto
    with E None show ?thesis by (auto simp: event_outcome_def split: carried.splits)
  next
    case (Some err)
    have "fst (?fn ?s) \<noteq> None" using assms(1) Some by (simp add: tried_def)
    with E T assms(2) Some show ?thesis by (auto split: carried.splits)
  qed
qed

lemma message_effect:
  assumes "processMessage (the_consumer topic tc tp tx) occ c msg w = (x, w')"
  shows "x = Returned () \<and> (\<exists>fate. consumed_as (the_consumer topic tc tp tx) log processed committed occ msg fate w w'
    \<and> invoice_effect (carried_event (occ_newID occ) tc tp tx msg) fate (invoices (bw_db w)) (invoices (bw_db w'))
    \<and> letter_effect wr msg (carried_event (occ_newID occ) tc tp tx msg) fate (bw_dlq w) (bw_dlq w'))"
proof -
  let ?con = "the_consumer topic tc tp tx"
  let ?fn = "attempt ?con occ c msg" and ?ca = "carried_event (occ_newID occ) tc tp tx msg"
  let ?effect = "\<lambda>fate. invoice_effect ?ca fate (invoices (bw_db w)) (invoices (bw_db w'))
    \<and> letter_effect wr msg ?ca fate (bw_dlq w) (bw_dlq w')"
  obtain fate where x: "x = Returned ()" and c: "consumed_as ?con log processed committed occ msg fate w w'"
    and o: "fate = Skipped \<and> invoices (bw_db w') = invoices (bw_db w) \<or> (\<exists>db1 k r.
         processed db1 = processed (bw_db w) \<and> invoices db1 = invoices (bw_db w)
         \<and> tried (occ_cancelled occ) 3 0 ?fn (w\<lparr>bw_db := db1\<rparr>) k r
         \<and> fate \<noteq> Skipped \<and> (fate = Dead \<longleftrightarrow> r \<noteq> None)
         \<and> bw_dlq w' = settle_letter ?con occ msg r (bw_dlq (after_calls ?fn k (w\<lparr>bw_db := db1\<rparr>)))
         \<and> invoices (bw_db w') = invoices (bw_db (after_calls ?fn k (w\<lparr>bw_db := db1\<rparr>))))"
    using con.process_outcome [OF assms] by blast
  from o have "?effect fate"
  proof
    assume "fate = Skipped \<and> invoices (bw_db w') = invoices (bw_db w)"
    with c show ?thesis by (auto simp: invoice_effect_def letter_effect_def consumed_as_def split: carried.split)
  next
    assume "\<exists>db1 k r. processed db1 = processed (bw_db w) \<and> invoices db1 = invoices (bw_db w)
         \<and> tried (occ_cancelled occ) 3 0 ?fn (w\<lparr>bw_db := db1\<rparr>) k r
         \<and> fate \<noteq> Skipped \<and> (fate = Dead \<longleftrightarrow> r \<noteq> None)
         \<and> bw_dlq w' = settle_letter ?con occ msg r (bw_dlq (after_calls ?fn k (w\<lparr>bw_db := db1\<rparr>)))
         \<and> invoices (bw_db w') = invoices (bw_db (after_calls ?fn k (w\<lparr>bw_db := db1\<rparr>)))"
    then obtain db1 k r where d: "invoices db1 = invoices (bw_db w)"
      and t: "tried (occ_cancelled occ) 3 0 ?fn (w\<lparr>bw_db := db1\<rparr>) k r"
      and f: "fate \<noteq> Skipped" "fate = Dead \<longleftrightarrow> r \<noteq> None"
      and l: "bw_dlq w' = settle_letter ?con occ msg r (bw_dlq (after_calls ?fn k (w\<lparr>bw_db := db1\<rparr>)))"
      and i: "invoices (bw_db w') = invoices (bw_db (after_calls ?fn k (w\<lparr>bw_db := db1\<rparr>)))"
      by (elim exE conjE)
    have fr: "fate = Unsaved \<or> fate = Recorded \<longleftrightarrow> r = None" using f by (cases fate) auto
    note A = attempts_effect [OF t refl]
    have "invoice_effect ?ca fate (invoices (bw_db w)) (invoices (bw_db w'))"
      using A(1) d i f fr by (auto simp: invoice_effect_def split: carried.splits if_splits)
    moreover have "letter_effect wr msg ?ca fate (bw_dlq w) (bw_dlq w')"
    proof (cases r)
      case None
      then show ?thesis using A(2) f l by (auto simp: letter_effect_def settle_letter_def)
    next
      case (Some err)
      then have "bw_dlq (after_calls ?fn k (w\<lparr>bw_db := db1\<rparr>)) = bw_dlq w"
        using A by (cases ?ca) simp_all
      with settle_letter_sent [where con = ?con and occ = occ and msg = msg and err = err] l f Some show ?thesis
        by (auto simp: letter_effect_def)
    qed
    ultimately show ?thesis by blast
  qed
  with x c show ?thesis by blast
qed

lemma refused_dead:
  assumes "processMessage (the_consumer topic tc tp tx) occ c msg w = (x, w')"
    and "carried_event (occ_newID occ) tc tp tx msg = Event ev"
    and "invoice_step ev (invoices (bw_db w) (event_order ev)) = None"
    and "processed (bw_db w) (event_key msg) = None"
  shows "invoices (bw_db w') = invoices (bw_db w)
    \<and> consumed_as (the_consumer topic tc tp tx) log processed committed occ msg Dead w w'"
proof -
  obtain fate where f: "consumed_as (the_consumer topic tc tp tx) log processed committed occ msg fate w w'"
    and e: "invoice_effect (Event ev) fate (invoices (bw_db w)) (invoices (bw_db w'))"
    using message_effect [OF assms(1)] assms(2) by auto
  have "fate = Dead" using f e assms(3,4) by (cases fate) (auto simp: consumed_as_def invoice_effect_def)
  with f e assms(3) show ?thesis by (auto simp: invoice_effect_def)
qed

lemma created_pending:
  assumes "processMessage (the_consumer topic tc tp tx) occ c msg w = (x, w')"
    and "carried_event (occ_newID occ) tc tp tx msg = Event (BCreated n e)"
    and "invoices (bw_db w) (bc_OrderID e) = None" and "invoices (bw_db w') (bc_OrderID e) = Some iv"
  shows "inv_Status iv = InvoiceStatusPending \<and> inv_Amount iv = bc_Total e"
  using message_effect [OF assms(1)] assms(2-4)
  by (auto simp: invoice_effect_def split: if_splits)

lemma consumer_run:
  assumes "consumer_Start (the_consumer topic tc tp tx) c sigs w = (x, w')"
  shows "(\<exists>b. x = Returned b) \<and> dom (processed (bw_db w)) \<subseteq> dom (processed (bw_db w'))
    \<and> (\<exists>ls. log (bw_dlq w') = log (bw_dlq w) @ ls)
    \<and> (\<forall>m \<in> committed (bw_group w') - committed (bw_group w). \<exists>occ. Fetched occ m \<in> set sigs)
    \<and> ((\<forall>m k. fst (wr m k) = None) \<longrightarrow> accounted log processed committed w \<longrightarrow>
        accounted log processed committed w')"
  using con.start_run [OF assms] by simp

lemma duplicate_no_effect:
  assumes "processed (bw_db w) (event_key msg) \<noteq> None"
    and "fst (proc_Exists proc (event_key msg) (bw_db w)) = Inr b"
  shows "\<exists>w'. processMessage (the_consumer topic tc tp tx) occ c msg w = (Returned (), w')
    \<and> invoices (bw_db w') = invoices (bw_db w) \<and> processed (bw_db w') = processed (bw_db w)
    \<and> bw_metrics w' = bw_metrics w \<and> bw_dlq w' = bw_dlq w \<and> bw_group w' = snd (cm msg (bw_group w))"
  using con.duplicate_skipped [where w = w and msg = msg and b = b and ?db1.0 = "snd (proc_Exists proc (event_key msg) (bw_db w))"]
    assms con.commit_offset_frame by (simp add: prod_eq_iff)

end

section \<open>Properties of the consumer\<close>

text \<open>
  C7: What consuming one message does, over any repositories, broker and schedule of failures:
  processing never panics, and the message meets one of four fates. Skipped: its event was
  processed before, nothing changes but the offset. Recorded: the invoice takes the step of its
  machine, the event was new and is now recorded as processed, and it is counted as consumed.
  Unsaved: the invoice takes the step, but the record could not be written. Dead: no invoice
  changes and the failure is counted. The offset of this message is committed, once and no other,
  in every fate but Unsaved, in which none is. Exactly one dead letter, with the topic and the
  payload of this message, is handed to the writer when it ends Dead and when it cannot be read,
  and none otherwise.
\<close>

theorem message_is_consumed:
  assumes "order_consumer repo invoices processed proc wr log cm committed"
    and "processMessage (billing_consumer topic cm repo wr proc tc tp tx) occ c msg w = (x, w')"
  shows "x = Returned () \<and> (\<exists>fate.
      consumed_as (billing_consumer topic cm repo wr proc tc tp tx) log processed committed occ msg fate w w'
    \<and> bw_group w' = (if fate = Unsaved then bw_group w else snd (cm msg (bw_group w)))
    \<and> invoice_effect (carried_event (occ_newID occ) tc tp tx msg) fate (invoices (bw_db w)) (invoices (bw_db w'))
    \<and> letter_effect wr msg (carried_event (occ_newID occ) tc tp tx msg) fate (bw_dlq w) (bw_dlq w'))"
proof -
  from order_consumer.message_effect [OF assms] obtain fate where x: "x = Returned ()"
    and f: "consumed_as (billing_consumer topic cm repo wr proc tc tp tx) log processed committed occ msg fate w w'"
    and e: "invoice_effect (carried_event (occ_newID occ) tc tp tx msg) fate (invoices (bw_db w)) (invoices (bw_db w'))"
      "letter_effect wr msg (carried_event (occ_newID occ) tc tp tx msg) fate (bw_dlq w) (bw_dlq w')"
    by (elim conjE exE)
  have "bw_group w' = (if fate = Unsaved then bw_group w else snd (cm msg (bw_group w)))"
    using f by (simp add: consumed_as_def)
  with x f e show ?thesis by blast
qed

definition example_occasion :: occasion where
  "example_occasion = \<lparr>occ_newID = ''i1'', occ_handledAt = 0, occ_failedAt = 0, occ_savedAt = 0,
     occ_duration = 0, occ_stack = [], occ_cancelled = (\<lambda>_. False)\<rparr>"

definition example_message :: "string \<Rightarrow> string \<Rightarrow> string \<Rightarrow> kafka_message" where
  "example_message topic eventType payload =
     \<lparr>msg_Topic = topic, msg_Partition = 0, msg_Offset = 0, msg_Key = ''o1'', msg_Value = payload,
      msg_Headers = [(''event-type'', eventType), (''order-id'', ''o1'')]\<rparr>"

abbreviation mem_billing_consumer :: "string \<Rightarrow> (billing_mem, mem_kafka, mem_group) Consumer" where
  "mem_billing_consumer topic \<equiv> billing_consumer topic mem_commit (NewBillingRepository (left_table inv_OrderID))
     mem_write (NewProcessedEventRepo (right_table pe_EventID)) ''c'' ''p'' ''x''"

lemma message_run:
  "processMessage (mem_billing_consumer topic) occ c msg w = (x, w') \<Longrightarrow> x = Returned ()"
  using mem_consumer.message_effect by blast

theorem message_is_consumed_witness:
  "\<exists>w' d. processMessage (mem_billing_consumer ''p'') example_occasion \<lparr>ctx_request_id = None\<rparr>
      (example_message ''p'' ''OrderPaid'' ''{'') (billing_example InvoiceStatusPending []) = (Returned (), w')
    \<and> lookup_row inv_OrderID (mem_left (bw_db w')) =
      lookup_row inv_OrderID (mem_left (bw_db (billing_example InvoiceStatusPending [])))
    \<and> dlq_OriginalTopic d = ''p'' \<and> dlq_Payload d = ''{'' \<and> mk_log (bw_dlq w') = [dlq_message d]"
proof -
  let ?m = "example_message ''p'' ''OrderPaid'' ''{''" and ?w = "billing_example InvoiceStatusPending []"
  have m: "msg_Topic ?m = ''p''" "msg_Value ?m = ''{''" by (simp_all add: example_message_def)
  have "parse_json ''{'' = None"
    by (simp add: parse_json_def skip_ws_def is_ws_def byte_def numeral_eq_Suc)
  then have c: "carried_event (occ_newID example_occasion) ''c'' ''p'' ''x'' ?m = Unreadable"
    by (simp add: carried_event_def unmarshal_json_def m)
  obtain x w' where run: "processMessage (mem_billing_consumer ''p'') example_occasion \<lparr>ctx_request_id = None\<rparr>
      ?m ?w = (x, w')" by fastforce
  from message_is_consumed [OF mem_consumer.order_consumer_axioms run] obtain fate where x: "x = Returned ()"
    and f: "consumed_as (mem_billing_consumer ''p'') mk_log (\<lambda>s. lookup_row pe_EventID (mem_right s)) mem_committed
        example_occasion ?m fate ?w w'"
    and e: "invoice_effect Unreadable fate (lookup_row inv_OrderID (mem_left (bw_db ?w))) (lookup_row inv_OrderID (mem_left (bw_db w')))"
    and l: "letter_effect mem_write ?m Unreadable fate (bw_dlq ?w) (bw_dlq w')"
    unfolding c by (elim conjE exE)
  have "lookup_row pe_EventID (mem_right (bw_db ?w)) (event_key ?m) = None"
    by (simp add: billing_example_def lookup_row_def)
  then have "fate \<noteq> Skipped" using f by (auto simp: consumed_as_def)
  then obtain d where "dlq_OriginalTopic d = ''p''" "dlq_Payload d = ''{''" "bw_dlq w' = snd (mem_write (dlq_message d) (bw_dlq ?w))"
    using l by (auto simp: letter_effect_def letter_sent_def m)
  moreover from this have "mk_log (bw_dlq w') = [dlq_message d]"
    by (simp add: mem_write_def billing_example_def)
  moreover have "lookup_row inv_OrderID (mem_left (bw_db w')) = lookup_row inv_OrderID (mem_left (bw_db ?w))"
    using e by (simp add: invoice_effect_def)
  ultimately show ?thesis using run x by blast
qed





text \<open>
  C20: A redelivered message has no effect: when its event is recorded as processed and the
  record can be read, processing it only commits its offset again: the group is exactly what one
  commit of this message leaves, so that the message is not fetched for ever, and no invoice, no
  record, no metric and no dead letter changes.
\<close>

theorem duplicate_has_no_effect:
  assumes "order_consumer repo invoices processed proc wr log cm committed"
    and "processed (bw_db w) (event_key msg) \<noteq> None"
    and "fst (proc_Exists proc (event_key msg) (bw_db w)) = Inr b"
  shows "\<exists>w'. processMessage (billing_consumer topic cm repo wr proc tc tp tx) occ c msg w = (Returned (), w')
    \<and> invoices (bw_db w') = invoices (bw_db w) \<and> processed (bw_db w') = processed (bw_db w)
    \<and> bw_metrics w' = bw_metrics w \<and> bw_dlq w' = bw_dlq w \<and> bw_group w' = snd (cm msg (bw_group w))"
  by (rule order_consumer.duplicate_no_effect [OF assms])

theorem duplicate_has_no_effect_witness:
  "\<exists>w'. processMessage (mem_billing_consumer ''p'') example_occasion \<lparr>ctx_request_id = None\<rparr>
      (example_message ''p'' ''OrderPaid'' [])
      \<lparr>bw_db = \<lparr>mem_left = [example_invoice ''o1'' InvoiceStatusPending 5],
         mem_right = [\<lparr>pe_EventID = ''OrderPaid-o1'', pe_Topic = ''p'', pe_ProcessedAt = 0\<rparr>], mem_faults = []\<rparr>,
       bw_metrics = zero_metrics [] [], bw_dlq = \<lparr>mk_log = [], mk_fates = []\<rparr>, bw_group = ([], [])\<rparr> = (Returned (), w')
    \<and> mk_log (bw_dlq w') = [] \<and> mem_committed (bw_group w') = {example_message ''p'' ''OrderPaid'' []}"
proof -
  let ?w = "(\<lparr>bw_db = \<lparr>mem_left = [example_invoice ''o1'' InvoiceStatusPending 5],
         mem_right = [\<lparr>pe_EventID = ''OrderPaid-o1'', pe_Topic = ''p'', pe_ProcessedAt = 0\<rparr>], mem_faults = []\<rparr>,
       bw_metrics = zero_metrics [] [], bw_dlq = \<lparr>mk_log = [], mk_fates = []\<rparr>, bw_group = ([], [])\<rparr>)
      :: (billing_mem, mem_kafka, mem_group) billing_world"
  let ?m = "example_message ''p'' ''OrderPaid'' []"
  have k: "event_key ?m = ''OrderPaid-o1''"
    by (simp add: event_key_def extractHeader_def example_message_def)
  have p: "lookup_row pe_EventID (mem_right (bw_db ?w)) (event_key ?m) \<noteq> None"
    unfolding k by (simp add: lookup_row_def)
  have e: "fst (proc_Exists (NewProcessedEventRepo (right_table pe_EventID)) (event_key ?m) (bw_db ?w)) = Inr True"
    unfolding k by (simp add: NewProcessedEventRepo_def eventRepository_Exists_def mem_store Let_def)
  from duplicate_has_no_effect [OF mem_consumer.order_consumer_axioms p e, where topic = "''p''" and tc = "''c''" and tp = "''p''" and tx = "''x''"
      and occ = example_occasion and c = "\<lparr>ctx_request_id = None\<rparr>"]
  obtain w' where w': "processMessage (mem_billing_consumer ''p'') example_occasion \<lparr>ctx_request_id = None\<rparr> ?m ?w = (Returned (), w')"
    "lookup_row inv_OrderID (mem_left (bw_db w')) = lookup_row inv_OrderID (mem_left (bw_db ?w))"
    "lookup_row pe_EventID (mem_right (bw_db w')) = lookup_row pe_EventID (mem_right (bw_db ?w))"
    "bw_metrics w' = bw_metrics ?w" "bw_dlq w' = bw_dlq ?w" "bw_group w' = snd (mem_commit ?m (bw_group ?w))"
    by (elim exE conjE)
  have "mk_log (bw_dlq w') = []" "mem_committed (bw_group w') = {?m}"
    using w'(5,6) by (simp_all add: mem_commit_def mem_committed_def)
  with w'(1) show ?thesis by blast
qed

text \<open>
  A refused event is dead-lettered and forgotten: when a message carries an event that the
  invoice of its order cannot take (a payment before the invoice exists or after it was paid, a
  cancellation of a paid one) and the event is not recorded as processed, then whatever fails or
  succeeds the message ends as a dead letter: no invoice changes, it is counted as failed, the
  event is not recorded, and the offset may be committed. So a payment redelivered after its
  record could not be written is reported as a failure although it took effect.
\<close>

lemma refused_event_is_dead:
  assumes "order_consumer repo invoices processed proc wr log cm committed"
    and "processMessage (billing_consumer topic cm repo wr proc tc tp tx) occ c msg w = (x, w')"
    and "carried_event (occ_newID occ) tc tp tx msg = Event ev"
    and "invoice_step ev (invoices (bw_db w) (event_order ev)) = None"
    and "processed (bw_db w) (event_key msg) = None"
  shows "invoices (bw_db w') = invoices (bw_db w)
    \<and> consumed_as (billing_consumer topic cm repo wr proc tc tp tx) log processed committed occ msg Dead w w'"
  by (rule order_consumer.refused_dead [OF assms])

text \<open>A payment message of the order service, for the examples.\<close>

definition example_paid :: OrderPaidEvent where
  "example_paid = \<lparr>op_OrderID = ''items'', op_PaidAt = 3\<rparr>"

lemma example_paid_carried:
  "\<exists>p. BuildPayload (Paid example_paid) = Inr p
     \<and> (\<forall>newID. carried_event newID ''c'' ''p'' ''x'' (example_message ''p'' ''OrderPaid'' p)
          = Event (BPaid \<lparr>bp_OrderID = ''items'', bp_PaidAt = 3\<rparr>))"
proof -
  obtain p where p: "BuildPayload (Paid example_paid) = Inr p"
    by (cases "BuildPayload (Paid example_paid)") (auto simp: BuildPayload_def)
  have "event_utf8 (Paid example_paid)" by (simp add: example_paid_def)
  from unmarshal_Paid [OF p this] p show ?thesis
    by (intro exI [of _ p]) (simp add: carried_event_def example_message_def example_paid_def)
qed

lemma no_row [simp]: "lookup_row key [] i = None"
  by (simp add: lookup_row_def)

definition empty_billing :: "write_fate list \<Rightarrow> (billing_mem, mem_kafka, mem_group) billing_world" where
  "empty_billing fates =
     \<lparr>bw_db = \<lparr>mem_left = [], mem_right = [], mem_faults = []\<rparr>, bw_metrics = zero_metrics [] [],
      bw_dlq = \<lparr>mk_log = [], mk_fates = fates\<rparr>, bw_group = ([], [])\<rparr>"

lemma empty_billing_simps [simp]:
  "lookup_row pe_EventID (mem_right (bw_db (empty_billing fates))) = Map.empty"
  "lookup_row inv_OrderID (mem_left (bw_db (empty_billing fates))) = Map.empty"
  "KafkaMessagesFailed (bw_metrics (empty_billing fates)) = (\<lambda>_. 0)"
  "mk_log (bw_dlq (empty_billing fates)) = []" "bw_group (empty_billing fates) = ([], [])"
  by (simp_all add: empty_billing_def zero_metrics_def fun_eq_iff)

lemma refused_event_is_dead_witness:
  "\<exists>p w'. processMessage (mem_billing_consumer ''p'') example_occasion \<lparr>ctx_request_id = None\<rparr>
      (example_message ''p'' ''OrderPaid'' p) (empty_billing []) = (Returned (), w')
    \<and> lookup_row pe_EventID (mem_right (bw_db w')) = Map.empty
    \<and> KafkaMessagesFailed (bw_metrics w') (''p'', ''OrderPaid'') = 1"
proof -
  obtain p where c: "carried_event (occ_newID example_occasion) ''c'' ''p'' ''x'' (example_message ''p'' ''OrderPaid'' p)
      = Event (BPaid \<lparr>bp_OrderID = ''items'', bp_PaidAt = 3\<rparr>)"
    using example_paid_carried by blast
  let ?m = "example_message ''p'' ''OrderPaid'' p"
  obtain x w' where run: "processMessage (mem_billing_consumer ''p'') example_occasion \<lparr>ctx_request_id = None\<rparr>
      ?m (empty_billing []) = (x, w')" by fastforce
  have "consumed_as (mem_billing_consumer ''p'') mk_log (\<lambda>s. lookup_row pe_EventID (mem_right s)) mem_committed
      example_occasion ?m Dead (empty_billing []) w'"
    using refused_event_is_dead [OF mem_consumer.order_consumer_axioms run c] by simp
  then have "lookup_row pe_EventID (mem_right (bw_db w')) = Map.empty"
    "KafkaMessagesFailed (bw_metrics w') = inc_at (\<lambda>_. 0) (message_label ?m)"
    by (simp_all add: consumed_as_def)
  moreover have "message_label ?m = (''p'', ''OrderPaid'')"
    by (simp add: message_label_def example_message_def extractHeader_def)
  ultimately have "processMessage (mem_billing_consumer ''p'') example_occasion \<lparr>ctx_request_id = None\<rparr> ?m (empty_billing [])
      = (Returned (), w') \<and> lookup_row pe_EventID (mem_right (bw_db w')) = Map.empty
      \<and> KafkaMessagesFailed (bw_metrics w') (''p'', ''OrderPaid'') = 1"
    using message_run [OF run] run by (simp add: inc_at_def)
  then show ?thesis by blast
qed

text \<open>
  C35: A payment that is consumed before the creation of its order is lost: the two travel on
  different topics with different consumers, so this order can occur. The payment is counted as
  failed and never recorded; when the creation is consumed afterwards, the invoice it makes is
  PENDING although the order was paid, over any repositories and whatever fails.
\<close>

theorem early_payment_is_lost:
  assumes "order_consumer repo invoices processed proc wr log cm committed"
    and "carried_event (occ_newID occp) tc tp tx mp = Event (BPaid ep)"
    and "carried_event (occ_newID occc) tc tp tx mc = Event (BCreated newID ec)"
    and "bp_OrderID ep = bc_OrderID ec"
    and "invoices (bw_db w) (bc_OrderID ec) = None"
    and "processed (bw_db w) (event_key mp) = None"
    and "processMessage (billing_consumer tp cm repo wr proc tc tp tx) occp c1 mp w = (x1, w1)"
    and "processMessage (billing_consumer tc cm repo wr proc tc tp tx) occc c2 mc w1 = (x2, w2)"
  shows "consumed_as (billing_consumer tp cm repo wr proc tc tp tx) log processed committed occp mp Dead w w1
    \<and> (\<forall>iv. invoices (bw_db w2) (bc_OrderID ec) = Some iv \<longrightarrow> inv_Status iv = InvoiceStatusPending)"
proof -
  have "invoice_step (BPaid ep) (invoices (bw_db w) (event_order (BPaid ep))) = None"
    using assms(4,5) by simp
  note d = order_consumer.refused_dead [OF assms(1,7,2) this assms(6)]
  have "invoices (bw_db w1) (bc_OrderID ec) = None" using d assms(5) by simp
  with d order_consumer.created_pending [OF assms(1,8,3)] show ?thesis by blast
qed

definition example_created :: OrderCreatedEvent where
  "example_created = \<lparr>oc_OrderID = ''items'', oc_Total = \<lparr>Amount = 700, Currency = ''total''\<rparr>,
     oc_Items = [], oc_CreatedAt = 1772017396313676906\<rparr>"

lemma example_created_carried:
  "\<exists>p e. (\<forall>newID. carried_event newID ''c'' ''p'' ''x'' (example_message ''c'' ''OrderCreated'' p)
          = Event (BCreated newID e)) \<and> bc_OrderID e = ''items''"
proof -
  have "civil_of_days 739977 = (2026, 2, 25)" by code_simp
  then have "time_MarshalText 1772017396313676906 \<noteq> None" by (simp add: time_MarshalText_def date_of_def)
  then obtain p where p: "BuildPayload (Created example_created) = Inr p"
    by (auto simp: BuildPayload_def example_created_def)
  have "event_utf8 (Created example_created)" by (simp add: example_created_def)
  from unmarshal_Created [OF p this] show ?thesis
    by (intro exI [of _ p]) (simp add: carried_event_def example_message_def example_created_def)
qed

theorem early_payment_is_lost_witness:
  "\<exists>p pc w1. processMessage (mem_billing_consumer ''p'') example_occasion \<lparr>ctx_request_id = None\<rparr>
        (example_message ''p'' ''OrderPaid'' p) (empty_billing []) = (Returned (), w1)
    \<and> KafkaMessagesFailed (bw_metrics w1) = inc_at (\<lambda>_. 0) (message_label (example_message ''p'' ''OrderPaid'' p))
    \<and> (\<forall>x w2 iv. processMessage (mem_billing_consumer ''c'') example_occasion \<lparr>ctx_request_id = None\<rparr>
          (example_message ''c'' ''OrderCreated'' pc) w1 = (x, w2)
        \<longrightarrow> lookup_row inv_OrderID (mem_left (bw_db w2)) ''items'' = Some iv
        \<longrightarrow> inv_Status iv = InvoiceStatusPending)"
proof -
  obtain p where cp: "carried_event (occ_newID example_occasion) ''c'' ''p'' ''x'' (example_message ''p'' ''OrderPaid'' p)
      = Event (BPaid \<lparr>bp_OrderID = ''items'', bp_PaidAt = 3\<rparr>)"
    using example_paid_carried by blast
  obtain pc e where cc: "carried_event (occ_newID example_occasion) ''c'' ''p'' ''x'' (example_message ''c'' ''OrderCreated'' pc)
      = Event (BCreated (occ_newID example_occasion) e)" and e: "bc_OrderID e = ''items''"
    using example_created_carried by blast
  obtain x w1 where run: "processMessage (mem_billing_consumer ''p'') example_occasion \<lparr>ctx_request_id = None\<rparr>
      (example_message ''p'' ''OrderPaid'' p) (empty_billing []) = (x, w1)" by fastforce
  have x: "x = Returned ()" by (rule message_run [OF run])
  note L = early_payment_is_lost [OF mem_consumer.order_consumer_axioms cp cc _ _ _ run]
  obtain x2 w2 where run2: "processMessage (mem_billing_consumer ''c'') example_occasion \<lparr>ctx_request_id = None\<rparr>
      (example_message ''c'' ''OrderCreated'' pc) w1 = (x2, w2)" by fastforce
  have "KafkaMessagesFailed (bw_metrics w1) = inc_at (\<lambda>_. 0) (message_label (example_message ''p'' ''OrderPaid'' p))"
    using L [OF _ _ _ run2] e by (simp add: consumed_as_def)
  moreover have "inv_Status iv = InvoiceStatusPending"
    if "processMessage (mem_billing_consumer ''c'') example_occasion \<lparr>ctx_request_id = None\<rparr>
          (example_message ''c'' ''OrderCreated'' pc) w1 = (y, w3)"
      "lookup_row inv_OrderID (mem_left (bw_db w3)) ''items'' = Some iv" for y w3 iv
    using L [OF _ _ _ that(1)] that(2) e by simp
  ultimately show ?thesis using run x by blast
qed

text \<open>
  C37: A dead letter can be replayed: whatever the message and whatever fails, when the log of dead
  letters has changed after a message was processed, it has exactly one letter more, and reading
  that letter as JSON, with the tags of the struct, gives the topic of the message and its payload
  back, byte by byte but for bytes that are not valid UTF-8, each of which has become U+FFFD
  (\<open>to_valid\<close>, which by \<open>to_valid_id\<close> leaves every valid text as it is). So a payload with quotes,
  line breaks or broken JSON in it can be taken from the letter and published again.
\<close>

theorem dead_letter_replays:
  assumes C: "order_consumer repo invoices processed proc wr log cm committed"
    and run: "processMessage (billing_consumer topic cm repo wr proc tc tp tx) occ c msg w = (x, w')"
    and new: "log (bw_dlq w') \<noteq> log (bw_dlq w)"
  shows "\<exists>l d. log (bw_dlq w') = log (bw_dlq w) @ [l]
    \<and> unmarshal_json dec_DLQ zero_DLQ (msg_Value l) = Some d
    \<and> dlq_OriginalTopic d = to_valid (msg_Topic msg) \<and> dlq_Payload d = to_valid (msg_Value msg)"
proof -
  obtain fate where "letter_effect wr msg (carried_event (occ_newID occ) tc tp tx msg) fate (bw_dlq w) (bw_dlq w')"
    using order_consumer.message_effect [OF C run] by (elim conjE exE)
  then have "letter_sent wr msg (bw_dlq w) (bw_dlq w')" using new by (auto simp: letter_effect_def split: if_splits)
  then obtain d where d: "dlq_OriginalTopic d = msg_Topic msg" "dlq_Payload d = msg_Value msg"
    and k: "bw_dlq w' = snd (wr (dlq_message d) (bw_dlq w))"
    by (auto simp: letter_sent_def)
  have "log (bw_dlq w') = log (bw_dlq w) @ [dlq_message d]"
    using kafka_writer.write_cases [OF order_consumer.axioms(3) [OF C] prod.collapse [symmetric], of "dlq_message d" "bw_dlq w"]
      new by (simp add: k)
  then show ?thesis using d by (auto simp: read_dead_letter valid_letter_def)
qed

text \<open>A payload that is not JSON, with a quote and a line break in it.\<close>

definition broken_payload :: string where
  "broken_payload = [dquote, CHR 0x0A]"

lemma broken_payload_parse: "parse_json broken_payload = None"
  by (simp add: broken_payload_def parse_json_def skip_ws_def is_ws_def byte_def numeral_eq_Suc scan_string.simps(2))

lemma broken_payload_utf8: "utf8_valid broken_payload" "utf8_valid ''p''"
  by (simp_all add: broken_payload_def utf8_ascii byte_def)

theorem dead_letter_replays_witness:
  "\<exists>w' l d. processMessage (mem_billing_consumer ''p'') example_occasion \<lparr>ctx_request_id = None\<rparr>
      (example_message ''p'' ''OrderPaid'' broken_payload) (billing_example InvoiceStatusPending []) = (Returned (), w')
    \<and> mk_log (bw_dlq w') = [l] \<and> unmarshal_json dec_DLQ zero_DLQ (msg_Value l) = Some d
    \<and> dlq_OriginalTopic d = ''p'' \<and> dlq_Payload d = broken_payload"
proof -
  let ?m = "example_message ''p'' ''OrderPaid'' broken_payload" and ?w = "billing_example InvoiceStatusPending []"
  have m: "msg_Topic ?m = ''p''" "msg_Value ?m = broken_payload" by (simp_all add: example_message_def)
  have c: "carried_event (occ_newID example_occasion) ''c'' ''p'' ''x'' ?m = Unreadable"
    by (simp add: carried_event_def unmarshal_json_def m broken_payload_parse)
  obtain x w' where run: "processMessage (mem_billing_consumer ''p'') example_occasion \<lparr>ctx_request_id = None\<rparr>
      ?m ?w = (x, w')" by fastforce
  obtain fate where f: "consumed_as (mem_billing_consumer ''p'') mk_log (\<lambda>s. lookup_row pe_EventID (mem_right s))
        mem_committed example_occasion ?m fate ?w w'"
    and l: "letter_effect mem_write ?m Unreadable fate (bw_dlq ?w) (bw_dlq w')"
    using mem_consumer.message_effect [OF run] unfolding c by (elim conjE exE)
  have "lookup_row pe_EventID (mem_right (bw_db ?w)) (event_key ?m) = None"
    by (simp add: billing_example_def lookup_row_def)
  then have "fate \<noteq> Skipped" using f by (auto simp: consumed_as_def)
  then obtain d where "bw_dlq w' = snd (mem_write (dlq_message d) (bw_dlq ?w))"
    using l by (auto simp: letter_effect_def letter_sent_def)
  then have new: "mk_log (bw_dlq w') \<noteq> mk_log (bw_dlq ?w)" by (simp add: mem_write_def billing_example_def)
  from dead_letter_replays [OF mem_consumer.order_consumer_axioms run new] obtain l d
    where "mk_log (bw_dlq w') = mk_log (bw_dlq ?w) @ [l]" "unmarshal_json dec_DLQ zero_DLQ (msg_Value l) = Some d"
      "dlq_OriginalTopic d = ''p''" "dlq_Payload d = broken_payload"
    unfolding m to_valid_id [OF broken_payload_utf8(1)] to_valid_id [OF broken_payload_utf8(2)] by (elim exE conjE)
  moreover have "mk_log (bw_dlq ?w) = []" by (simp add: billing_example_def)
  ultimately show ?thesis using run message_run [OF run] by auto
qed

text \<open>
  C36: A failed event whose dead letter cannot be written is lost without a trace: over any
  repositories, broker and group, whatever made the message fail (the failure counter is how one
  sees that it did), when the write of its dead letter fails and the commit succeeds, the offset
  is committed all the same, while its event is not recorded, no invoice has changed and the log
  of dead letters has nothing new; so unless an earlier delivery of it left a letter the message is
  unaccounted for, and it will not be fetched again.
\<close>

theorem failed_dead_letter_is_lost:
  assumes C: "order_consumer repo invoices processed proc wr log cm committed"
    and run: "processMessage (billing_consumer topic cm repo wr proc tc tp tx) occ c msg w = (x, w')"
    and failed: "KafkaMessagesFailed (bw_metrics w') \<noteq> KafkaMessagesFailed (bw_metrics w)"
    and new: "processed (bw_db w) (event_key msg) = None"
    and lost: "\<And>d. dlq_Payload d = msg_Value msg \<Longrightarrow> log (snd (wr (dlq_message d) (bw_dlq w))) = log (bw_dlq w)"
    and commit: "fst (cm msg (bw_group w)) = None"
  shows "x = Returned () \<and> committed (bw_group w') = insert msg (committed (bw_group w))
    \<and> processed (bw_db w') = processed (bw_db w) \<and> invoices (bw_db w') = invoices (bw_db w)
    \<and> log (bw_dlq w') = log (bw_dlq w)
    \<and> ((\<forall>l \<in> set (log (bw_dlq w)). \<not> letter_for msg l) \<longrightarrow> \<not> accounted log processed committed w')"
proof -
  let ?con = "billing_consumer topic cm repo wr proc tc tp tx"
  obtain fate where x: "x = Returned ()" and f: "consumed_as ?con log processed committed occ msg fate w w'"
    and e: "invoice_effect (carried_event (occ_newID occ) tc tp tx msg) fate (invoices (bw_db w)) (invoices (bw_db w'))"
    and l: "letter_effect wr msg (carried_event (occ_newID occ) tc tp tx msg) fate (bw_dlq w) (bw_dlq w')"
    using order_consumer.message_effect [OF C run] by (elim conjE exE)
  have "fate = Dead" using f failed by (cases fate) (auto simp: consumed_as_def kafka_counters_def)
  then have g: "bw_group w' = snd (cm msg (bw_group w))" and p: "processed (bw_db w') = processed (bw_db w)"
    and i: "invoices (bw_db w') = invoices (bw_db w)" and d: "letter_sent wr msg (bw_dlq w) (bw_dlq w')"
    using f e l by (auto simp: consumed_as_def invoice_effect_def letter_effect_def split: carried.splits)
  have "committed (bw_group w') = insert msg (committed (bw_group w))"
    using kafka_committer.commit_ok [OF order_consumer.axioms(4) [OF C], of msg "bw_group w"] commit
    by (simp add: g prod_eq_iff)
  moreover have "log (bw_dlq w') = log (bw_dlq w)" using d lost by (auto simp: letter_sent_def)
  ultimately show ?thesis using x p i new by (auto simp: accounted_def)
qed

theorem failed_dead_letter_is_lost_witness:
  "\<exists>p w'. BuildPayload (Paid example_paid) = Inr p
    \<and> processMessage (mem_billing_consumer ''p'') example_occasion \<lparr>ctx_request_id = None\<rparr>
        (example_message ''p'' ''OrderPaid'' p) (empty_billing [Lost]) = (Returned (), w')
    \<and> mem_committed (bw_group w') = {example_message ''p'' ''OrderPaid'' p}
    \<and> \<not> accounted mk_log (\<lambda>s. lookup_row pe_EventID (mem_right s)) mem_committed w'"
proof -
  obtain p where p: "BuildPayload (Paid example_paid) = Inr p"
    and c: "carried_event (occ_newID example_occasion) ''c'' ''p'' ''x'' (example_message ''p'' ''OrderPaid'' p)
      = Event (BPaid \<lparr>bp_OrderID = ''items'', bp_PaidAt = 3\<rparr>)"
    using example_paid_carried by blast
  let ?m = "example_message ''p'' ''OrderPaid'' p" and ?w = "empty_billing [Lost]"
  obtain x w' where run: "processMessage (mem_billing_consumer ''p'') example_occasion \<lparr>ctx_request_id = None\<rparr> ?m ?w = (x, w')"
    by fastforce
  have "consumed_as (mem_billing_consumer ''p'') mk_log (\<lambda>s. lookup_row pe_EventID (mem_right s)) mem_committed
      example_occasion ?m Dead ?w w'"
    using refused_event_is_dead [OF mem_consumer.order_consumer_axioms run c] by simp
  then have "KafkaMessagesFailed (bw_metrics w') (message_label ?m) = 1"
    by (simp add: consumed_as_def inc_at_def)
  then have failed: "KafkaMessagesFailed (bw_metrics w') \<noteq> KafkaMessagesFailed (bw_metrics ?w)" by auto
  have lost: "mk_log (snd (mem_write m (bw_dlq ?w))) = mk_log (bw_dlq ?w)" for m
    by (simp add: mem_write_def empty_billing_def)
  have commit: "fst (mem_commit ?m (bw_group ?w)) = None" by (simp add: mem_commit_def)
  have new: "lookup_row pe_EventID (mem_right (bw_db ?w)) (event_key ?m) = None" by simp
  from failed_dead_letter_is_lost [OF mem_consumer.order_consumer_axioms run failed new lost commit]
  have "x = Returned ()" "mem_committed (bw_group w') = {?m}"
      "\<not> accounted mk_log (\<lambda>s. lookup_row pe_EventID (mem_right s)) mem_committed w'"
    by (simp_all add: mem_committed_def)
  with p run show ?thesis by blast
qed

end
