(* ===== verification/CrossService.thy ===== *)
theory CrossService
  imports OrderSystem Consumer
begin

text \<open>
  The two services together: what the order service writes to its outbox, once the relay has
  published it, is what the billing service's consumer reads. The JSON payload, the topic and the
  headers carry the event over; the key the consumer derives from the headers tells the events of
  the order service apart.
\<close>

section \<open>Messages on the way\<close>

text \<open>The broker gives a written message its partition and offset, and changes nothing else.\<close>

definition delivery :: "int \<Rightarrow> int64 \<Rightarrow> kafka_message \<Rightarrow> kafka_message" where
  "delivery part off m = m\<lparr>msg_Partition := part, msg_Offset := off\<rparr>"

lemma delivery_simps [simp]:
  "msg_Topic (delivery part off m) = msg_Topic m" "msg_Value (delivery part off m) = msg_Value m"
  "msg_Headers (delivery part off m) = msg_Headers m"
  by (simp_all add: delivery_def)

lemma row_message [simp]:
  "msg_Topic (event_message row) = oe_Topic row" "msg_Value (event_message row) = oe_Payload row"
  by (simp_all add: event_message_def)

lemma row_key:
  "oe_OrderID row \<noteq> [] \<Longrightarrow> oe_EventType row \<noteq> [] \<Longrightarrow>
   event_key (delivery part off (event_message row)) = oe_EventType row @ ''-'' @ oe_OrderID row"
  by (simp add: event_key_def extractHeader_def event_message_def)

lemma outbox_event_simps [simp]:
  "oe_Topic (outbox_event env order ty topic payload) = topic"
  "oe_Payload (outbox_event env order ty topic payload) = payload"
  "oe_OrderID (outbox_event env order ty topic payload) = OrderID order"
  "oe_EventType (outbox_event env order ty topic payload) = ty"
  by (simp_all add: outbox_event_def)

section \<open>An event that is recorded has been applied\<close>

context order_consumer
begin

lemma recorded_effect:
  assumes "processMessage (the_consumer topic tc tp tx) occ c msg w = (x, w')"
    and "carried_event (occ_newID occ) tc tp tx msg = Event ev"
    and "processed (bw_db w) (event_key msg) = None"
    and "processed (bw_db w') (event_key msg) \<noteq> None"
  shows "\<exists>new. invoice_step ev (invoices (bw_db w) (event_order ev)) = Some new
    \<and> invoices (bw_db w') (event_order ev) = Some new"
proof -
  obtain fate where f: "consumed_as (the_consumer topic tc tp tx) log processed committed occ msg fate w w'"
    and e: "invoice_effect (Event ev) fate (invoices (bw_db w)) (invoices (bw_db w'))"
    using message_effect [OF assms(1)] assms(2) by auto
  have "fate = Recorded" using f assms(3,4) by (cases fate) (auto simp: consumed_as_def)
  with e show ?thesis by (auto simp: invoice_effect_def)
qed

end

section \<open>Orders become invoices\<close>

definition billing_created :: "Order \<Rightarrow> BillingCreatedEvent" where
  "billing_created order =
     \<lparr>bc_OrderID = OrderID order, bc_Total = Total order, bc_Items = Items order, bc_CreatedAt = CreatedAt order\<rparr>"

lemma created_row:
  assumes B: "order_backend OT orders ET outbox txn get svc"
    and run: "CreateOrder svc env items s = (Inr order, s')"
    and topic: "os_topicMap svc EventOrderCreated = Some tc" "tc \<noteq> tp" "tc \<noteq> tx"
    and utf8: "utf8_valid (env_id env)" "list_all item_utf8 items" "env_id env \<noteq> []"
  shows "\<exists>row. outbox (st_db s') (env_event_id env) = Some row
    \<and> (\<forall>n part off. carried_event n tc tp tx (delivery part off (event_message row)) = Event (BCreated n (billing_created order)))"
proof -
  obtain t topic payload where o: "order = new_order env items t"
    and t: "os_topicMap svc EventOrderCreated = Some topic" and p: "BuildPayload (created_event order) = Inr payload"
    and out: "outbox (st_db s') = (outbox (st_db s))(env_event_id env \<mapsto>
        outbox_event env order EventOrderCreated topic payload)"
    using order_backend.CreateOrder_cases [OF B run] by (auto simp: order_written_def)
  have u: "event_utf8 (created_event order)"
    using utf8 by (simp add: created_event_def o new_order_def utf8_ascii byte_def)
  have "carried_event n tc tp tx (delivery part off (event_message (outbox_event env order EventOrderCreated topic payload))) =
      Event (BCreated n (billing_created order))" for n part off
    using unmarshal_Created [OF p [unfolded created_event_def] u [unfolded created_event_def]] t topic utf8(3)
    by (simp add: carried_event_def o billing_created_def)
  with out show ?thesis by simp
qed

text \<open>
  C10: A created order becomes an invoice for the same amount: when \<open>CreateOrder\<close> succeeds, the
  outbox holds the event of that call, and whenever the billing consumer of the creation topic
  processes a delivery of it, at any partition and offset, and records it as new, there is an
  invoice for the order, PENDING, with exactly the total the order service answered. (The texts
  of the request are valid UTF-8, as gRPC guarantees, and an invoice for the id does not exist
  yet; the services share the topic names.)
\<close>

theorem created_order_is_invoiced:
  assumes B: "order_backend OT orders ET outbox txn get svc"
    and C: "order_consumer repo invoices processed proc wr log cm committed"
    and run: "CreateOrder svc env items s = (Inr order, s')"
    and topic: "os_topicMap svc EventOrderCreated = Some tc" "tc \<noteq> tp" "tc \<noteq> tx"
    and utf8: "utf8_valid (env_id env)" "list_all item_utf8 items" "env_id env \<noteq> []"
  shows "\<exists>row. outbox (st_db s') (env_event_id env) = Some row
    \<and> (\<forall>part off occ c w x w'.
         processMessage (billing_consumer tc cm repo wr proc tc tp tx) occ c (delivery part off (event_message row)) w = (x, w')
         \<longrightarrow> invoices (bw_db w) (OrderID order) = None
         \<longrightarrow> processed (bw_db w) (event_key (delivery part off (event_message row))) = None
         \<longrightarrow> processed (bw_db w') (event_key (delivery part off (event_message row))) \<noteq> None
         \<longrightarrow> (\<exists>iv. invoices (bw_db w') (OrderID order) = Some iv \<and> inv_Amount iv = Total order
              \<and> inv_Status iv = InvoiceStatusPending \<and> inv_CreatedAt iv = CreatedAt order))"
proof -
  obtain row where row: "outbox (st_db s') (env_event_id env) = Some row"
    and carried: "\<forall>n part off. carried_event n tc tp tx (delivery part off (event_message row)) = Event (BCreated n (billing_created order))"
    using created_row [OF B run topic utf8] by (elim exE conjE)
  show ?thesis
  proof (rule exI [of _ row], intro conjI allI impI row)
    fix part off occ c w x w'
    assume "processMessage (billing_consumer tc cm repo wr proc tc tp tx) occ c (delivery part off (event_message row)) w = (x, w')"
      and none: "invoices (bw_db w) (OrderID order) = None"
      and "processed (bw_db w) (event_key (delivery part off (event_message row))) = None"
      and "processed (bw_db w') (event_key (delivery part off (event_message row))) \<noteq> None"
    from order_consumer.recorded_effect [OF C this(1) carried [rule_format] this(3,4)] none
    show "\<exists>iv. invoices (bw_db w') (OrderID order) = Some iv \<and> inv_Amount iv = Total order
              \<and> inv_Status iv = InvoiceStatusPending \<and> inv_CreatedAt iv = CreatedAt order"
      by (simp add: new_invoice_def billing_created_def)
  qed
qed

text \<open>On the reference store without faults, an event its handler accepts is recorded.\<close>

abbreviation mem_proc :: "billing_mem ProcessedEventRepository" where
  "mem_proc \<equiv> NewProcessedEventRepo (right_table pe_EventID)"

lemma mem_recorded:
  fixes w :: "(billing_mem, mem_kafka, mem_group) billing_world"
  assumes c: "carried_event (occ_newID occ) tc tp tx msg = Event ev"
    and h: "handle_event mem_billing ev w = (None, w1)"
    and w: "bw_db w = \<lparr>mem_left = l, mem_right = [], mem_faults = []\<rparr>"
    and w1: "bw_db w1 = \<lparr>mem_left = l1, mem_right = [], mem_faults = []\<rparr>"
  shows "\<exists>w'. processMessage (billing_consumer topic mem_commit mem_billing mem_write mem_proc tc tp tx) occ ct msg w = (Returned (), w')
    \<and> lookup_row pe_EventID (mem_right (bw_db w')) (event_key msg) \<noteq> None"
proof -
  let ?con = "billing_consumer topic mem_commit mem_billing mem_write mem_proc tc tp tx"
  have "OrderHandler_Handle (NewOrderHandler (NewBillingService mem_billing) mem_write tc tp tx) occ c' msg w = (Returned None, w1)" for c'
    using Handle_run [OF refl, of mem_billing mem_write tc tp tx occ msg w c'] by (simp add: c h dispatched_def)
  then have R: "Retry (occ_cancelled occ) 3 (attempt ?con occ ct msg) w = (Returned None, w1)"
    by (simp add: Retry_def numeral_3_eq_3 attempt_def)
  have e: "proc_Exists mem_proc (event_key msg) (bw_db w) = (Inr False, bw_db w)"
    by (simp add: w NewProcessedEventRepo_def eventRepository_Exists_def mem_store Let_def)
  have P: "processMessage ?con occ ct msg w = (Returned (), after_success ?con occ msg w1)"
    using R e by (simp add: processMessage_def attempt_def)
  have "lookup_row pe_EventID (mem_right (bw_db (after_success ?con occ msg w1))) (event_key msg) \<noteq> None"
    by (auto simp: after_success_def w1 NewProcessedEventRepo_def eventRepository_Save_def mem_store
        Let_def commit_offset_def lookup_row_def split: prod.split)
  with P show ?thesis by blast
qed

lemma mem_create_empty:
  fixes w :: "(billing_mem, mem_kafka, mem_group) billing_world"
  assumes "bw_db w = \<lparr>mem_left = [], mem_right = [], mem_faults = []\<rparr>"
  shows "\<exists>w1. handle_event mem_billing (BCreated newID e) w = (None, w1)
    \<and> bw_db w1 = \<lparr>mem_left = [new_invoice newID e], mem_right = [], mem_faults = []\<rparr>"
  using assms by (simp add: run_billing Let_def)

theorem created_order_is_invoiced_witness:
  "\<exists>order s' row w' iv. CreateOrder mem_service example_env [usd_item ''p'' 2 500] empty_state = (Inr order, s')
     \<and> mem_outbox (st_db s') ''e1'' = Some row
     \<and> processMessage (billing_consumer ''created'' mem_commit mem_billing mem_write mem_proc
          ''created'' ''paid'' ''cancelled'') example_occasion \<lparr>ctx_request_id = None\<rparr>
          (delivery 0 7 (event_message row)) (empty_billing []) = (Returned (), w')
     \<and> lookup_row inv_OrderID (mem_left (bw_db w')) (OrderID order) = Some iv \<and> inv_Amount iv = Total order"
proof -
  obtain order s' where run: "CreateOrder mem_service example_env [usd_item ''p'' 2 500] empty_state = (Inr order, s')"
    using example_create by blast
  have env: "utf8_valid (env_id example_env)" "list_all item_utf8 [usd_item ''p'' 2 500]" "env_id example_env \<noteq> []"
    by (simp_all add: item_utf8_def usd_item_def utf8_ascii byte_def)
  have topic: "os_topicMap mem_service EventOrderCreated = Some ''created''" "''created'' \<noteq> ''paid''" "''created'' \<noteq> ''cancelled''"
    by (simp_all add: mem_topics_def)
  obtain row where row: "mem_outbox (st_db s') (env_event_id example_env) = Some row"
    and all: "\<forall>part off occ c w x w'.
         processMessage (billing_consumer ''created'' mem_commit mem_billing mem_write mem_proc ''created'' ''paid'' ''cancelled'')
           occ c (delivery part off (event_message row)) w = (x, w')
         \<longrightarrow> lookup_row inv_OrderID (mem_left (bw_db w)) (OrderID order) = None
         \<longrightarrow> lookup_row pe_EventID (mem_right (bw_db w)) (event_key (delivery part off (event_message row))) = None
         \<longrightarrow> lookup_row pe_EventID (mem_right (bw_db w')) (event_key (delivery part off (event_message row))) \<noteq> None
         \<longrightarrow> (\<exists>iv. lookup_row inv_OrderID (mem_left (bw_db w')) (OrderID order) = Some iv \<and> inv_Amount iv = Total order
              \<and> inv_Status iv = InvoiceStatusPending \<and> inv_CreatedAt iv = CreatedAt order)"
    using created_order_is_invoiced [OF mem_backend.order_backend_axioms mem_consumer.order_consumer_axioms run topic env]
    by (elim exE conjE)
  have c: "carried_event (occ_newID example_occasion) ''created'' ''paid'' ''cancelled'' (delivery 0 7 (event_message row))
      = Event (BCreated (occ_newID example_occasion) (billing_created order))"
    using created_row [OF mem_backend.order_backend_axioms run topic env] row by auto
  have e: "bw_db (empty_billing []) = \<lparr>mem_left = [], mem_right = [], mem_faults = []\<rparr>"
    by (simp add: empty_billing_def)
  obtain w1 where h: "handle_event mem_billing (BCreated (occ_newID example_occasion) (billing_created order)) (empty_billing []) = (None, w1)"
      "bw_db w1 = \<lparr>mem_left = [new_invoice (occ_newID example_occasion) (billing_created order)], mem_right = [], mem_faults = []\<rparr>"
    using mem_create_empty [OF e] by blast
  obtain w' where w': "processMessage (billing_consumer ''created'' mem_commit mem_billing mem_write mem_proc
          ''created'' ''paid'' ''cancelled'') example_occasion \<lparr>ctx_request_id = None\<rparr>
          (delivery 0 7 (event_message row)) (empty_billing []) = (Returned (), w')"
      "lookup_row pe_EventID (mem_right (bw_db w')) (event_key (delivery 0 7 (event_message row))) \<noteq> None"
    using mem_recorded [OF c h(1) e h(2)] by blast
  from all [rule_format, OF w'(1) _ _ w'(2)] obtain iv where
    "lookup_row inv_OrderID (mem_left (bw_db w')) (OrderID order) = Some iv" "inv_Amount iv = Total order" by auto
  with run row w'(1) show ?thesis by (auto simp: example_env_def)
qed

lemma paid_row:
  assumes B: "order_backend OT orders ET outbox txn get svc"
    and run: "MarkOrderPaid svc env i s = (Inr order, s')"
    and topic: "os_topicMap svc EventOrderPaid = Some tp" "tp \<noteq> tx"
    and utf8: "utf8_valid i"
  shows "\<exists>row. outbox (st_db s') (env_event_id env) = Some row
    \<and> (\<forall>n part off. carried_event n tc tp tx (delivery part off (event_message row))
          = Event (BPaid \<lparr>bp_OrderID = i, bp_PaidAt = Unix (env_now env)\<rparr>))"
proof -
  let ?ev = "Paid \<lparr>op_OrderID = i, op_PaidAt = Unix (env_now env)\<rparr>"
  obtain topic payload where t: "os_topicMap svc EventOrderPaid = Some topic" and p: "BuildPayload ?ev = Inr payload"
    and out: "outbox (st_db s') = (outbox (st_db s))(env_event_id env \<mapsto> outbox_event env order EventOrderPaid topic payload)"
    using order_backend.MarkOrderPaid_cases [OF B run] by (auto simp: status_change_def order_written_def)
  have i: "i \<noteq> []" using run by (auto simp: MarkOrderPaid_def with_order_def)
  have "carried_event n tc tp tx (delivery part off (event_message (outbox_event env order EventOrderPaid topic payload))) =
      Event (BPaid \<lparr>bp_OrderID = i, bp_PaidAt = Unix (env_now env)\<rparr>)" for n part off
    using unmarshal_Paid [OF p] utf8 t topic i by (simp add: carried_event_def)
  with out show ?thesis by simp
qed

text \<open>
  C11: A payment reaches the invoice: when \<open>MarkOrderPaid\<close> succeeds, the outbox holds the event
  of that call, and whenever the billing consumer of the payment topic processes a delivery of it
  and records it as new, the invoice of the order was PENDING and is now PAID, at the second the
  order service paid it, and otherwise as it was.
\<close>

theorem payment_reaches_invoice:
  assumes B: "order_backend OT orders ET outbox txn get svc"
    and C: "order_consumer repo invoices processed proc wr log cm committed"
    and run: "MarkOrderPaid svc env i s = (Inr order, s')"
    and topic: "os_topicMap svc EventOrderPaid = Some tp" "tp \<noteq> tx"
    and utf8: "utf8_valid i"
  shows "\<exists>row. outbox (st_db s') (env_event_id env) = Some row
    \<and> (\<forall>part off occ c w x w'.
         processMessage (billing_consumer tp cm repo wr proc tc tp tx) occ c (delivery part off (event_message row)) w = (x, w')
         \<longrightarrow> processed (bw_db w) (event_key (delivery part off (event_message row))) = None
         \<longrightarrow> processed (bw_db w') (event_key (delivery part off (event_message row))) \<noteq> None
         \<longrightarrow> (\<exists>iv. invoices (bw_db w) i = Some iv \<and> inv_Status iv = InvoiceStatusPending
              \<and> invoices (bw_db w') i = Some (set_status InvoiceStatusPaid (Some (time_Unix (Unix (env_now env)))) iv)))"
proof -
  obtain row where row: "outbox (st_db s') (env_event_id env) = Some row"
    and carried: "\<forall>n part off. carried_event n tc tp tx (delivery part off (event_message row))
          = Event (BPaid \<lparr>bp_OrderID = i, bp_PaidAt = Unix (env_now env)\<rparr>)"
    using paid_row [OF B run topic utf8, of tc] by (elim exE conjE)
  show ?thesis
  proof (rule exI [of _ row], intro conjI allI impI row)
    fix part off occ c w x w'
    assume "processMessage (billing_consumer tp cm repo wr proc tc tp tx) occ c (delivery part off (event_message row)) w = (x, w')"
      and "processed (bw_db w) (event_key (delivery part off (event_message row))) = None"
      and "processed (bw_db w') (event_key (delivery part off (event_message row))) \<noteq> None"
    from order_consumer.recorded_effect [OF C this(1) carried [rule_format] this(2,3)]
    show "\<exists>iv. invoices (bw_db w) i = Some iv \<and> inv_Status iv = InvoiceStatusPending
              \<and> invoices (bw_db w') i = Some (set_status InvoiceStatusPaid (Some (time_Unix (Unix (env_now env)))) iv)"
      by (cases "invoices (bw_db w) i") (auto split: if_splits)
  qed
qed

theorem payment_reaches_invoice_witness:
  "\<exists>order s' row w' iv. MarkOrderPaid mem_service example_env ''o1'' (example_state OrderStatusCreated []) = (Inr order, s')
     \<and> mem_outbox (st_db s') ''e1'' = Some row
     \<and> processMessage (billing_consumer ''paid'' mem_commit mem_billing mem_write mem_proc
          ''created'' ''paid'' ''cancelled'') example_occasion \<lparr>ctx_request_id = None\<rparr>
          (delivery 0 7 (event_message row)) (billing_example InvoiceStatusPending []) = (Returned (), w')
     \<and> lookup_row inv_OrderID (mem_left (bw_db w')) ''o1'' = Some iv \<and> inv_Status iv = InvoiceStatusPaid"
proof -
  obtain order s' where run: "MarkOrderPaid mem_service example_env ''o1'' (example_state OrderStatusCreated []) = (Inr order, s')"
    by (simp add: run_mem Let_def)
  have topic: "os_topicMap mem_service EventOrderPaid = Some ''paid''" "''paid'' \<noteq> ''cancelled''" "utf8_valid ''o1''"
    by (simp_all add: mem_topics_def utf8_ascii byte_def)
  let ?con = "billing_consumer ''paid'' mem_commit mem_billing mem_write mem_proc ''created'' ''paid'' ''cancelled''"
  obtain row where row: "mem_outbox (st_db s') (env_event_id example_env) = Some row"
    and all: "\<forall>part off occ c w x w'. processMessage ?con occ c (delivery part off (event_message row)) w = (x, w')
         \<longrightarrow> lookup_row pe_EventID (mem_right (bw_db w)) (event_key (delivery part off (event_message row))) = None
         \<longrightarrow> lookup_row pe_EventID (mem_right (bw_db w')) (event_key (delivery part off (event_message row))) \<noteq> None
         \<longrightarrow> (\<exists>iv. lookup_row inv_OrderID (mem_left (bw_db w)) ''o1'' = Some iv \<and> inv_Status iv = InvoiceStatusPending
              \<and> lookup_row inv_OrderID (mem_left (bw_db w')) ''o1''
                = Some (set_status InvoiceStatusPaid (Some (time_Unix (Unix (env_now example_env)))) iv))"
    using payment_reaches_invoice [OF mem_backend.order_backend_axioms mem_consumer.order_consumer_axioms run topic, of "''created''"]
    by (elim exE conjE)
  let ?ev = "BPaid \<lparr>bp_OrderID = ''o1'', bp_PaidAt = Unix (env_now example_env)\<rparr>" and ?w = "billing_example InvoiceStatusPending []"
  have c: "carried_event (occ_newID example_occasion) ''created'' ''paid'' ''cancelled'' (delivery 0 7 (event_message row)) = Event ?ev"
    using paid_row [OF mem_backend.order_backend_axioms run topic, of "''created''"] row by auto
  have e: "bw_db ?w = \<lparr>mem_left = [example_invoice ''o1'' InvoiceStatusPending 5], mem_right = [], mem_faults = []\<rparr>"
    by (simp add: billing_example_def)
  obtain w1 l1 where h: "handle_event mem_billing ?ev ?w = (None, w1)"
      "bw_db w1 = \<lparr>mem_left = l1, mem_right = [], mem_faults = []\<rparr>"
    by (simp add: run_billing Let_def)
  obtain w' where w': "processMessage ?con example_occasion \<lparr>ctx_request_id = None\<rparr> (delivery 0 7 (event_message row)) ?w = (Returned (), w')"
      "lookup_row pe_EventID (mem_right (bw_db w')) (event_key (delivery 0 7 (event_message row))) \<noteq> None"
    using mem_recorded [OF c h(1) e h(2)] by blast
  have none: "lookup_row pe_EventID (mem_right (bw_db ?w)) (event_key (delivery 0 7 (event_message row))) = None"
    by (simp add: e)
  from all [rule_format, OF w'(1) none w'(2)] obtain iv where
    "lookup_row inv_OrderID (mem_left (bw_db w')) ''o1''
      = Some (set_status InvoiceStatusPaid (Some (time_Unix (Unix (env_now example_env)))) iv)" by auto
  with run row w'(1) show ?thesis by (auto simp: example_env_def)
qed

section \<open>The key of an event\<close>

lemma type_key_inject:
  assumes "ty @ ''-'' @ i = ty' @ ''-'' @ j"
    and "ty \<in> {EventOrderCreated, EventOrderPaid, EventOrderCancelled}"
    and "ty' \<in> {EventOrderCreated, EventOrderPaid, EventOrderCancelled}"
  shows "ty = ty' \<and> i = j"
  using assms by auto

lemma truthful_row:
  assumes T: "outbox_truthful ord out" and k: "out k = Some row"
  shows "oe_EventType row \<in> {EventOrderCreated, EventOrderPaid, EventOrderCancelled}"
    and "event_ids out (oe_OrderID row) (oe_EventType row) = {k}"
proof -
  let ?ids = "event_ids out (oe_OrderID row) (oe_EventType row)"
  have t: "order_truthful (ord (oe_OrderID row)) (event_ids out (oe_OrderID row))" and fin: "finite ?ids"
    using T by (simp_all add: outbox_truthful_def event_ids_finite)
  have mem: "k \<in> ?ids" using k by (simp add: event_ids_def)
  then obtain order where o: "ord (oe_OrderID row) = Some order"
    using t by (cases "ord (oe_OrderID row)") (auto simp: order_truthful_def)
  have c: "card ?ids = status_events order (oe_EventType row)" using t o by (simp add: order_truthful_def)
  have "0 < card ?ids" using mem fin by (auto simp: card_gt_0_iff)
  then show "oe_EventType row \<in> {EventOrderCreated, EventOrderPaid, EventOrderCancelled}"
    using c by (auto simp: status_events_def split: if_splits)
  have "card ?ids \<le> 1" unfolding c by (simp add: status_events_def)
  then show "?ids = {k}" using mem fin by (auto simp: card_le_Suc0_iff_eq)
qed

text \<open>
  Skipping duplicates never drops an event of its own, as long as calls of the order service do not
  overlap (theory Concurrent has what holds when they do): in every state reached from empty tables, two messages published for outbox rows of orders with an id have the
  same key, by which the consumer recognises an event, only when they are the same row, wherever
  and however often they are delivered. So what the consumer skips is a repetition of the event
  it has recorded.
\<close>

lemma keys_identify_events:
  assumes "order_system OT orders ET outbox txn get svc wr log r"
    and "orders (st_db s0) = Map.empty" and "outbox (st_db s0) = Map.empty"
    and "(order_step svc r orders)\<^sup>*\<^sup>* (s0, k0) (s, k)"
    and "outbox (st_db s) i = Some e1" and "outbox (st_db s) j = Some e2"
    and "oe_OrderID e1 \<noteq> []" and "oe_OrderID e2 \<noteq> []"
    and "event_key (delivery p1 o1 (event_message e1)) = event_key (delivery p2 o2 (event_message e2))"
  shows "i = j"
proof -
  have T: "outbox_truthful (orders (st_db s)) (outbox (st_db s))"
    using truthful_run [OF assms(1-4)] by simp
  note t1 = truthful_row [OF T assms(5)] and t2 = truthful_row [OF T assms(6)]
  have "oe_EventType e1 @ ''-'' @ oe_OrderID e1 = oe_EventType e2 @ ''-'' @ oe_OrderID e2"
    using assms(7-9) t1(1) t2(1) by (subst (asm) row_key, force, force, subst (asm) row_key, force, force)
  from type_key_inject [OF this t1(1) t2(1)] t1(2) t2(2) show ?thesis by simp
qed

lemma keys_identify_events_witness:
  "\<exists>order s. CreateOrder mem_service example_env [usd_item ''p'' 2 500] empty_state = (Inr order, s)
     \<and> (\<forall>i j e1 e2. mem_outbox (st_db s) i = Some e1 \<longrightarrow> mem_outbox (st_db s) j = Some e2
         \<longrightarrow> oe_OrderID e1 = ''o2'' \<longrightarrow> oe_OrderID e2 = ''o2''
         \<longrightarrow> event_key (delivery 0 1 (event_message e1)) = event_key (delivery 3 4 (event_message e2)) \<longrightarrow> i = j)"
proof -
  obtain order s where run: "CreateOrder mem_service example_env [usd_item ''p'' 2 500] empty_state = (Inr order, s)"
    using example_create by blast
  let ?k = "\<lparr>mk_log = [], mk_fates = []\<rparr>" and ?r = "NewRelay (right_table oe_ID) mem_write 2 0"
  have "order_step mem_service ?r mem_orders (empty_state, ?k) (s, ?k)"
    using run by (rule step_create [rotated]) (simp add: lookup_row_def)
  then have st: "(order_step mem_service ?r mem_orders)\<^sup>*\<^sup>* (empty_state, ?k) (s, ?k)" by blast
  have z: "mem_orders (st_db empty_state) = Map.empty" "mem_outbox (st_db empty_state) = Map.empty"
    by (simp_all add: lookup_row_def fun_eq_iff)
  from keys_identify_events [OF mem_system.order_system_axioms z st] run show ?thesis
    by (intro exI [of _ order] exI [of _ s]) simp
qed

end
