(* ===== verification/EndToEnd.thy ===== *)
theory EndToEnd
  imports CrossService
begin

text \<open>
  Both services as one system: the steps of the order service and its relay, and deliveries to
  the billing service's consumers of any message the relay has published, in any order, any
  number of times and with any failures. What holds in every reachable state: invoices are never
  made up, and what the billing service has recorded it has applied.
\<close>

section \<open>Steps of the system\<close>

text \<open>The texts of the requests are valid UTF-8, and identifiers are not empty.\<close>

definition clean_orders :: "Order view \<Rightarrow> bool" where
  "clean_orders ord \<longleftrightarrow>
     (\<forall>i order. ord i = Some order \<longrightarrow> i \<noteq> [] \<and> utf8_valid i \<and> list_all item_utf8 (Items order))"

inductive system_step ::
  "'db OrderService \<Rightarrow> ('db, 'k) Relay \<Rightarrow> ('db \<Rightarrow> Order view) \<Rightarrow> ('k \<Rightarrow> kafka_message list)
   \<Rightarrow> (string \<Rightarrow> ('bdb, 'bk, 'c) Consumer)
   \<Rightarrow> ('db order_state \<times> 'k) \<times> ('bdb, 'bk, 'c) billing_world
   \<Rightarrow> ('db order_state \<times> 'k) \<times> ('bdb, 'bk, 'c) billing_world \<Rightarrow> bool"
  for svc r orders log con where
  step_order: "order_step svc r orders (s, k) (s', k') \<Longrightarrow> clean_orders (orders (st_db s')) \<Longrightarrow>
    system_step svc r orders log con ((s, k), w) ((s', k'), w)"
| step_deliver: "m \<in> set (log k) \<Longrightarrow>
    processMessage (con topic) occ c (delivery part off m) w = (x, w') \<Longrightarrow>
    system_step svc r orders log con ((s, k), w) ((s, k), w')"

inductive_cases system_stepE: "system_step svc r orders log con (sk, w) (sk', w')"

section \<open>What rows, invoices and records say\<close>

text \<open>A row of the outbox is about an order and carries its event.\<close>

definition row_truth :: "(EventType \<Rightarrow> string option) \<Rightarrow> Order view \<Rightarrow> OutboxEvent \<Rightarrow> bool" where
  "row_truth topics ord e \<longleftrightarrow>
     topics (oe_EventType e) = Some (oe_Topic e)
     \<and> (\<exists>order. ord (oe_OrderID e) = Some order \<and> OrderID order = oe_OrderID e
          \<and> (oe_EventType e = EventOrderCreated \<and> Currency (Total order) = ''USD''
               \<and> BuildPayload (created_event order) = Inr (oe_Payload e)
           \<or> oe_EventType e = EventOrderPaid \<and> OrderStatus order = OrderStatusPaid
               \<and> (\<exists>t. BuildPayload (Paid \<lparr>op_OrderID = oe_OrderID e, op_PaidAt = t\<rparr>) = Inr (oe_Payload e))
           \<or> oe_EventType e = EventOrderCancelled \<and> OrderStatus order = OrderStatusCancelled
               \<and> (\<exists>t. BuildPayload (Cancelled \<lparr>ox_OrderID = oe_OrderID e, ox_CancelledAt = t\<rparr>) = Inr (oe_Payload e))))"

text \<open>An invoice is for an order and its amount, and ahead of it in nothing.\<close>

definition invoice_truth :: "Order view \<Rightarrow> string \<Rightarrow> Invoice \<Rightarrow> bool" where
  "invoice_truth ord i iv \<longleftrightarrow>
     (\<exists>order. ord i = Some order \<and> inv_OrderID iv = i \<and> inv_Amount iv = Total order
        \<and> inv_CreatedAt iv = CreatedAt order
        \<and> (inv_Status iv = InvoiceStatusPending
           \<or> inv_Status iv = InvoiceStatusPaid \<and> OrderStatus order = OrderStatusPaid
           \<or> inv_Status iv = InvoiceStatusCancelled \<and> OrderStatus order = OrderStatusCancelled))"

text \<open>What the record of an event says about the invoice of its order.\<close>

definition applied :: "EventType \<Rightarrow> Invoice option \<Rightarrow> bool" where
  "applied ty row \<longleftrightarrow>
     (case row of
        None \<Rightarrow> False
      | Some iv \<Rightarrow> (ty = EventOrderPaid \<longrightarrow> inv_Status iv = InvoiceStatusPaid)
                 \<and> (ty = EventOrderCancelled \<longrightarrow> inv_Status iv = InvoiceStatusCancelled))"

definition records_truth :: "ProcessedEvent view \<Rightarrow> Invoice view \<Rightarrow> bool" where
  "records_truth recs ivs \<longleftrightarrow>
     (\<forall>i ty. ty \<in> {EventOrderCreated, EventOrderPaid, EventOrderCancelled} \<longrightarrow>
        recs (ty @ ''-'' @ i) \<noteq> None \<longrightarrow> applied ty (ivs i))"

text \<open>The status an invoice has when it has caught up with its order.\<close>

definition invoice_status :: "string \<Rightarrow> string" where
  "invoice_status st =
     (if st = OrderStatusPaid then InvoiceStatusPaid
      else if st = OrderStatusCancelled then InvoiceStatusCancelled
      else InvoiceStatusPending)"

lemma created_event_kept: "order_kept (Some o1) (Some o2) \<Longrightarrow>
    created_event o2 = created_event o1 \<and> OrderID o2 = OrderID o1 \<and> Total o2 = Total o1
    \<and> CreatedAt o2 = CreatedAt o1 \<and> Items o2 = Items o1"
  by (cases o1; cases o2) (simp add: order_kept_Some created_event_def)

lemma row_truth_kept:
  assumes "row_truth topics ord e" and k: "\<And>i. order_kept (ord i) (ord' i)"
  shows "row_truth topics ord' e"
proof -
  obtain order where o: "ord (oe_OrderID e) = Some order"
    using assms(1) by (auto simp: row_truth_def)
  obtain o2 where o2: "ord' (oe_OrderID e) = Some o2"
    using k [of "oe_OrderID e"] o by (auto simp: order_kept_Some)
  have kept: "order_kept (Some order) (Some o2)" using k [of "oe_OrderID e"] o o2 by simp
  have "OrderStatus order \<in> {OrderStatusPaid, OrderStatusCancelled} \<longrightarrow> o2 = order"
    using kept by (simp add: order_kept_Some)
  with assms(1) o o2 created_event_kept [OF kept] show ?thesis
    by (auto simp: row_truth_def)
qed

lemma invoice_truth_kept:
  assumes "invoice_truth ord i iv" and k: "order_kept (ord i) (ord' i)"
  shows "invoice_truth ord' i iv"
proof -
  obtain order where o: "ord i = Some order" using assms(1) by (auto simp: invoice_truth_def)
  obtain o2 where o2: "ord' i = Some o2" using k o by (auto simp: order_kept_Some)
  have kept: "order_kept (Some order) (Some o2)" using k o o2 by simp
  have "OrderStatus order \<in> {OrderStatusPaid, OrderStatusCancelled} \<longrightarrow> o2 = order"
    using kept by (simp add: order_kept_Some)
  with assms(1) o o2 created_event_kept [OF kept] show ?thesis
    by (auto simp: invoice_truth_def)
qed

lemma row_truth_sent [simp]: "row_truth topics ord (mark_sent now e) = row_truth topics ord e"
  by (simp add: row_truth_def mark_sent_def)

section \<open>The order service keeps its ledger\<close>

text \<open>Every row of the outbox is true, and every message of the log is the message of a row.\<close>

definition ledger :: "(EventType \<Rightarrow> string option) \<Rightarrow> Order view \<Rightarrow> OutboxEvent view \<Rightarrow> kafka_message list \<Rightarrow> bool" where
  "ledger topics ord out lg \<longleftrightarrow>
     (\<forall>e \<in> ran out. row_truth topics ord e) \<and> (\<forall>m \<in> set lg. \<exists>e \<in> ran out. m = event_message e)"

lemma ledger_written:
  assumes L: "ledger (os_topicMap svc) ord out lg"
    and w: "order_written svc env order ev ty ord out ord' out'"
    and k: "\<And>i. order_kept (ord i) (ord' i)"
    and new: "\<And>topic payload. os_topicMap svc ty = Some topic \<Longrightarrow> BuildPayload ev = Inr payload \<Longrightarrow>
      ord' (OrderID order) = Some order \<Longrightarrow>
      row_truth (os_topicMap svc) ord' (outbox_event env order ty topic payload)"
  shows "ledger (os_topicMap svc) ord' out' lg"
proof -
  obtain topic payload where t: "os_topicMap svc ty = Some topic" "BuildPayload ev = Inr payload"
    and ord': "ord' = ord(OrderID order \<mapsto> order)" and none: "out (env_event_id env) = None"
    and out': "out' = out(env_event_id env \<mapsto> outbox_event env order ty topic payload)"
    using w by (auto simp: order_written_def)
  have r: "ran out' = insert (outbox_event env order ty topic payload) (ran out)"
    unfolding out' using none by (rule ran_map_upd)
  have "row_truth (os_topicMap svc) ord' (outbox_event env order ty topic payload)"
    by (rule new [OF t]) (simp add: ord')
  with L row_truth_kept [OF _ k] show ?thesis by (auto simp: ledger_def r)
qed

lemma ledger_kept:
  "ledger topics ord out lg \<Longrightarrow> unchanged orders outbox s s' \<Longrightarrow>
   ord = orders (st_db s) \<Longrightarrow> out = outbox (st_db s) \<Longrightarrow>
   ledger topics (orders (st_db s')) (outbox (st_db s')) lg"
  by (simp add: unchanged_def)

lemma ledger_relay:
  assumes L: "ledger topics ord out lg" and ms: "set ms \<subseteq> event_message ` pending out"
    and rows: "\<And>i. relay_row now ms (out i) (out' i)"
  shows "ledger topics ord out' (lg @ ms)"
proof -
  have new: "row_truth topics ord e" if e: "out' i = Some e" for i e
  proof -
    consider "out i = Some e" | e0 where "out i = Some e0" "e = mark_sent now e0"
      using rows [of i] e by (auto simp: relay_row_def)
    then show ?thesis using L by cases (auto simp: ledger_def intro: ranI)
  qed
  have old: "\<exists>e' \<in> ran out'. event_message e = event_message e'" if "e \<in> ran out" for e
  proof -
    obtain i where "out i = Some e" using \<open>e \<in> ran out\<close> by (auto simp: ran_def)
    with rows [of i] have "out' i = Some e \<or> out' i = Some (mark_sent now e)" by (auto simp: relay_row_def)
    then show ?thesis
    proof
      assume "out' i = Some e" then show ?thesis by (auto intro: ranI)
    next
      assume "out' i = Some (mark_sent now e)"
      then have "mark_sent now e \<in> ran out'" by (rule ranI)
      then show ?thesis by (rule rev_bexI) simp
    qed
  qed
  have "\<exists>e \<in> ran out'. m = event_message e" if "m \<in> set (lg @ ms)" for m
  proof -
    have "set ms \<subseteq> event_message ` ran out" using ms by (auto simp: pending_def)
    then have "m \<in> event_message ` ran out" using L that by (auto simp: ledger_def)
    with old show ?thesis by auto
  qed
  moreover have "\<forall>e \<in> ran out'. row_truth topics ord e" using new by (auto simp: ran_def)
  ultimately show ?thesis by (simp add: ledger_def)
qed

context order_system
begin

abbreviation ledger_of :: "'db order_state \<times> 'k \<Rightarrow> bool" where
  "ledger_of sk \<equiv> ledger (os_topicMap svc) (orders (st_db (fst sk))) (outbox (st_db (fst sk))) (log (snd sk))"

lemma ledger_step:
  assumes "order_step svc r orders (s, k) (s', k')" and g: "good (s, k)" and L: "ledger_of (s, k)"
  shows "ledger_of (s', k')"
proof -
  have kept: "order_kept (orders (st_db s) i) (orders (st_db s') i)" for i
    using good_step [OF assms(1) g] by simp
  note W = ledger_written [OF L [simplified] _ kept]
  show ?thesis
    using assms(1)
  proof cases
    case (step_create env items x)
    note C = CreateOrder_cases [OF step_create(3)]
    show ?thesis
    proof (cases x)
      case (Inl e)
      then show ?thesis using C ledger_kept [OF L [simplified], of orders outbox s s'] step_create(1) by auto
    next
      case (Inr order)
      then obtain t where o: "order = new_order env items t"
        and w: "order_written svc env order (created_event order) EventOrderCreated
             (orders (st_db s)) (outbox (st_db s)) (orders (st_db s')) (outbox (st_db s'))" using C by auto
      from W [OF w] show ?thesis
        using step_create(1) by (auto simp: row_truth_def o new_order_def)
    qed
  next
    case (step_get i x)
    then show ?thesis using GetOrder_cases [OF step_get(2)] ledger_kept [OF L [simplified], of orders outbox s s'] by auto
  next
    case (step_pay env i x)
    note C = MarkOrderPaid_cases [OF step_pay(2)]
    show ?thesis
    proof (cases x)
      case (Inl e)
      then show ?thesis using C ledger_kept [OF L [simplified], of orders outbox s s'] step_pay(1) by auto
    next
      case (Inr order)
      then obtain old where o: "order = old\<lparr>OrderStatus := OrderStatusPaid\<rparr>" "OrderID old = i"
        and w: "order_written svc env order (Paid \<lparr>op_OrderID = i, op_PaidAt = Unix (env_now env)\<rparr>) EventOrderPaid
             (orders (st_db s)) (outbox (st_db s)) (orders (st_db s')) (outbox (st_db s'))"
        using C by (auto simp: status_change_def)
      from W [OF w] show ?thesis using step_pay(1) by (auto simp: row_truth_def o)
    qed
  next
    case (step_cancel env i x)
    note C = CancelOrder_cases [OF step_cancel(2)]
    have "unchanged orders outbox s s' \<or> (\<exists>old order. order = old\<lparr>OrderStatus := OrderStatusCancelled\<rparr> \<and> OrderID old = i
      \<and> order_written svc env order (Cancelled \<lparr>ox_OrderID = i, ox_CancelledAt = Unix (env_now env)\<rparr>)
          EventOrderCancelled (orders (st_db s)) (outbox (st_db s)) (orders (st_db s')) (outbox (st_db s')))"
      using C by (auto simp: status_change_def split: sum.splits)
    then show ?thesis
    proof (elim disjE exE conjE)
      assume "unchanged orders outbox s s'"
      then show ?thesis using ledger_kept [OF L [simplified], of orders outbox s s'] step_cancel(1) by auto
    next
      fix old order
      assume o: "order = old\<lparr>OrderStatus := OrderStatusCancelled\<rparr>" "OrderID old = i"
        and w: "order_written svc env order (Cancelled \<lparr>ox_OrderID = i, ox_CancelledAt = Unix (env_now env)\<rparr>)
          EventOrderCancelled (orders (st_db s)) (outbox (st_db s)) (orders (st_db s')) (outbox (st_db s'))"
      from W [OF w] show ?thesis using step_cancel(1) by (auto simp: row_truth_def o)
    qed
  next
    case (step_relay now y db')
    have sp: "sent_published (outbox (st_db s)) (log k)" using g by (simp add: good_def)
    note S = cycle_safe [OF sp step_relay(2)]
    have rest: "orders db' = orders (st_db s)" using S by simp
    obtain ms evs where ms: "log k' = log k @ ms" "int (length ms) \<le> sint (rl_batchSize r)"
        "subseq ms (map event_message evs)" "sorted (map oe_CreatedAt evs)" "set evs \<subseteq> pending (outbox (st_db s))"
        "\<forall>i. relay_row now ms (outbox (st_db s) i) (outbox db' i)"
      using S [THEN conjunct2, THEN conjunct2] by (elim exE conjE)
    have "set ms \<subseteq> set (map event_message evs)" using ms(3) by (auto elim: list_emb_set)
    then have "set ms \<subseteq> event_message ` pending (outbox (st_db s))" using ms(5) by auto
    from ledger_relay [OF L [simplified] this ms(6) [rule_format]] show ?thesis
      by (simp add: step_relay(1) ms(1) rest)
  qed
qed

end

section \<open>What a delivered message is\<close>

lemma utf8_USD [simp]: "utf8_valid ''USD''"
  by (rule utf8_ascii) (simp add: byte_def)

lemma delivered_row:
  assumes "row_truth topics ord e" and "clean_orders ord"
    and t: "topics EventOrderCreated = Some tc" "topics EventOrderPaid = Some tp" "topics EventOrderCancelled = Some tx"
    and d: "tc \<noteq> tp" "tc \<noteq> tx" "tp \<noteq> tx"
  shows "\<exists>order. ord (oe_OrderID e) = Some order \<and> OrderID order = oe_OrderID e
    \<and> event_key (delivery part off (event_message e)) = oe_EventType e @ ''-'' @ oe_OrderID e
    \<and> oe_EventType e \<in> {EventOrderCreated, EventOrderPaid, EventOrderCancelled}
    \<and> (\<exists>ev. carried_event n tc tp tx (delivery part off (event_message e)) = Event ev \<and> event_order ev = oe_OrderID e
         \<and> (oe_EventType e = EventOrderCreated \<and> ev = BCreated n (billing_created order)
            \<or> oe_EventType e = EventOrderPaid \<and> OrderStatus order = OrderStatusPaid \<and> (\<exists>p. ev = BPaid p)
            \<or> oe_EventType e = EventOrderCancelled \<and> OrderStatus order = OrderStatusCancelled \<and> (\<exists>p. ev = BCancelled p)))"
proof -
  obtain order where o: "ord (oe_OrderID e) = Some order" "OrderID order = oe_OrderID e"
    and ty: "topics (oe_EventType e) = Some (oe_Topic e)"
    and alt: "oe_EventType e = EventOrderCreated \<and> Currency (Total order) = ''USD''
               \<and> BuildPayload (created_event order) = Inr (oe_Payload e)
           \<or> oe_EventType e = EventOrderPaid \<and> OrderStatus order = OrderStatusPaid
               \<and> (\<exists>t. BuildPayload (Paid \<lparr>op_OrderID = oe_OrderID e, op_PaidAt = t\<rparr>) = Inr (oe_Payload e))
           \<or> oe_EventType e = EventOrderCancelled \<and> OrderStatus order = OrderStatusCancelled
               \<and> (\<exists>t. BuildPayload (Cancelled \<lparr>ox_OrderID = oe_OrderID e, ox_CancelledAt = t\<rparr>) = Inr (oe_Payload e))"
    using assms(1) by (auto simp: row_truth_def)
  have c: "oe_OrderID e \<noteq> []" "utf8_valid (oe_OrderID e)" "list_all item_utf8 (Items order)"
    using assms(2) o(1) by (auto simp: clean_orders_def)
  have key: "event_key (delivery part off (event_message e)) = oe_EventType e @ ''-'' @ oe_OrderID e"
    using alt by (intro row_key c(1)) auto
  from alt show ?thesis
  proof (elim disjE conjE exE)
    assume a: "oe_EventType e = EventOrderCreated" "Currency (Total order) = ''USD''"
      and p: "BuildPayload (created_event order) = Inr (oe_Payload e)"
    have u: "event_utf8 (created_event order)"
      using a(2) c o(2) by (simp add: created_event_def)
    have "oe_Topic e = tc" using ty t a(1) by simp
    then have "carried_event n tc tp tx (delivery part off (event_message e)) = Event (BCreated n (billing_created order))"
      using unmarshal_Created [OF p [unfolded created_event_def] u [unfolded created_event_def]] d c(1) o(2)
      by (simp add: carried_event_def billing_created_def)
    with o a key show ?thesis by (simp add: billing_created_def)
  next
    fix x assume a: "oe_EventType e = EventOrderPaid" "OrderStatus order = OrderStatusPaid"
      and p: "BuildPayload (Paid \<lparr>op_OrderID = oe_OrderID e, op_PaidAt = x\<rparr>) = Inr (oe_Payload e)"
    have "oe_Topic e = tp" using ty t a(1) by simp
    then have "carried_event n tc tp tx (delivery part off (event_message e)) = Event (BPaid \<lparr>bp_OrderID = oe_OrderID e, bp_PaidAt = x\<rparr>)"
      using unmarshal_Paid [OF p] d c by (simp add: carried_event_def)
    with o a key show ?thesis by auto
  next
    fix x assume a: "oe_EventType e = EventOrderCancelled" "OrderStatus order = OrderStatusCancelled"
      and p: "BuildPayload (Cancelled \<lparr>ox_OrderID = oe_OrderID e, ox_CancelledAt = x\<rparr>) = Inr (oe_Payload e)"
    have "oe_Topic e = tx" using ty t a(1) by simp
    then have "carried_event n tc tp tx (delivery part off (event_message e)) = Event (BCancelled \<lparr>bx_OrderID = oe_OrderID e, bx_CancelledAt = x\<rparr>)"
      using unmarshal_Cancelled [OF p] c by (simp add: carried_event_def)
    with o a key show ?thesis by auto
  qed
qed

text \<open>The step of the invoice machine on a true event.\<close>

lemma true_event_step:
  assumes o: "ord i = Some order" "OrderID order = i"
    and ev: "ty = EventOrderCreated \<and> ev = BCreated n (billing_created order)
            \<or> ty = EventOrderPaid \<and> OrderStatus order = OrderStatusPaid \<and> (\<exists>p. ev = BPaid p)
            \<or> ty = EventOrderCancelled \<and> OrderStatus order = OrderStatusCancelled \<and> (\<exists>p. ev = BCancelled p)"
    and old: "\<And>iv. row = Some iv \<Longrightarrow> invoice_truth ord i iv"
    and step: "invoice_step ev row = Some new"
  shows "invoice_truth ord i new \<and> applied ty (Some new)"
proof (cases row)
  case None
  then show ?thesis
    using o ev step by (auto simp: invoice_truth_def applied_def new_invoice_def billing_created_def)
next
  case (Some iv)
  with old [OF Some] show ?thesis
    using o ev step by (auto simp: invoice_truth_def applied_def split: if_splits)
qed

lemma applied_kept: "applied ty old \<Longrightarrow> invoice_kept old new \<Longrightarrow> applied ty new"
  by (auto simp: applied_def invoice_kept_def split: option.splits)

lemma records_truth_new:
  assumes "records_truth recs ivs" and "applied ty (ivs i)"
    and "ty \<in> {EventOrderCreated, EventOrderPaid, EventOrderCancelled}"
  shows "records_truth (recs(ty @ ''-'' @ i \<mapsto> rec)) ivs"
  unfolding records_truth_def
proof (intro allI impI)
  fix j ty' assume t: "ty' \<in> {EventOrderCreated, EventOrderPaid, EventOrderCancelled}"
    and rj: "(recs(ty @ ''-'' @ i \<mapsto> rec)) (ty' @ ''-'' @ j) \<noteq> None"
  show "applied ty' (ivs j)"
  proof (cases "ty' @ ''-'' @ j = ty @ ''-'' @ i")
    case True
    with type_key_inject [OF True t assms(3)] assms(2) show ?thesis by simp
  next
    case False
    have "recs (ty' @ ''-'' @ j) \<noteq> None" using rj unfolding fun_upd_other [OF False] .
    with assms(1) t show ?thesis unfolding records_truth_def by blast
  qed
qed

section \<open>The system's invariant\<close>

locale two_services =
  O: order_system OT orders ET outbox txn get svc wr log r
  + B: order_consumer repo invoices processed proc wrb logb cm committed
  for OT :: "'db order_table" and orders :: "'db \<Rightarrow> Order view"
    and ET :: "'db outbox_table" and outbox :: "'db \<Rightarrow> OutboxEvent view"
    and txn :: "('db, unit) gorm_transaction" and get svc
    and wr :: "'k kafka_write" and log :: "'k \<Rightarrow> kafka_message list" and r
    and repo :: "'bdb BillingRepositoryInterface" and invoices :: "'bdb \<Rightarrow> Invoice view"
    and processed :: "'bdb \<Rightarrow> ProcessedEvent view" and proc :: "'bdb ProcessedEventRepository"
    and wrb :: "'bk kafka_write" and logb :: "'bk \<Rightarrow> kafka_message list"
    and cm :: "'c kafka_commit" and committed :: "'c \<Rightarrow> kafka_message set" +
  fixes tc tp tx :: string
  assumes topics: "os_topicMap svc EventOrderCreated = Some tc" "os_topicMap svc EventOrderPaid = Some tp"
      "os_topicMap svc EventOrderCancelled = Some tx"
    and different: "tc \<noteq> tp" "tc \<noteq> tx" "tp \<noteq> tx"
begin

abbreviation con :: "string \<Rightarrow> ('bdb, 'bk, 'c) Consumer" where
  "con topic \<equiv> billing_consumer topic cm repo wrb proc tc tp tx"

definition truthful :: "('db order_state \<times> 'k) \<times> ('bdb, 'bk, 'c) billing_world \<Rightarrow> bool" where
  "truthful x \<longleftrightarrow> (case x of (sk, w) \<Rightarrow>
     O.good sk \<and> O.ledger_of sk \<and> clean_orders (orders (st_db (fst sk)))
     \<and> (\<forall>i iv. invoices (bw_db w) i = Some iv \<longrightarrow> invoice_truth (orders (st_db (fst sk))) i iv)
     \<and> records_truth (processed (bw_db w)) (invoices (bw_db w)))"

lemma order_truthful_step:
  assumes T: "truthful ((s, k), w)" and st: "order_step svc r orders (s, k) (s', k')"
    and c: "clean_orders (orders (st_db s'))"
  shows "truthful ((s', k'), w)"
proof -
  have g: "O.good (s, k)" and L: "O.ledger_of (s, k)" using T by (simp_all add: truthful_def)
  note G = O.good_step [OF st g]
  have "invoice_truth (orders (st_db s')) i iv" if "invoices (bw_db w) i = Some iv" for i iv
  proof -
    have "invoice_truth (orders (st_db s)) i iv" using T that by (simp add: truthful_def)
    then show ?thesis by (rule invoice_truth_kept) (rule G [THEN conjunct2, rule_format])
  qed
  with T G [THEN conjunct1] O.ledger_step [OF st g L] c show ?thesis by (simp add: truthful_def)
qed

lemma deliver_truthful_step:
  assumes T: "truthful ((s, k), w)" and m: "m \<in> set (log k)"
    and p: "processMessage (con topic) occ c (delivery part off m) w = (x, w')"
  shows "truthful ((s, k), w')"
proof -
  let ?ord = "orders (st_db s)" and ?iv = "invoices (bw_db w)" and ?iv' = "invoices (bw_db w')"
  let ?recs = "processed (bw_db w)" and ?recs' = "processed (bw_db w')"
  have inv: "\<And>i iv. ?iv i = Some iv \<Longrightarrow> invoice_truth ?ord i iv" and recs: "records_truth ?recs ?iv"
    using T by (auto simp: truthful_def)
  obtain e where e: "m = event_message e" "row_truth (os_topicMap svc) ?ord e"
    using T m by (auto simp: truthful_def ledger_def)
  have clean: "clean_orders ?ord" using T by (simp add: truthful_def)
  let ?i = "oe_OrderID e" and ?ty = "oe_EventType e" and ?m = "delivery part off m"
  obtain order ev where o: "?ord ?i = Some order" "OrderID order = ?i"
    and key: "event_key ?m = ?ty @ ''-'' @ ?i" and ty: "?ty \<in> {EventOrderCreated, EventOrderPaid, EventOrderCancelled}"
    and ev: "carried_event (occ_newID occ) tc tp tx ?m = Event ev" "event_order ev = ?i"
    and kind: "?ty = EventOrderCreated \<and> ev = BCreated (occ_newID occ) (billing_created order)
            \<or> ?ty = EventOrderPaid \<and> OrderStatus order = OrderStatusPaid \<and> (\<exists>p. ev = BPaid p)
            \<or> ?ty = EventOrderCancelled \<and> OrderStatus order = OrderStatusCancelled \<and> (\<exists>p. ev = BCancelled p)"
    using delivered_row [OF e(2) clean topics different, of part off "occ_newID occ"] unfolding e(1)
    by (elim exE conjE)
  obtain fate where f: "consumed_as (con topic) logb processed committed occ ?m fate w w'"
    and eff: "invoice_effect (Event ev) fate ?iv ?iv'"
    using B.message_effect [OF p] ev(1) by auto
  show ?thesis
  proof (cases "fate = Unsaved \<or> fate = Recorded")
    case False
    then have "?iv' = ?iv" "?recs' = ?recs"
      using f eff by (cases fate; simp add: consumed_as_def invoice_effect_def)+
    with T show ?thesis by (simp add: truthful_def)
  next
    case True
    then obtain new where new: "invoice_step ev (?iv ?i) = Some new" "?iv' = ?iv(?i \<mapsto> new)"
      using eff ev(2) by (auto simp: invoice_effect_def)
    note N = true_event_step [OF o kind inv new(1)]
    have kept: "invoice_kept (?iv j) (?iv' j)" for j
      using invoice_step_kept [OF new(1)] by (simp add: new(2))
    have old: "records_truth ?recs ?iv'"
      using recs applied_kept [OF _ kept] by (auto simp: records_truth_def)
    have "records_truth ?recs' ?iv'"
    proof (cases "fate = Recorded")
      case True
      then have r: "?recs' = ?recs(event_key ?m \<mapsto> processed_record occ ?m)"
        using f by (simp add: consumed_as_def)
      have "applied ?ty (?iv' ?i)" using N by (simp add: new(2))
      from records_truth_new [OF old this ty] show ?thesis by (simp only: r key)
    next
      case False
      with True have "?recs' = ?recs" using f by (simp add: consumed_as_def)
      with old show ?thesis by simp
    qed
    moreover have "invoice_truth ?ord j iv" if "?iv' j = Some iv" for j iv
      using that inv N by (cases "j = ?i") (auto simp: new(2))
    ultimately show ?thesis using T by (simp add: truthful_def)
  qed
qed

lemma truthful_step:
  assumes "system_step svc r orders log con (sk, w) (sk', w')" and T: "truthful (sk, w)"
  shows "truthful (sk', w')"
  using assms(1)
proof (rule system_stepE)
  fix s k s' k'
  assume "sk = (s, k)" "sk' = (s', k')" "order_step svc r orders (s, k) (s', k')"
    "clean_orders (orders (st_db s'))" "w' = w"
  with T show ?thesis by (auto intro: order_truthful_step)
next
  fix m k topic occ c part off x s
  assume "sk = (s, k)" "sk' = (s, k)" "m \<in> set (log k)"
    "processMessage (con topic) occ c (delivery part off m) w = (x, w')"
  with T show ?thesis by (auto intro: deliver_truthful_step)
qed

lemma truthful_steps:
  assumes "(system_step svc r orders log con)\<^sup>*\<^sup>* x y" and "truthful x"
  shows "truthful y"
  using assms
proof (induction rule: rtranclp_induct)
  case (step y z)
  then show ?case
    using truthful_step [of "fst y" "snd y" "fst z" "snd z"] by simp
qed

text \<open>Everything starts from empty tables and an empty log.\<close>

definition fresh_start :: "('db order_state \<times> 'k) \<times> ('bdb, 'bk, 'c) billing_world \<Rightarrow> bool" where
  "fresh_start x \<longleftrightarrow> (case x of ((s, k), w) \<Rightarrow>
     orders (st_db s) = Map.empty \<and> outbox (st_db s) = Map.empty \<and> log k = []
     \<and> invoices (bw_db w) = Map.empty \<and> processed (bw_db w) = Map.empty)"

lemma fresh_truthful:
  assumes "fresh_start x"
  shows "truthful x"
proof -
  obtain s k w where x: "x = ((s, k), w)" by (metis surj_pair)
  have z: "orders (st_db s) = Map.empty" "outbox (st_db s) = Map.empty" "log k = []"
      "invoices (bw_db w) = Map.empty" "processed (bw_db w) = Map.empty"
    using assms by (simp_all add: x fresh_start_def)
  have "O.good (s, k)"
    by (simp add: O.good_def z outbox_truthful_def order_truthful_def event_ids_def sent_published_def)
  then show ?thesis
    by (simp add: truthful_def x z ledger_def clean_orders_def records_truth_def)
qed

lemma reachable_truthful:
  "(system_step svc r orders log con)\<^sup>*\<^sup>* x y \<Longrightarrow> fresh_start x \<Longrightarrow> truthful y"
  by (rule truthful_steps [OF _ fresh_truthful])

lemma event_recorded:
  assumes "truthful ((s, k), w)" and "orders (st_db s) i = Some order" and "0 < status_events order ty"
    and "\<And>e. e \<in> ran (outbox (st_db s)) \<Longrightarrow> oe_OrderID e = i \<Longrightarrow>
      processed (bw_db w) (oe_EventType e @ ''-'' @ i) \<noteq> None"
  shows "applied ty (invoices (bw_db w) i)"
proof -
  have T: "order_truthful (orders (st_db s) i) (event_ids (outbox (st_db s)) i)"
    and recs: "records_truth (processed (bw_db w)) (invoices (bw_db w))"
    using assms(1) by (simp_all add: truthful_def O.good_def outbox_truthful_def)
  have "card (event_ids (outbox (st_db s)) i ty) = status_events order ty"
    using T assms(2) by (simp add: order_truthful_def)
  with assms(3) have "event_ids (outbox (st_db s)) i ty \<noteq> {}" by auto
  then obtain e where e: "e \<in> ran (outbox (st_db s))" "oe_OrderID e = i" "oe_EventType e = ty"
    by (auto simp: event_ids_def intro: ranI)
  have "ty \<in> {EventOrderCreated, EventOrderPaid, EventOrderCancelled}"
    using assms(3) by (auto simp: status_events_def split: if_splits)
  moreover have "processed (bw_db w) (ty @ ''-'' @ i) \<noteq> None"
    using assms(4) [OF e(1,2)] e(3) by simp
  ultimately show ?thesis using recs unfolding records_truth_def by blast
qed

lemma recorded_agreement:
  assumes T: "truthful ((s, k), w)" and o: "orders (st_db s) i = Some order"
    and all: "\<And>e. e \<in> ran (outbox (st_db s)) \<Longrightarrow> oe_OrderID e = i \<Longrightarrow>
      processed (bw_db w) (oe_EventType e @ ''-'' @ i) \<noteq> None"
  shows "\<exists>iv. invoices (bw_db w) i = Some iv \<and> inv_Amount iv = Total order
    \<and> inv_Status iv = invoice_status (OrderStatus order)"
proof -
  have a: "applied ty (invoices (bw_db w) i)" if "0 < status_events order ty" for ty
    by (rule event_recorded [OF T o that all])
  have "applied EventOrderCreated (invoices (bw_db w) i)" by (rule a) (simp add: status_events_def)
  then obtain iv where iv: "invoices (bw_db w) i = Some iv"
    by (auto simp: applied_def split: option.splits)
  have truth: "invoice_truth (orders (st_db s)) i iv" using T iv by (simp add: truthful_def)
  have g: "O.good (s, k)" using T by (simp add: truthful_def)
  have st: "OrderStatus order \<in> {OrderStatusCreated, OrderStatusPaid, OrderStatusCancelled}"
    by (rule O.good_status [OF g o])
  have paid: "OrderStatus order = OrderStatusPaid \<longrightarrow> inv_Status iv = InvoiceStatusPaid"
    using a [of EventOrderPaid] iv by (simp add: status_events_def applied_def)
  have cancelled: "OrderStatus order = OrderStatusCancelled \<longrightarrow> inv_Status iv = InvoiceStatusCancelled"
    using a [of EventOrderCancelled] iv by (simp add: status_events_def applied_def)
  show ?thesis
    using iv truth o st paid cancelled by (auto simp: invoice_truth_def invoice_status_def)
qed

end

interpretation mem_two: two_services "left_table OrderID" mem_orders "right_table oe_ID" mem_outbox
    mem_transaction "OrderRepository_GetOrder (left_table OrderID)" mem_service mem_write mk_log
    "NewRelay (right_table oe_ID) mem_write 2 0" mem_billing
    "\<lambda>s. lookup_row inv_OrderID (mem_left s)" "\<lambda>s. lookup_row pe_EventID (mem_right s)"
    mem_proc mem_write mk_log mem_commit mem_committed "''created''" "''paid''" "''cancelled''"
  by (intro two_services.intro mem_system.order_system_axioms mem_consumer.order_consumer_axioms
      two_services_axioms.intro) (simp_all add: mem_topics_def)

text \<open>A run of the system on the reference stores: an order is created, published and delivered.\<close>

abbreviation mem_relay_50 :: "((Order, OutboxEvent) memdb, mem_kafka) Relay" where
  "mem_relay_50 \<equiv> NewRelay (right_table oe_ID) mem_write 2 0"

abbreviation mem_consumers :: "string \<Rightarrow> (billing_mem, mem_kafka, mem_group) Consumer" where
  "mem_consumers topic \<equiv> billing_consumer topic mem_commit mem_billing mem_write mem_proc ''created'' ''paid'' ''cancelled''"

lemma lookup_row_Nil [simp]: "lookup_row key [] = (\<lambda>_. None)"
  by (simp add: lookup_row_def fun_eq_iff)

lemma example_publish:
  "\<exists>order row s1 s2 k2. CreateOrder mem_service example_env [usd_item ''p'' 2 500] empty_state = (Inr order, s1)
     \<and> mem_left (st_db s1) = [order] \<and> mem_left s2 = [order] \<and> OrderID order = ''o2''
     \<and> Items order = [usd_item ''p'' 2 500] \<and> OrderStatus order = OrderStatusCreated
     \<and> processOnce mem_relay_50 3 (st_db s1) \<lparr>mk_log = [], mk_fates = []\<rparr> = (None, s2, k2)
     \<and> mem_outbox (st_db s1) ''e1'' = Some row \<and> mem_right s2 = [mark_sent 3 row]
     \<and> oe_EventType row = EventOrderCreated \<and> oe_OrderID row = ''o2'' \<and> mk_log k2 = [event_message row]"
proof -
  let ?o = "new_order example_env [usd_item ''p'' 2 500] 1000"
  have v: "validateItems [usd_item ''p'' 2 500] = None" by (simp add: validateItems_None)
  have t: "calcTotalUSD [usd_item ''p'' 2 500] ToUSD = Inr 1000" by (simp add: calcTotalUSD_def usd_item_def)
  obtain j where j: "enc_event (created_event ?o) = Some j"
    using example_marshal by (auto simp: created_event_def new_order_def)
  let ?row = "outbox_event example_env ?o EventOrderCreated ''created'' (print_json j)"
  have "\<exists>s1. CreateOrder mem_service example_env [usd_item ''p'' 2 500] empty_state = (Inr ?o, s1)
      \<and> st_db s1 = \<lparr>mem_left = [?o], mem_right = [?row], mem_faults = []\<rparr>"
    by (simp add: CreateOrder_write v t run_mem j Let_def)
  then obtain s1 where s1: "CreateOrder mem_service example_env [usd_item ''p'' 2 500] empty_state = (Inr ?o, s1)"
      "st_db s1 = \<lparr>mem_left = [?o], mem_right = [?row], mem_faults = []\<rparr>" by auto
  have r: "oe_ID ?row = ''e1''" "oe_Status ?row = EventStatusPending" by (simp_all add: outbox_event_def)
  have "processOnce mem_relay_50 3 (st_db s1) \<lparr>mk_log = [], mk_fates = []\<rparr> =
      (None, \<lparr>mem_left = [?o], mem_right = [mark_sent 3 ?row], mem_faults = []\<rparr>,
       \<lparr>mk_log = [event_message ?row], mk_fates = []\<rparr>)"
    by (simp add: s1(2) r run_relay mem_store Let_def)
  moreover have "mem_outbox (st_db s1) ''e1'' = Some ?row" by (simp add: s1(2) lookup_row_def r)
  moreover have "OrderID ?o = ''o2''" "Items ?o = [usd_item ''p'' 2 500]"
      "OrderStatus ?o = OrderStatusCreated" by (simp_all add: new_order_def)
  ultimately show ?thesis using s1
    by (intro exI [of _ ?o] exI [of _ ?row] exI [of _ s1] exI
        [of _ "\<lparr>mem_left = [?o], mem_right = [mark_sent 3 ?row], mem_faults = []\<rparr>"] exI
        [of _ "\<lparr>mk_log = [event_message ?row], mk_fates = []\<rparr>"]) simp
qed

lemma example_published:
  "\<exists>order row s k. (system_step mem_service mem_relay_50 mem_orders mk_log mem_consumers)\<^sup>*\<^sup>*
      ((empty_state, \<lparr>mk_log = [], mk_fates = []\<rparr>), empty_billing []) ((s, k), empty_billing [])
    \<and> mem_orders (st_db s) ''o2'' = Some order \<and> OrderStatus order = OrderStatusCreated
    \<and> mem_right (st_db s) = [mark_sent 3 row] \<and> mk_log k = [event_message row]
    \<and> oe_EventType row = EventOrderCreated \<and> oe_OrderID row = ''o2''
    \<and> carried_event (occ_newID example_occasion) ''created'' ''paid'' ''cancelled'' (delivery 0 7 (event_message row))
        = Event (BCreated (occ_newID example_occasion) (billing_created order))"
proof -
  let ?k = "\<lparr>mk_log = [], mk_fates = []\<rparr>"
  obtain order row s1 s2 k2
    where run: "CreateOrder mem_service example_env [usd_item ''p'' 2 500] empty_state = (Inr order, s1)"
    and o: "mem_left (st_db s1) = [order]" "mem_left s2 = [order]" "OrderID order = ''o2''"
      "Items order = [usd_item ''p'' 2 500]" "OrderStatus order = OrderStatusCreated"
    and relay: "processOnce mem_relay_50 3 (st_db s1) ?k = (None, s2, k2)"
    and row: "mem_outbox (st_db s1) ''e1'' = Some row" "mem_right s2 = [mark_sent 3 row]"
      "oe_EventType row = EventOrderCreated" "oe_OrderID row = ''o2''" "mk_log k2 = [event_message row]"
    using example_publish by (elim exE conjE)
  let ?s2 = "s1\<lparr>st_db := s2\<rparr>"
  have clean: "clean_orders (mem_orders s)" if "mem_left s = [order]" for s :: "(Order, OutboxEvent) memdb"
    using that o(3,4)
    by (auto simp: clean_orders_def lookup_row_def item_utf8_def usd_item_def utf8_ascii byte_def split: if_splits)
  have a: "system_step mem_service mem_relay_50 mem_orders mk_log mem_consumers
      ((empty_state, ?k), empty_billing []) ((s1, ?k), empty_billing [])"
    by (intro step_order order_step.step_create [OF _ run] clean o(1)) (simp add: lookup_row_def)
  have b: "system_step mem_service mem_relay_50 mem_orders mk_log mem_consumers
      ((s1, ?k), empty_billing []) ((?s2, k2), empty_billing [])"
    by (intro step_order order_step.step_relay [OF relay] clean) (simp add: o(2))
  have ab: "(system_step mem_service mem_relay_50 mem_orders mk_log mem_consumers)\<^sup>*\<^sup>*
      ((empty_state, ?k), empty_billing []) ((?s2, k2), empty_billing [])"
    using a b by (meson converse_rtranclp_into_rtranclp rtranclp.rtrancl_refl)
  have topic: "os_topicMap mem_service EventOrderCreated = Some ''created''" "''created'' \<noteq> ''paid''" "''created'' \<noteq> ''cancelled''"
    by (simp_all add: mem_topics_def)
  have env: "utf8_valid (env_id example_env)" "list_all item_utf8 [usd_item ''p'' 2 500]" "env_id example_env \<noteq> []"
    by (simp_all add: item_utf8_def usd_item_def utf8_ascii byte_def)
  have c: "carried_event (occ_newID example_occasion) ''created'' ''paid'' ''cancelled'' (delivery 0 7 (event_message row))
      = Event (BCreated (occ_newID example_occasion) (billing_created order))"
    using created_row [OF mem_backend.order_backend_axioms run topic env] row(1) by auto
  have "mem_orders s2 ''o2'' = Some order" by (simp add: lookup_row_def o(2,3))
  with ab row(2-5) c o(5) show ?thesis
    by (intro exI [of _ order] exI [of _ row] exI [of _ ?s2] exI [of _ k2]) simp
qed

lemma example_system_run:
  "\<exists>order s k w. (system_step mem_service mem_relay_50 mem_orders mk_log mem_consumers)\<^sup>*\<^sup>*
      ((empty_state, \<lparr>mk_log = [], mk_fates = []\<rparr>), empty_billing []) ((s, k), w)
    \<and> mem_orders (st_db s) ''o2'' = Some order
    \<and> (\<forall>e \<in> ran (mem_outbox (st_db s)).
         lookup_row pe_EventID (mem_right (bw_db w)) (oe_EventType e @ ''-'' @ ''o2'') \<noteq> None)"
proof -
  obtain order row s k where ab: "(system_step mem_service mem_relay_50 mem_orders mk_log mem_consumers)\<^sup>*\<^sup>*
      ((empty_state, \<lparr>mk_log = [], mk_fates = []\<rparr>), empty_billing []) ((s, k), empty_billing [])"
    and o: "mem_orders (st_db s) ''o2'' = Some order" "OrderStatus order = OrderStatusCreated"
    and row: "mem_right (st_db s) = [mark_sent 3 row]" "mk_log k = [event_message row]"
      "oe_EventType row = EventOrderCreated" "oe_OrderID row = ''o2''"
    and c: "carried_event (occ_newID example_occasion) ''created'' ''paid'' ''cancelled'' (delivery 0 7 (event_message row))
        = Event (BCreated (occ_newID example_occasion) (billing_created order))"
    using example_published by (elim exE conjE)
  let ?m = "delivery 0 7 (event_message row)"
  have e: "bw_db (empty_billing []) = \<lparr>mem_left = [], mem_right = [], mem_faults = []\<rparr>"
    by (simp add: empty_billing_def)
  obtain w1 where h: "handle_event mem_billing (BCreated (occ_newID example_occasion) (billing_created order)) (empty_billing []) = (None, w1)"
      "bw_db w1 = \<lparr>mem_left = [new_invoice (occ_newID example_occasion) (billing_created order)], mem_right = [], mem_faults = []\<rparr>"
    using mem_create_empty [OF e] by blast
  obtain w' where w': "processMessage (mem_consumers ''created'') example_occasion \<lparr>ctx_request_id = None\<rparr> ?m (empty_billing []) = (Returned (), w')"
      "lookup_row pe_EventID (mem_right (bw_db w')) (event_key ?m) \<noteq> None"
    using mem_recorded [OF c h(1) e h(2)] by blast
  have d: "system_step mem_service mem_relay_50 mem_orders mk_log mem_consumers ((s, k), empty_billing []) ((s, k), w')"
    by (rule step_deliver [where con = mem_consumers and topic = "''created''", OF _ w'(1)]) (simp add: row(2))
  have key: "event_key ?m = EventOrderCreated @ ''-'' @ ''o2''" using row_key [of row 0 7] row(3,4) by simp
  have ty: "oe_EventType e = EventOrderCreated" if "e \<in> ran (mem_outbox (st_db s))" for e
    using that row(3) by (auto simp: ran_def lookup_row_def row(1) mark_sent_def split: if_splits)
  have "\<forall>e \<in> ran (mem_outbox (st_db s)). lookup_row pe_EventID (mem_right (bw_db w')) (oe_EventType e @ ''-'' @ ''o2'') \<noteq> None"
    using w'(2) unfolding key by (intro ballI) (simp only: ty not_False_eq_True)
  moreover have "(system_step mem_service mem_relay_50 mem_orders mk_log mem_consumers)\<^sup>*\<^sup>*
      ((empty_state, \<lparr>mk_log = [], mk_fates = []\<rparr>), empty_billing []) ((s, k), w')"
    using ab d by (rule rtranclp.rtrancl_into_rtrancl)
  ultimately show ?thesis using o(1) by blast
qed

section \<open>Properties of the system\<close>

text \<open>
  Invoices are never made up: as long as calls of the order service do not overlap and messages are
  processed one at a time (both are single steps here; theory Concurrent takes them apart), in every
  state the two services can reach together from empty tables and an empty log, whatever calls arrive, whatever fails, and
  however often, in whatever order and to whichever topic's consumer the published messages are
  delivered, every invoice belongs to an order with its id, is for exactly the order's total and
  creation time, and is PAID or CANCELLED only when the order is. (Requests are valid UTF-8 and
  identifiers are not empty; the services agree on three different topic names.)
\<close>

lemma invoices_match_orders:
  assumes S: "two_services OT orders ET outbox txn get svc wr log r repo invoices processed proc wrb logb cm committed tc tp tx"
    and st: "(system_step svc r orders log (\<lambda>topic. billing_consumer topic cm repo wrb proc tc tp tx))\<^sup>*\<^sup>*
      x ((s, k), w)"
    and start: "x = ((s0, k0), w0)" "orders (st_db s0) = Map.empty" "outbox (st_db s0) = Map.empty" "log k0 = []"
      "invoices (bw_db w0) = Map.empty" "processed (bw_db w0) = Map.empty"
    and row: "invoices (bw_db w) i = Some iv"
  shows "\<exists>order. orders (st_db s) i = Some order \<and> inv_OrderID iv = i \<and> inv_Amount iv = Total order
    \<and> inv_CreatedAt iv = CreatedAt order
    \<and> (inv_Status iv = InvoiceStatusPending
       \<or> inv_Status iv = InvoiceStatusPaid \<and> OrderStatus order = OrderStatusPaid
       \<or> inv_Status iv = InvoiceStatusCancelled \<and> OrderStatus order = OrderStatusCancelled)"
proof -
  have f: "two_services.fresh_start orders outbox log invoices processed x"
    using start by (simp add: two_services.fresh_start_def [OF S])
  have "invoice_truth (orders (st_db s)) i iv"
    using two_services.reachable_truthful [OF S st f] row
    by (simp add: two_services.truthful_def [OF S])
  then show ?thesis by (simp add: invoice_truth_def)
qed

lemma invoices_match_orders_witness:
  "\<exists>order s k w iv. (system_step mem_service mem_relay_50 mem_orders mk_log mem_consumers)\<^sup>*\<^sup>*
      ((empty_state, \<lparr>mk_log = [], mk_fates = []\<rparr>), empty_billing []) ((s, k), w)
    \<and> lookup_row inv_OrderID (mem_left (bw_db w)) ''o2'' = Some iv
    \<and> mem_orders (st_db s) ''o2'' = Some order \<and> inv_Amount iv = Total order"
proof -
  obtain order s k w where run: "(system_step mem_service mem_relay_50 mem_orders mk_log mem_consumers)\<^sup>*\<^sup>*
      ((empty_state, \<lparr>mk_log = [], mk_fates = []\<rparr>), empty_billing []) ((s, k), w)"
    and o: "mem_orders (st_db s) ''o2'' = Some order"
    and all: "\<forall>e \<in> ran (mem_outbox (st_db s)).
         lookup_row pe_EventID (mem_right (bw_db w)) (oe_EventType e @ ''-'' @ ''o2'') \<noteq> None"
    using example_system_run by (elim exE conjE)
  have T: "mem_two.truthful ((s, k), w)"
    by (rule mem_two.reachable_truthful [OF run]) (simp add: mem_two.fresh_start_def)
  obtain iv where iv: "lookup_row inv_OrderID (mem_left (bw_db w)) ''o2'' = Some iv"
    using mem_two.recorded_agreement [OF T o all [rule_format]] by blast
  from invoices_match_orders [OF mem_two.two_services_axioms run refl _ _ _ _ _ iv]
  have "\<exists>order. mem_orders (st_db s) ''o2'' = Some order \<and> inv_Amount iv = Total order" by auto
  with run iv show ?thesis by blast
qed



end
