(* ===== verification/WellTyped.thy ===== *)
theory WellTyped
  imports EndToEnd
begin

text \<open>
  What the rows of both services look like in every reachable state: stored orders have passed
  validation and carry the total of their own items, and the status and the payment time of an
  invoice fit together.
\<close>

section \<open>Well-formed rows\<close>

definition order_typed :: "Converter \<Rightarrow> string \<Rightarrow> Order \<Rightarrow> bool" where
  "order_typed cv i order \<longleftrightarrow>
     OrderID order = i \<and> validateItems (Items order) = None
     \<and> calcTotalUSD (Items order) cv = Inr (Amount (Total order)) \<and> Currency (Total order) = ''USD''
     \<and> OrderStatus order \<in> {OrderStatusCreated, OrderStatusPaid, OrderStatusCancelled}"

definition invoice_typed :: "string \<Rightarrow> Invoice \<Rightarrow> bool" where
  "invoice_typed i iv \<longleftrightarrow>
     inv_OrderID iv = i
     \<and> inv_Status iv \<in> {InvoiceStatusPending, InvoiceStatusPaid, InvoiceStatusCancelled}
     \<and> (inv_PaidAt iv \<noteq> None \<longleftrightarrow> inv_Status iv = InvoiceStatusPaid)"

definition rows_typed :: "(string \<Rightarrow> 'r \<Rightarrow> bool) \<Rightarrow> 'r view \<Rightarrow> bool" where
  "rows_typed P rows \<longleftrightarrow> (\<forall>i row. rows i = Some row \<longrightarrow> P i row)"

lemma rows_typed_empty [simp]: "rows_typed P (\<lambda>_. None)"
  by (simp add: rows_typed_def)

lemma order_typed_kept:
  assumes "order_typed cv i o1" and "order_kept (Some o1) (Some o2)"
    and "OrderStatus o2 \<in> {OrderStatusCreated, OrderStatusPaid, OrderStatusCancelled}"
  shows "order_typed cv i o2"
  using assms(1,3) created_event_kept [OF assms(2)] by (simp add: order_typed_def)

lemma invoice_step_typed:
  assumes "invoice_step ev row = Some new" and "\<And>iv. row = Some iv \<Longrightarrow> invoice_typed (event_order ev) iv"
  shows "invoice_typed (event_order ev) new"
proof (cases row)
  case None
  with assms(1) show ?thesis by (cases ev) (auto simp: invoice_typed_def new_invoice_def)
next
  case (Some iv)
  with assms show ?thesis
    by (cases ev) (auto simp: invoice_typed_def set_status_def split: if_splits)
qed

section \<open>Every step keeps them\<close>

context order_system
begin

text \<open>A row only appears by a successful creation.\<close>

lemma new_row:
  assumes "order_step svc r orders (s, k) (s', k')" and "good (s, k)"
    and old: "orders (st_db s) i = None" and new: "orders (st_db s') i = Some order"
  shows "order_typed (os_converter svc) i order"
  using assms(1)
proof cases
  case (step_create env items x)
  note C = CreateOrder_cases [OF step_create(3)]
  show ?thesis
  proof (cases x)
    case (Inl e)
    with C old new show ?thesis by (simp add: unchanged_def)
  next
    case (Inr order')
    then obtain t where o: "order' = new_order env items t"
      and v: "validateItems items = None" "calcTotalUSD items (os_converter svc) = Inr t"
      and w: "order_written svc env order' (created_event order') EventOrderCreated
             (orders (st_db s)) (outbox (st_db s)) (orders (st_db s')) (outbox (st_db s'))" using C by auto
    have "i = env_id env" "order = order'"
      using order_written_db [OF w] old new by (auto simp: o new_order_def split: if_splits)
    with v show ?thesis by (simp add: order_typed_def o new_order_def)
  qed
next
  case (step_get j x)
  with GetOrder_cases [OF step_get(2)] old new show ?thesis by (simp add: unchanged_def)
next
  case (step_pay env j x)
  have "orders (st_db s') = orders (st_db s) \<or> (\<exists>old new. orders (st_db s) j = Some old
      \<and> orders (st_db s') = (orders (st_db s))(j \<mapsto> new))"
    using MarkOrderPaid_cases [OF step_pay(2)]
    by (auto simp: unchanged_def status_change_def dest!: order_written_db split: sum.splits)
  with old new show ?thesis by (auto split: if_splits)
next
  case (step_cancel env j x)
  have "orders (st_db s') = orders (st_db s) \<or> (\<exists>old new. orders (st_db s) j = Some old
      \<and> orders (st_db s') = (orders (st_db s))(j \<mapsto> new))"
    using CancelOrder_cases [OF step_cancel(2)]
    by (auto simp: unchanged_def status_change_def dest!: order_written_db split: sum.splits)
  with old new show ?thesis by (auto split: if_splits)
next
  case (step_relay now y db')
  with relay_step [OF step_relay(2) assms(2)] old new show ?thesis by simp
qed

lemma orders_typed_step:
  assumes "order_step svc r orders (s, k) (s', k')" and g: "good (s, k)"
    and T: "rows_typed (order_typed (os_converter svc)) (orders (st_db s))"
  shows "rows_typed (order_typed (os_converter svc)) (orders (st_db s'))"
  unfolding rows_typed_def
proof (intro allI impI)
  fix i order assume new: "orders (st_db s') i = Some order"
  note G = good_step [OF assms(1) g]
  show "order_typed (os_converter svc) i order"
  proof (cases "orders (st_db s) i")
    case None
    then show ?thesis by (rule new_row [OF assms(1) g _ new])
  next
    case (Some o1)
    have kept: "order_kept (Some o1) (Some order)" using G [THEN conjunct2, rule_format, of i] Some new by simp
    have old: "order_typed (os_converter svc) i o1" using T Some by (simp add: rows_typed_def)
    show ?thesis by (rule order_typed_kept [OF old kept good_status [OF G [THEN conjunct1] new]])
  qed
qed

end

context two_services
begin

lemma invoices_typed_step:
  assumes "processMessage (con topic) occ c m w = (x, w')"
    and T: "rows_typed invoice_typed (invoices (bw_db w))"
  shows "rows_typed invoice_typed (invoices (bw_db w'))"
proof -
  obtain fate where e: "invoice_effect (carried_event (occ_newID occ) tc tp tx m) fate
      (invoices (bw_db w)) (invoices (bw_db w'))"
    using B.message_effect [OF assms(1)] by auto
  have "invoices (bw_db w') = invoices (bw_db w)
      \<or> (\<exists>ev new. invoice_step ev (invoices (bw_db w) (event_order ev)) = Some new
           \<and> invoices (bw_db w') = (invoices (bw_db w))(event_order ev \<mapsto> new))"
    using e by (auto simp: invoice_effect_def split: carried.splits if_splits)
  then show ?thesis
  proof (elim disjE exE conjE)
    fix ev new assume n: "invoice_step ev (invoices (bw_db w) (event_order ev)) = Some new"
      "invoices (bw_db w') = (invoices (bw_db w))(event_order ev \<mapsto> new)"
    have "invoice_typed (event_order ev) new"
      using T by (intro invoice_step_typed [OF n(1)]) (simp add: rows_typed_def)
    with T show ?thesis by (auto simp: rows_typed_def n(2))
  qed (use T in simp)
qed

definition system_typed :: "('db order_state \<times> 'k) \<times> ('bdb, 'bk, 'c) billing_world \<Rightarrow> bool" where
  "system_typed x \<longleftrightarrow> (case x of (sk, w) \<Rightarrow>
     O.good sk \<and> rows_typed (order_typed (os_converter svc)) (orders (st_db (fst sk)))
     \<and> rows_typed invoice_typed (invoices (bw_db w)))"

lemma system_typed_step: "system_step svc r orders log con x y \<Longrightarrow> system_typed x \<Longrightarrow> system_typed y"
proof (induction rule: system_step.induct)
  case (step_order s k s' k' w)
  then have "O.good (s, k)" by (simp add: system_typed_def)
  with step_order O.good_step [OF step_order(1) this] O.orders_typed_step [OF step_order(1) this]
  show ?case by (simp add: system_typed_def)
next
  case (step_deliver m k topic occ c part off w x w' s)
  with invoices_typed_step [OF step_deliver(2)] show ?case by (simp add: system_typed_def)
qed

lemma system_typed_run:
  "(system_step svc r orders log con)\<^sup>*\<^sup>* x y \<Longrightarrow> fresh_start x \<Longrightarrow> system_typed y"
proof (induction rule: rtranclp_induct)
  case base
  then have "O.good (fst x)"
    using fresh_truthful [OF base] by (auto simp: truthful_def split: prod.splits)
  with base show ?case by (auto simp: system_typed_def fresh_start_def split: prod.splits)
qed (rule system_typed_step)

end

text \<open>
  C8: The rows of both services are well-typed for ever: in every state the two services can
  reach together from empty tables (calls and messages taken as whole steps), every stored order is under its own id, its items pass the
  validation, its total is what the total of its items computes to, in USD, and its status is one
  of the three; and every invoice is under the id of its order, has one of the three statuses of
  invoices, and has a payment time exactly when it is PAID.
\<close>

theorem rows_are_well_typed:
  assumes S: "two_services OT orders ET outbox txn get svc wr log r repo invoices processed proc wrb logb cm committed tc tp tx"
    and st: "(system_step svc r orders log (\<lambda>topic. billing_consumer topic cm repo wrb proc tc tp tx))\<^sup>*\<^sup>*
      x ((s, k), w)"
    and start: "x = ((s0, k0), w0)" "orders (st_db s0) = Map.empty" "outbox (st_db s0) = Map.empty" "log k0 = []"
      "invoices (bw_db w0) = Map.empty" "processed (bw_db w0) = Map.empty"
  shows "rows_typed (order_typed (os_converter svc)) (orders (st_db s))
    \<and> rows_typed invoice_typed (invoices (bw_db w))"
proof -
  have "two_services.fresh_start orders outbox log invoices processed x"
    using start by (simp add: two_services.fresh_start_def [OF S])
  from two_services.system_typed_run [OF S st this] show ?thesis
    by (simp add: two_services.system_typed_def [OF S])
qed

theorem rows_are_well_typed_witness:
  "\<exists>order s k w. (system_step mem_service mem_relay_50 mem_orders mk_log mem_consumers)\<^sup>*\<^sup>*
      ((empty_state, \<lparr>mk_log = [], mk_fates = []\<rparr>), empty_billing []) ((s, k), w)
    \<and> mem_orders (st_db s) ''o2'' = Some order
    \<and> calcTotalUSD (Items order) ToUSD = Inr (Amount (Total order))"
proof -
  obtain order s k w where run: "(system_step mem_service mem_relay_50 mem_orders mk_log mem_consumers)\<^sup>*\<^sup>*
      ((empty_state, \<lparr>mk_log = [], mk_fates = []\<rparr>), empty_billing []) ((s, k), w)"
    and o: "mem_orders (st_db s) ''o2'' = Some order"
    using example_system_run by (elim exE conjE)
  from rows_are_well_typed [OF mem_two.two_services_axioms run refl] o
  have "order_typed ToUSD ''o2'' order" by (simp add: rows_typed_def)
  with run o show ?thesis by (auto simp: order_typed_def)
qed

end
