(* ===== verification/Convergence.thy ===== *)
theory Convergence
  imports WellTyped
begin

text \<open>
  What happens when nothing fails: a consumer whose database answers applies and records every
  event the invoice accepts, so an order whose events have been published and are delivered in
  the order of its life ends up with the invoice it should have.
\<close>

section \<open>A healthy consumer\<close>

text \<open>The database answers, and a statement that is possible succeeds.\<close>

locale healthy_consumer =
  order_consumer repo invoices processed proc wr log cm committed
  for repo :: "'db BillingRepositoryInterface" and invoices :: "'db \<Rightarrow> Invoice view"
    and processed :: "'db \<Rightarrow> ProcessedEvent view" and proc :: "'db ProcessedEventRepository"
    and wr :: "'k kafka_write" and log :: "'k \<Rightarrow> kafka_message list"
    and cm :: "'c kafka_commit" and committed :: "'c \<Rightarrow> kafka_message set" +
  fixes up :: "'db \<Rightarrow> bool"
  assumes Exists_up: "up s \<Longrightarrow> proc_Exists proc i s = (x, s') \<Longrightarrow> (\<exists>b. x = Inr b) \<and> up s'"
    and Save_up: "up s \<Longrightarrow> processed s i = None \<Longrightarrow> proc_Save proc now i topic s = (y, s') \<Longrightarrow> y = None \<and> up s'"
    and Get_up: "up s \<Longrightarrow> repo_Get repo i s = (z, s') \<Longrightarrow> up s' \<and> (\<forall>e. z = Inl e \<longrightarrow> invoices s i = None)"
    and Create_up: "up s \<Longrightarrow> invoices s (inv_OrderID iv) = None \<Longrightarrow> repo_Create repo iv s = (y, s') \<Longrightarrow> y = None \<and> up s'"
    and Update_up: "up s \<Longrightarrow> invoices s i \<noteq> None \<Longrightarrow> repo_UpdateStatus repo i st p s = (y, s') \<Longrightarrow> y = None \<and> up s'"
begin

lemma found_up:
  assumes "up s" and "invoices s i = Some iv" and "repo_Get repo i s = (z, s')"
  shows "z = Inr iv \<and> up s' \<and> invoices s' = invoices s"
  using Get_up [OF assms(1,3)] Get_ok [of i s _ s'] Get_frame [OF assms(3)] assms(2,3) by (cases z) auto

lemma handle_up:
  assumes U: "up (bw_db w)" and n: "invoice_step ev (invoices (bw_db w) (event_order ev)) = Some new"
    and h: "handle_event repo ev w = (r, w')"
  shows "r = None \<and> up (bw_db w')"
proof -
  obtain z db1 where g: "repo_Get repo (event_order ev) (bw_db w) = (z, db1)" by fastforce
  note G = Get_up [OF U g] and fr = Get_frame [OF g]
  show ?thesis
  proof (cases ev)
    case (BCreated newID e)
    obtain y db2 where c: "repo_Create repo (new_invoice newID e) db1 = (y, db2)" by fastforce
    show ?thesis
      using h g G c fr Create_up [OF _ _ c]
      by (cases z) (auto simp: BCreated handle_event_def HandleOrderCreated_def)
  next
    case (BPaid e)
    then obtain iv where iv: "invoices (bw_db w) (bp_OrderID e) = Some iv" "inv_Status iv = InvoiceStatusPending"
      using n by (cases "invoices (bw_db w) (bp_OrderID e)") (auto split: if_splits)
    have F: "z = Inr iv" "up db1" "invoices db1 = invoices (bw_db w)"
      using found_up [OF U _ g] iv(1) by (simp_all add: BPaid)
    obtain y db2 where c: "repo_UpdateStatus repo (bp_OrderID e) InvoiceStatusPaid (Some (time_Unix (bp_PaidAt e))) db1 = (y, db2)"
      by fastforce
    have "y = None" "up db2" using Update_up [OF F(2) _ c] F(3) iv(1) by simp_all
    with h g F iv(2) c show ?thesis by (auto simp: BPaid handle_event_def HandleOrderPaid_def)
  next
    case (BCancelled e)
    then obtain iv where iv: "invoices (bw_db w) (bx_OrderID e) = Some iv"
      and st: "inv_Status iv = InvoiceStatusPending \<or> inv_Status iv = InvoiceStatusCancelled"
      using n by (cases "invoices (bw_db w) (bx_OrderID e)") (auto split: if_splits)
    have F: "z = Inr iv" "up db1" "invoices db1 = invoices (bw_db w)"
      using found_up [OF U _ g] iv by (simp_all add: BCancelled)
    obtain y db2 where c: "repo_UpdateStatus repo (bx_OrderID e) InvoiceStatusCancelled None db1 = (y, db2)"
      by fastforce
    have "y = None" "up db2" using Update_up [OF F(2) _ c] F(3) iv by simp_all
    with h g F st c show ?thesis by (auto simp: BCancelled handle_event_def HandleOrderCancelled_def)
  qed
qed

lemma healthy_message:
  assumes U: "up (bw_db w)" and c: "carried_event (occ_newID occ) tc tp tx msg = Event ev"
    and n: "invoice_step ev (invoices (bw_db w) (event_order ev)) = Some new"
    and unseen: "processed (bw_db w) (event_key msg) = None"
    and run: "processMessage (the_consumer topic tc tp tx) occ ct msg w = (x, w')"
  shows "up (bw_db w') \<and> invoices (bw_db w') = (invoices (bw_db w))(event_order ev \<mapsto> new)
    \<and> processed (bw_db w') = (processed (bw_db w))(event_key msg \<mapsto> processed_record occ msg)"
proof -
  let ?con = "the_consumer topic tc tp tx"
  obtain y db1 where e: "proc_Exists proc (event_key msg) (bw_db w) = (y, db1)" by fastforce
  have y: "y = Inr False" using Exists_up [OF U e] Exists_true [of "event_key msg" "bw_db w"] e unseen by auto
  have db1: "up db1" "processed db1 = processed (bw_db w)" "invoices db1 = invoices (bw_db w)"
    using Exists_up [OF U e] Exists_frame [OF e] by auto
  let ?w = "w\<lparr>bw_db := db1\<rparr>"
  obtain r w1 where h: "handle_event repo ev ?w = (r, w1)" by fastforce
  have r: "r = None" "up (bw_db w1)" using handle_up [OF _ _ h, of new] db1 n by simp_all
  have o: "invoices (bw_db w1) = (invoices (bw_db w))(event_order ev \<mapsto> new)"
    "processed (bw_db w1) = processed (bw_db w)"
    using handle_outcome [OF h] n by (auto simp: event_outcome_def r(1) db1)
  have "OrderHandler_Handle (NewOrderHandler (NewBillingService repo) wr tc tp tx) occ c' msg ?w = (Returned None, w1)" for c'
    using Handle_run [OF refl, of repo wr tc tp tx occ msg ?w c'] by (simp add: c h r(1) dispatched_def)
  then have R: "Retry (occ_cancelled occ) 3 (attempt ?con occ ct msg) ?w = (Returned None, w1)"
    by (simp add: Retry_def numeral_3_eq_3 attempt_def)
  have w': "w' = after_success ?con occ msg w1"
    using run R e by (simp add: processMessage_def attempt_def y)
  obtain z db2 where s: "proc_Save proc (occ_savedAt occ) (event_key msg) (msg_Topic msg) (bw_db w1) = (z, db2)"
    by fastforce
  have z: "z = None" "up db2" using Save_up [OF r(2) _ s] unseen by (simp_all add: o)
  show ?thesis
    using Save_ok [OF s [unfolded z(1)]] s
    by (auto simp: w' after_success_def z o commit_offset_def Let_def processed_record_def split: prod.splits)
qed

end

lemma visible_key_once: "length (filter (\<lambda>r. key r = k) (visible key rs)) \<le> 1"
proof (induction rs)
  case (Cons r rs)
  have "filter (\<lambda>x. key x = k \<and> key x \<noteq> key r) (visible key rs)
      = (if key r = k then [] else filter (\<lambda>x. key x = k) (visible key rs))"
    by (auto simp: filter_empty_conv intro: filter_cong)
  with Cons show ?case by (simp add: conj_commute)
qed simp

lemma visible_key_found:
  assumes "lookup_row key rs k \<noteq> None"
  shows "length (filter (\<lambda>r. key r = k) (visible key rs)) = 1"
proof -
  obtain r where "lookup_row key (visible key rs) k = Some r" using assms by (auto simp: lookup_visible)
  then have "r \<in> set (filter (\<lambda>r. key r = k) (visible key rs))"
    by (auto simp: lookup_row_def find_Some_iff)
  then have "0 < length (filter (\<lambda>r. key r = k) (visible key rs))" by (rule length_pos_if_in_set)
  with visible_key_once [of key k rs] show ?thesis by linarith
qed

interpretation mem_healthy: healthy_consumer mem_billing
    "\<lambda>s. lookup_row inv_OrderID (mem_left s)" "\<lambda>s. lookup_row pe_EventID (mem_right s)" mem_proc
    mem_write mk_log mem_commit mem_committed "\<lambda>s. mem_faults s = []"
proof (unfold_locales, goal_cases)
  case (1 s i x s')
  then show ?case
    by (auto simp: NewProcessedEventRepo_def eventRepository_Exists_def mem_store mem_tick_def Let_def split: option.splits)
next
  case (2 s i now topic y s')
  then show ?case
    by (auto simp: NewProcessedEventRepo_def eventRepository_Save_def mem_store mem_tick_def Let_def lookup_row_def)
next
  case (3 s i z s')
  then show ?case
    by (auto simp: NewBillingRepository_def BillingRepository_Get_def mem_store mem_tick_def Let_def lookup_row_def
        split: option.splits) (metis lookup_visible lookup_row_def)
next
  case (4 s iv y s')
  then show ?case
    by (auto simp: NewBillingRepository_def BillingRepository_Create_def mem_store mem_tick_def Let_def lookup_row_def)
next
  case (5 s i st p y s')
  then show ?case
    using visible_key_found [of inv_OrderID "mem_left s" i]
    by (auto simp: NewBillingRepository_def BillingRepository_UpdateStatus_def mem_store mem_tick_def Let_def)
qed

section \<open>Deliveries in the order of an order's life\<close>

text \<open>The kinds of the events of an order, in the order they happened.\<close>

definition life :: "Order \<Rightarrow> EventType list" where
  "life order =
     EventOrderCreated #
       (if OrderStatus order = OrderStatusPaid then [EventOrderPaid]
        else if OrderStatus order = OrderStatusCancelled then [EventOrderCancelled] else [])"

text \<open>Messages, each processed by the consumer of its topic.\<close>

fun consume_all ::
  "(string \<Rightarrow> ('db, 'k, 'c) Consumer) \<Rightarrow> (occasion \<times> ctx \<times> kafka_message) list
   \<Rightarrow> ('db, 'k, 'c) billing_world \<Rightarrow> ('db, 'k, 'c) billing_world" where
  "consume_all con [] w = w"
| "consume_all con ((occ, c, m) # ds) w = consume_all con ds (snd (processMessage (con (msg_Topic m)) occ c m w))"

definition delivery_of :: "OutboxEvent \<Rightarrow> occasion \<times> ctx \<times> kafka_message \<Rightarrow> bool" where
  "delivery_of e d \<longleftrightarrow> (\<exists>part off. snd (snd d) = delivery part off (event_message e))"

locale healthy_services = two_services +
  fixes up
  assumes healthy: "healthy_consumer repo invoices processed proc wrb logb cm committed up"
begin

lemma event_consumed:
  assumes T: "truthful ((s, k), w)" and e: "e \<in> ran (outbox (st_db s))" "event_message e \<in> set (log k)"
    and d: "delivery_of e (occ, c, m)" and U: "up (bw_db w)"
    and unseen: "processed (bw_db w) (oe_EventType e @ ''-'' @ oe_OrderID e) = None"
    and accept: "if oe_EventType e = EventOrderCreated then invoices (bw_db w) (oe_OrderID e) = None
      else map_option inv_Status (invoices (bw_db w) (oe_OrderID e)) = Some InvoiceStatusPending"
    and w': "w' = snd (processMessage (con topic) occ c m w)"
  shows "truthful ((s, k), w') \<and> up (bw_db w')
    \<and> processed (bw_db w') = (processed (bw_db w))(oe_EventType e @ ''-'' @ oe_OrderID e \<mapsto> processed_record occ m)
    \<and> (\<exists>new. invoices (bw_db w') (oe_OrderID e) = Some new
         \<and> (oe_EventType e = EventOrderCreated \<longrightarrow> inv_Status new = InvoiceStatusPending))"
proof -
  obtain part off where m: "m = delivery part off (event_message e)" using d by (auto simp: delivery_of_def)
  obtain x where run: "processMessage (con topic) occ c m w = (x, w')" using w' by (metis prod.collapse)
  have row: "row_truth (os_topicMap svc) (orders (st_db s)) e" and clean: "clean_orders (orders (st_db s))"
    using T e(1) by (simp_all add: truthful_def ledger_def)
  obtain order ev where key: "event_key m = oe_EventType e @ ''-'' @ oe_OrderID e"
    and ev: "carried_event (occ_newID occ) tc tp tx m = Event ev" "event_order ev = oe_OrderID e"
    and kind: "oe_EventType e = EventOrderCreated \<and> ev = BCreated (occ_newID occ) (billing_created order)
            \<or> oe_EventType e = EventOrderPaid \<and> OrderStatus order = OrderStatusPaid \<and> (\<exists>p. ev = BPaid p)
            \<or> oe_EventType e = EventOrderCancelled \<and> OrderStatus order = OrderStatusCancelled \<and> (\<exists>p. ev = BCancelled p)"
    using delivered_row [OF row clean topics different, of part off "occ_newID occ"] unfolding m
    by (elim exE conjE)
  obtain new where new: "invoice_step ev (invoices (bw_db w) (oe_OrderID e)) = Some new"
    and pend: "oe_EventType e = EventOrderCreated \<longrightarrow> inv_Status new = InvoiceStatusPending"
    using kind accept by (elim disjE conjE exE) (auto simp: billing_created_def)
  note H = healthy_consumer.healthy_message [OF healthy U ev(1) _ _ run, of new]
  have "up (bw_db w') \<and> invoices (bw_db w') = (invoices (bw_db w))(oe_OrderID e \<mapsto> new)
      \<and> processed (bw_db w') = (processed (bw_db w))(event_key m \<mapsto> processed_record occ m)"
    using H new unseen by (simp only: ev(2) key)
  moreover have "truthful ((s, k), w')" by (rule deliver_truthful_step [OF T e(2) run [unfolded m]])
  ultimately show ?thesis using pend by (simp add: key)
qed

lemma row_in_life:
  assumes T: "truthful ((s, k), w)" and e: "e \<in> ran (outbox (st_db s))"
    and o: "orders (st_db s) (oe_OrderID e) = Some order"
  shows "oe_EventType e \<in> set (life order)"
proof -
  have O: "outbox_truthful (orders (st_db s)) (outbox (st_db s))" using T by (simp add: truthful_def O.good_def)
  obtain j where j: "outbox (st_db s) j = Some e" using e by (auto simp: ran_def)
  have "card (event_ids (outbox (st_db s)) (oe_OrderID e) (oe_EventType e)) = status_events order (oe_EventType e)"
    using O o by (auto simp: outbox_truthful_def order_truthful_def dest!: spec [of _ "oe_OrderID e"])
  then have "status_events order (oe_EventType e) = 1" using truthful_row(2) [OF O j] by simp
  then show ?thesis by (auto simp: status_events_def life_def of_bool_def split: if_splits)
qed

lemma life_consumed:
  assumes T: "truthful ((s, k), w)" and o: "orders (st_db s) i = Some order" and U: "up (bw_db w)"
    and fresh: "invoices (bw_db w) i = None" "\<And>ty. processed (bw_db w) (ty @ ''-'' @ i) = None"
    and es: "map oe_EventType es = life order"
      "\<And>e. e \<in> set es \<Longrightarrow> e \<in> ran (outbox (st_db s)) \<and> oe_OrderID e = i \<and> event_message e \<in> set (log k)"
    and ds: "list_all2 delivery_of es ds"
  shows "\<exists>iv. invoices (bw_db (consume_all con ds w)) i = Some iv \<and> inv_Amount iv = Total order
    \<and> inv_Status iv = invoice_status (OrderStatus order)"
proof -
  let ?w' = "consume_all con ds w"
  have agree: ?thesis if T': "truthful ((s, k), ?w')"
    and all: "\<And>ty. ty \<in> set (life order) \<Longrightarrow> processed (bw_db ?w') (ty @ ''-'' @ i) \<noteq> None"
  proof (rule recorded_agreement [OF T' o])
    fix e assume "e \<in> ran (outbox (st_db s))" and i: "oe_OrderID e = i"
    then have "oe_EventType e \<in> set (life order)" using o by (intro row_in_life [OF T]) simp_all
    then show "processed (bw_db ?w') (oe_EventType e @ ''-'' @ i) \<noteq> None" by (rule all)
  qed
  obtain e1 es' where e1: "es = e1 # es'" "oe_EventType e1 = EventOrderCreated"
    and rest: "map oe_EventType es' = tl (life order)" using es(1) by (cases es) (auto simp: life_def)
  obtain d1 ds' where d1: "ds = d1 # ds'" "delivery_of e1 d1" "list_all2 delivery_of es' ds'"
    using ds e1(1) by (auto simp: list_all2_Cons1)
  obtain occ c m where d: "d1 = (occ, c, m)" by (cases d1)
  define w1 where "w1 = snd (processMessage (con (msg_Topic m)) occ c m w)"
  have i1: "e1 \<in> ran (outbox (st_db s))" "event_message e1 \<in> set (log k)" "oe_OrderID e1 = i"
    using es(2) [of e1] e1(1) by simp_all
  have "processed (bw_db w) (oe_EventType e1 @ ''-'' @ oe_OrderID e1) = None" by (rule fresh(2) [folded i1(3)])
  note S1 = event_consumed [OF T i1(1,2) d1(2) [unfolded d] U this _ w1_def]
  have T1: "truthful ((s, k), w1)" "up (bw_db w1)"
    and r1: "processed (bw_db w1) = (processed (bw_db w))(oe_EventType e1 @ ''-'' @ i \<mapsto> processed_record occ m)"
    and "\<exists>new. invoices (bw_db w1) i = Some new \<and> inv_Status new = InvoiceStatusPending"
    using S1 unfolding i1(3) by (simp_all only: e1(2) fresh(1) if_True simp_thms)
  then obtain new where n1: "invoices (bw_db w1) i = Some new" "inv_Status new = InvoiceStatusPending" by auto
  show ?thesis
  proof (cases es')
    case Nil
    then have "ds' = []" using d1(3) by simp
    then have w': "?w' = w1" by (simp add: d1(1) d w1_def)
    have "set (life order) = {EventOrderCreated}" using rest Nil by (auto simp: life_def split: if_splits)
    with T1 r1 e1(2) show ?thesis by (intro agree) (auto simp: w')
  next
    case (Cons e2 es2)
    have l: "life order = [EventOrderCreated, oe_EventType e2]" and ty: "oe_EventType e2 \<noteq> EventOrderCreated"
      and "es2 = []" using rest Cons by (auto simp: life_def split: if_splits)
    then obtain d2 where d2: "ds' = [d2]" "delivery_of e2 d2" using d1(3) Cons by (auto simp: list_all2_Cons1)
    obtain occ2 c2 m2 where dd: "d2 = (occ2, c2, m2)" by (cases d2)
    define w2 where "w2 = snd (processMessage (con (msg_Topic m2)) occ2 c2 m2 w1)"
    have i2: "e2 \<in> ran (outbox (st_db s))" "event_message e2 \<in> set (log k)" "oe_OrderID e2 = i"
      using es(2) [of e2] e1(1) Cons by simp_all
    have "processed (bw_db w1) (oe_EventType e2 @ ''-'' @ oe_OrderID e2) = None"
      using fresh(2) [of "oe_EventType e2"] ty by (simp add: r1 e1(2) i2(3))
    note S2 = event_consumed [OF T1(1) i2(1,2) d2(2) [unfolded dd] T1(2) this _ w2_def]
    have T2: "truthful ((s, k), w2)"
      and r2: "processed (bw_db w2) = (processed (bw_db w1))(oe_EventType e2 @ ''-'' @ i \<mapsto> processed_record occ2 m2)"
      using S2 ty n1 by (simp_all add: i2(3))
    have w': "?w' = w2" by (simp add: d1(1) d d2(1) dd w1_def w2_def)
    show ?thesis using T2 by (intro agree) (auto simp: w' l r2 r1 e1(2))
  qed
qed

end

interpretation mem_healthy_services: healthy_services "left_table OrderID" mem_orders "right_table oe_ID" mem_outbox
    mem_transaction "OrderRepository_GetOrder (left_table OrderID)" mem_service mem_write mk_log
    "NewRelay (right_table oe_ID) mem_write 2 0" mem_billing
    "\<lambda>s. lookup_row inv_OrderID (mem_left s)" "\<lambda>s. lookup_row pe_EventID (mem_right s)"
    mem_proc mem_write mk_log mem_commit mem_committed "''created''" "''paid''" "''cancelled''"
    "\<lambda>s. mem_faults s = []"
  by (intro healthy_services.intro mem_two.two_services_axioms healthy_services_axioms.intro
      mem_healthy.healthy_consumer_axioms)

text \<open>
  C6: Without failures every order gets its invoice: from any state the two services can reach
  (whatever failed before, calls and messages taken as whole steps), when the billing service has not yet seen the order, its database
  answers, and the events of the order, which have been published, are delivered in the order
  they happened, each at any partition and offset, then afterwards the invoice exists, is for the
  order's total, and has the status that corresponds to the order's.
\<close>

theorem healthy_services_converge:
  assumes H: "healthy_services OT orders ET outbox txn get svc wr log r repo invoices processed proc wrb logb cm committed tc tp tx up"
    and st: "(system_step svc r orders log (\<lambda>topic. billing_consumer topic cm repo wrb proc tc tp tx))\<^sup>*\<^sup>*
      x ((s, k), w)"
    and start: "x = ((s0, k0), w0)" "orders (st_db s0) = Map.empty" "outbox (st_db s0) = Map.empty" "log k0 = []"
      "invoices (bw_db w0) = Map.empty" "processed (bw_db w0) = Map.empty"
    and o: "orders (st_db s) i = Some order" and U: "up (bw_db w)"
    and fresh: "invoices (bw_db w) i = None" "\<And>ty. processed (bw_db w) (ty @ ''-'' @ i) = None"
    and es: "map oe_EventType es = life order"
      "\<And>e. e \<in> set es \<Longrightarrow> e \<in> ran (outbox (st_db s)) \<and> oe_OrderID e = i \<and> event_message e \<in> set (log k)"
    and ds: "list_all2 delivery_of es ds"
  shows "\<exists>iv. invoices (bw_db (consume_all (\<lambda>topic. billing_consumer topic cm repo wrb proc tc tp tx) ds w)) i = Some iv
    \<and> inv_Amount iv = Total order \<and> inv_Status iv = invoice_status (OrderStatus order)"
proof -
  have S: "two_services OT orders ET outbox txn get svc wr log r repo invoices processed proc wrb logb cm committed tc tp tx"
    by (rule healthy_services.axioms(1) [OF H])
  have f: "two_services.fresh_start orders outbox log invoices processed x"
    using start by (simp add: two_services.fresh_start_def [OF S])
  show ?thesis
    by (rule healthy_services.life_consumed [OF H two_services.reachable_truthful [OF S st f] o U fresh es ds])
qed

theorem healthy_services_converge_witness:
  "\<exists>order row s k iv. (system_step mem_service mem_relay_50 mem_orders mk_log mem_consumers)\<^sup>*\<^sup>*
      ((empty_state, \<lparr>mk_log = [], mk_fates = []\<rparr>), empty_billing []) ((s, k), empty_billing [])
    \<and> mem_orders (st_db s) ''o2'' = Some order
    \<and> lookup_row inv_OrderID (mem_left (bw_db (consume_all mem_consumers
        [(example_occasion, \<lparr>ctx_request_id = None\<rparr>, delivery 0 7 (event_message row))] (empty_billing [])))) ''o2'' = Some iv
    \<and> inv_Amount iv = Total order \<and> inv_Status iv = InvoiceStatusPending"
proof -
  obtain order row s k where run: "(system_step mem_service mem_relay_50 mem_orders mk_log mem_consumers)\<^sup>*\<^sup>*
      ((empty_state, \<lparr>mk_log = [], mk_fates = []\<rparr>), empty_billing []) ((s, k), empty_billing [])"
    and o: "mem_orders (st_db s) ''o2'' = Some order" "OrderStatus order = OrderStatusCreated"
    and row: "mem_right (st_db s) = [mark_sent 3 row]" "mk_log k = [event_message row]"
      "oe_EventType row = EventOrderCreated" "oe_OrderID row = ''o2''"
    using example_published by (elim exE conjE)
  let ?ds = "[(example_occasion, \<lparr>ctx_request_id = None\<rparr>, delivery 0 7 (event_message row))]"
  have m: "event_message (mark_sent 3 row) = event_message row" by (simp add: event_message_def mark_sent_def)
  have es: "map oe_EventType [mark_sent 3 row] = life order" using row(3) o(2) by (simp add: life_def mark_sent_def)
  have "mark_sent 3 row \<in> ran (mem_outbox (st_db s))" by (simp add: ran_lookup row(1))
  then have e: "e \<in> ran (mem_outbox (st_db s)) \<and> oe_OrderID e = ''o2'' \<and> event_message e \<in> set (mk_log k)"
    if "e \<in> set [mark_sent 3 row]" for e using that row(2,4) m by (simp add: mark_sent_def)
  have d: "list_all2 delivery_of [mark_sent 3 row] ?ds" by (auto simp: delivery_of_def m)
  have up: "mem_faults (bw_db (empty_billing [])) = []" by (simp add: empty_billing_def)
  from healthy_services_converge [OF mem_healthy_services.healthy_services_axioms run refl _ _ _ _ _ o(1) up _ _ es e d]
  obtain iv where "lookup_row inv_OrderID (mem_left (bw_db (consume_all mem_consumers ?ds (empty_billing [])))) ''o2'' = Some iv"
    "inv_Amount iv = Total order" "inv_Status iv = invoice_status (OrderStatus order)" by auto
  with run o show ?thesis by (auto simp: invoice_status_def)
qed

end
