(* ===== verification/BillingThreads.thy ===== *)
theory BillingThreads
  imports Consumer
begin

text \<open>
  The processing of a message, statement by statement: the consumers of the billing service run at
  the same time on one database, so what one does can fall between the read and the write of
  another. A handler is taken apart into its read and its write, the processing of a message into
  the steps of a thread; put together again without interference they are \<open>HandleOrder...\<close> and
  \<open>processMessage\<close>.
\<close>

section \<open>A handler in two statements\<close>

text \<open>
  The first half ends with an answer, or with \<open>None\<close>: go on to write. The second half is what
  follows.
\<close>

definition created_read ::
  "'db BillingRepositoryInterface \<Rightarrow> BillingCreatedEvent \<Rightarrow> 'db \<Rightarrow> go_error option option \<times> 'db" where
  "created_read repo event s =
     (case repo_Get repo (bc_OrderID event) s of
        (Inr _, s1) \<Rightarrow> (Some None, s1)
      | (Inl _, s1) \<Rightarrow> (None, s1))"

definition created_write ::
  "'db BillingRepositoryInterface \<Rightarrow> string \<Rightarrow> BillingCreatedEvent \<Rightarrow> ('db, 'k, 'c) service_call" where
  "created_write repo newID event w =
     (case repo_Create repo (new_invoice newID event) (bw_db w) of
        (Some _, db2) \<Rightarrow> (Some (AppErr (ErrInternalError ''failed to create invoice'')), w\<lparr>bw_db := db2\<rparr>)
      | (None, db2) \<Rightarrow> (None, w\<lparr>bw_db := db2, bw_metrics := count_created (bw_metrics w)\<rparr>))"

definition paid_read ::
  "'db BillingRepositoryInterface \<Rightarrow> BillingPaidEvent \<Rightarrow> 'db \<Rightarrow> go_error option option \<times> 'db" where
  "paid_read repo event s =
     (case repo_Get repo (bp_OrderID event) s of
        (Inl _, s1) \<Rightarrow> (Some (Some (AppErr (ErrNotFound ''invoice not found''))), s1)
      | (Inr invoice, s1) \<Rightarrow>
          if inv_Status invoice \<noteq> InvoiceStatusPending then
            (Some (Some (AppErr (ErrInvalidOrderState ''invoice cannot be paid: not in PENDING status''))), s1)
          else (None, s1))"

definition paid_write ::
  "'db BillingRepositoryInterface \<Rightarrow> BillingPaidEvent \<Rightarrow> ('db, 'k, 'c) service_call" where
  "paid_write repo event w =
     (let paidAt = time_Unix (bp_PaidAt event) in
      case repo_UpdateStatus repo (bp_OrderID event) InvoiceStatusPaid (Some paidAt) (bw_db w) of
        (Some _, db2) \<Rightarrow> (Some (AppErr (ErrInternalError ''failed to update invoice status'')), w\<lparr>bw_db := db2\<rparr>)
      | (None, db2) \<Rightarrow> (None, w\<lparr>bw_db := db2, bw_metrics := count_paid (bw_metrics w)\<rparr>))"

definition cancelled_read ::
  "'db BillingRepositoryInterface \<Rightarrow> BillingCancelledEvent \<Rightarrow> 'db \<Rightarrow> go_error option option \<times> 'db" where
  "cancelled_read repo event s =
     (case repo_Get repo (bx_OrderID event) s of
        (Inl _, s1) \<Rightarrow> (Some (Some (AppErr (ErrNotFound ''invoice not found''))), s1)
      | (Inr invoice, s1) \<Rightarrow>
          if inv_Status invoice = InvoiceStatusPaid then
            (Some (Some (AppErr (ErrInvalidOrderState ''paid invoice cannot be cancelled''))), s1)
          else if inv_Status invoice = InvoiceStatusCancelled then (Some None, s1)
          else if inv_Status invoice \<noteq> InvoiceStatusPending then
            (Some (Some (AppErr (ErrInvalidOrderState (''cannot cancel invoice in status '' @ inv_Status invoice)))), s1)
          else (None, s1))"

definition cancelled_write ::
  "'db BillingRepositoryInterface \<Rightarrow> BillingCancelledEvent \<Rightarrow> ('db, 'k, 'c) service_call" where
  "cancelled_write repo event w =
     (case repo_UpdateStatus repo (bx_OrderID event) InvoiceStatusCancelled None (bw_db w) of
        (Some _, db2) \<Rightarrow> (Some (AppErr (ErrInternalError ''failed to update invoice status'')), w\<lparr>bw_db := db2\<rparr>)
      | (None, db2) \<Rightarrow> (None, w\<lparr>bw_db := db2, bw_metrics := count_cancelled (bw_metrics w)\<rparr>))"

fun event_read :: "'db BillingRepositoryInterface \<Rightarrow> billing_event \<Rightarrow> 'db \<Rightarrow> go_error option option \<times> 'db" where
  "event_read repo (BCreated _ e) s = created_read repo e s"
| "event_read repo (BPaid e) s = paid_read repo e s"
| "event_read repo (BCancelled e) s = cancelled_read repo e s"

fun event_write :: "'db BillingRepositoryInterface \<Rightarrow> billing_event \<Rightarrow> ('db, 'k, 'c) service_call" where
  "event_write repo (BCreated newID e) w = created_write repo newID e w"
| "event_write repo (BPaid e) w = paid_write repo e w"
| "event_write repo (BCancelled e) w = cancelled_write repo e w"

lemmas halves =
  created_read_def created_write_def paid_read_def paid_write_def cancelled_read_def cancelled_write_def

lemma handle_event_halves:
  "handle_event repo ev w =
     (case event_read repo ev (bw_db w) of
        (Some r, s1) \<Rightarrow> (r, w\<lparr>bw_db := s1\<rparr>)
      | (None, s1) \<Rightarrow> event_write repo ev (w\<lparr>bw_db := s1\<rparr>))"
  by (cases ev)
     (simp_all add: handle_event_def halves HandleOrderCreated_def HandleOrderPaid_def HandleOrderCancelled_def
       Let_def split: prod.split sum.split option.split)

section \<open>The processing of a message as a thread\<close>

text \<open>
  What a thread is about to do: attempt \<open>i\<close> (its read), the write of attempt \<open>i\<close>, or what follows
  the answer of attempt \<open>i\<close>.
\<close>

datatype stage = Trying nat | Writing nat | Answered nat "go_error option"

text \<open>
  One step of the thread that processes \<open>msg\<close>; the result is what it does next, \<open>None\<close> when it
  is done. A message without an event is handled without the database, in one step.
\<close>

fun thread_next ::
  "('db, 'k, 'c) Consumer \<Rightarrow> 'db BillingRepositoryInterface \<Rightarrow> carried \<Rightarrow> occasion \<Rightarrow> ctx \<Rightarrow> kafka_message
   \<Rightarrow> stage \<Rightarrow> ('db, 'k, 'c) billing_world \<Rightarrow> stage option \<times> ('db, 'k, 'c) billing_world" where
  "thread_next con repo ca occ c msg (Trying i) w =
     (case ca of
        Event ev \<Rightarrow>
          (case event_read repo ev (bw_db w) of
             (Some r, s1) \<Rightarrow> (Some (Answered i r), w\<lparr>bw_db := s1\<rparr>)
           | (None, s1) \<Rightarrow> (Some (Writing i), w\<lparr>bw_db := s1\<rparr>))
      | _ \<Rightarrow> (case attempt con occ c msg w of (r, w1) \<Rightarrow> (Some (Answered i r), w1)))"
| "thread_next con repo ca occ c msg (Writing i) w =
     (case ca of
        Event ev \<Rightarrow> (case event_write repo ev w of (r, w1) \<Rightarrow> (Some (Answered i r), w1))
      | _ \<Rightarrow> (Some (Trying i), w))"
| "thread_next con repo ca occ c msg (Answered i None) w = (None, after_success con occ msg w)"
| "thread_next con repo ca occ c msg (Answered i (Some err)) w =
     (if i < 2 then
        (if occ_cancelled occ i then (None, after_failure con occ msg context_canceled w)
         else (Some (Trying (Suc i)), w))
      else (None, after_failure con occ msg err w))"

text \<open>A thread by itself, for at most \<open>n\<close> steps.\<close>

fun thread_alone ::
  "('db, 'k, 'c) Consumer \<Rightarrow> 'db BillingRepositoryInterface \<Rightarrow> carried \<Rightarrow> occasion \<Rightarrow> ctx \<Rightarrow> kafka_message
   \<Rightarrow> nat \<Rightarrow> stage option \<times> ('db, 'k, 'c) billing_world \<Rightarrow> stage option \<times> ('db, 'k, 'c) billing_world" where
  "thread_alone con repo ca occ c msg (Suc n) (Some st, w) =
     thread_alone con repo ca occ c msg n (thread_next con repo ca occ c msg st w)"
| "thread_alone con repo ca occ c msg n (st, w) = (st, w)"

lemma thread_alone_done [simp]: "thread_alone con repo ca occ c msg n (None, w) = (None, w)"
  by (cases n) simp_all

lemma thread_alone_add:
  "thread_alone con repo ca occ c msg (m + n) x =
     thread_alone con repo ca occ c msg n (thread_alone con repo ca occ c msg m x)"
proof (induction m arbitrary: x)
  case 0
  show ?case by (cases x) simp
next
  case (Suc m)
  obtain st w where "x = (st, w)" by fastforce
  then show ?case by (cases st) (simp_all add: Suc)
qed

text \<open>An attempt takes one step or two.\<close>

lemma attempt_alone:
  fixes con :: "('db, 'k, 'c) Consumer"
  assumes con: "con = billing_consumer topic cm repo wr proc tc tp tx"
    and ca: "ca = carried_event (occ_newID occ) tc tp tx msg"
    and a: "attempt con occ c msg w = (r, w')"
  shows "\<exists>m. m \<in> {1, 2} \<and> thread_alone con repo ca occ c msg m (Some (Trying i), w) = (Some (Answered i r), w')"
proof (cases "\<exists>ev. ca = Event ev")
  case False
  then have "thread_alone con repo ca occ c msg 1 (Some (Trying i), w) = (Some (Answered i r), w')"
    using a by (cases ca) simp_all
  then show ?thesis by blast
next
  case True
  then obtain ev where ev: "ca = Event ev" by blast
  define h :: "('db, 'k, 'c) OrderHandler" where "h = NewOrderHandler (NewBillingService repo) wr tc tp tx"
  have "dispatched repo h occ msg ca w (OrderHandler_Handle h occ (requestid_Set c (extractHeader msg ''x-request-id'')) msg w)"
    unfolding ca by (rule Handle_run [OF h_def])
  then have "handle_event repo ev w = (r, w')"
    using a by (simp add: ev con attempt_def dispatched_def h_def prod_eq_iff)
  then have "thread_alone con repo ca occ c msg 1 (Some (Trying i), w) = (Some (Answered i r), w')
      \<or> thread_alone con repo ca occ c msg 2 (Some (Trying i), w) = (Some (Answered i r), w')"
    by (auto simp: handle_event_halves ev numeral_2_eq_2 split: prod.splits option.splits)
  then show ?thesis by blast
qed

text \<open>The retries from attempt \<open>i\<close> on, and what follows them.\<close>

definition after_retries ::
  "('db, 'k, 'c) Consumer \<Rightarrow> occasion \<Rightarrow> kafka_message \<Rightarrow> go_error option outcome \<times> ('db, 'k, 'c) billing_world
   \<Rightarrow> ('db, 'k, 'c) billing_world" where
  "after_retries con occ msg x =
     (case x of
        (Panicked _, w) \<Rightarrow> w
      | (Returned (Some err), w) \<Rightarrow> after_failure con occ msg err w
      | (Returned None, w) \<Rightarrow> after_success con occ msg w)"

lemma retries_alone:
  fixes con :: "('db, 'k, 'c) Consumer"
  assumes con: "con = billing_consumer topic cm repo wr proc tc tp tx"
    and ca: "ca = carried_event (occ_newID occ) tc tp tx msg"
    and "0 < n" and "n + i = 3"
  shows "\<exists>m \<le> 3 * n. thread_alone con repo ca occ c msg m (Some (Trying i), w)
    = (None, after_retries con occ msg (retry_from n i (occ_cancelled occ) (attempt con occ c msg) err w))"
  using assms(3,4)
proof (induction n arbitrary: i err w)
  case (Suc n)
  let ?run = "thread_alone con repo ca occ c msg"
  obtain r w1 where a: "attempt con occ c msg w = (r, w1)" by fastforce
  obtain m where "m \<in> {1, 2}" and m: "?run m (Some (Trying i), w) = (Some (Answered i r), w1)"
    using attempt_alone [OF con ca a, of i] by (elim exE conjE)
  then have m1: "m \<le> 2" by auto
  have go: "?run (m + (1 + k)) (Some (Trying i), w) = ?run k (thread_next con repo ca occ c msg (Answered i r) w1)" for k
    unfolding thread_alone_add [of con repo ca occ c msg m "1 + k"] m by simp
  show ?case
  proof (cases r)
    case None
    with go [of 0] a m1 show ?thesis
      by (intro exI [of _ "m + 1"]) (simp add: after_retries_def)
  next
    case (Some e)
    show ?thesis
    proof (cases "0 < n")
      case False
      then have "i = 2" using Suc.prems by simp
      with False Some go [of 0] a m1 show ?thesis
        by (intro exI [of _ "m + 1"]) (simp add: after_retries_def)
    next
      case True
      then have i: "i < 2" using Suc.prems by simp
      have d: "\<not> sint (retry_base i) sdiv 5 \<le> 0" using retry_delay_positive [of i] i by simp
      show ?thesis
      proof (cases "occ_cancelled occ i")
        case True
        with \<open>0 < n\<close> i d Some go [of 0] a m1 show ?thesis
          by (intro exI [of _ "m + 1"]) (simp add: after_retries_def)
      next
        case False
        obtain k where k: "k \<le> 3 * n" "?run k (Some (Trying (Suc i)), w1)
            = (None, after_retries con occ msg (retry_from n (Suc i) (occ_cancelled occ) (attempt con occ c msg) (Some e) w1))"
          using Suc.IH [of "Suc i" w1 "Some e"] True Suc.prems(2) by auto
        have "?run (m + (1 + k)) (Some (Trying i), w)
            = (None, after_retries con occ msg (retry_from (Suc n) i (occ_cancelled occ) (attempt con occ c msg) err w))"
          unfolding go using k(2) True i d False Some a by simp
        then show ?thesis using k(1) m1 by (intro exI [of _ "m + (1 + k)"]) simp
      qed
    qed
  qed
qed simp

section \<open>A message as it begins\<close>

text \<open>The idempotency check: a recorded event only has its offset committed, another one gets a thread.\<close>

definition begin_message ::
  "('db, 'k, 'c) Consumer \<Rightarrow> kafka_message \<Rightarrow> ('db, 'k, 'c) billing_world
   \<Rightarrow> stage option \<times> ('db, 'k, 'c) billing_world" where
  "begin_message con msg w =
     (case proc_Exists (co_processedRepo con) (event_key msg) (bw_db w) of
        (Inr True, db1) \<Rightarrow> (None, commit_offset con msg (w\<lparr>bw_db := db1\<rparr>))
      | (_, db1) \<Rightarrow> (Some (Trying 0), w\<lparr>bw_db := db1\<rparr>))"

lemma thread_alone_more:
  assumes "thread_alone con repo ca occ c msg m x = (None, w)" and "m \<le> n"
  shows "thread_alone con repo ca occ c msg n x = (None, w)"
  using thread_alone_add [of con repo ca occ c msg m "n - m" x] assms by simp

lemma message_alone:
  fixes con :: "('db, 'k, 'c) Consumer"
  assumes con: "con = billing_consumer topic cm repo wr proc tc tp tx"
    and run: "processMessage con occ c msg w = (x, w')"
  shows "thread_alone con repo (carried_event (occ_newID occ) tc tp tx msg) occ c msg 9 (begin_message con msg w) = (None, w')"
proof -
  obtain y db1 where e: "proc_Exists (co_processedRepo con) (event_key msg) (bw_db w) = (y, db1)" by fastforce
  show ?thesis
  proof (cases "y = Inr True")
    case True
    then show ?thesis using run e by (simp add: begin_message_def processMessage_def)
  next
    case False
    let ?w = "w\<lparr>bw_db := db1\<rparr>"
    have b: "begin_message con msg w = (Some (Trying 0), ?w)"
      using e False by (simp add: begin_message_def split: sum.split bool.split)
    obtain r w1 where R: "Retry (occ_cancelled occ) 3 (attempt con occ c msg) ?w = (r, w1)" by fastforce
    have "w' = after_retries con occ msg (r, w1)"
      using run e R False
      by (simp add: processMessage_def after_retries_def attempt_def split: sum.splits bool.splits outcome.splits option.splits)
    moreover obtain m where "m \<le> 3 * 3" "thread_alone con repo (carried_event (occ_newID occ) tc tp tx msg) occ c msg m (Some (Trying 0), ?w)
        = (None, after_retries con occ msg (retry_from 3 0 (occ_cancelled occ) (attempt con occ c msg) None ?w))"
      using retries_alone [OF con refl, where n = 3 and i = 0 and occ = occ and msg = msg and c = c and w = ?w and err = None] by auto
    ultimately have "thread_alone con repo (carried_event (occ_newID occ) tc tp tx msg) occ c msg m (Some (Trying 0), ?w) = (None, w')"
      using R by (simp add: Retry_def)
    from thread_alone_more [OF this] show ?thesis using \<open>m \<le> 3 * 3\<close> by (simp add: b)
  qed
qed

text \<open>
  Processing a message is the run of its thread: for every message and every state of the
  database, the broker and the group, \<open>processMessage\<close> leaves what the steps of the thread leave
  when no other thread comes between them, the idempotency check, the read and the write of each
  attempt, and what follows the last answer; and it takes at most nine steps after the check.
\<close>

lemma message_is_a_thread:
  "thread_alone (billing_consumer topic cm repo wr proc tc tp tx) repo (carried_event (occ_newID occ) tc tp tx msg) occ c msg 9
     (begin_message (billing_consumer topic cm repo wr proc tc tp tx) msg w)
   = (None, snd (processMessage (billing_consumer topic cm repo wr proc tc tp tx) occ c msg w))"
  by (rule message_alone [OF refl prod.collapse [symmetric]])

end
