(* ===== verification/Interleaving.thy ===== *)
theory Interleaving
  imports EndToEnd BillingThreads
begin

text \<open>
  Both services with the consumers of the billing service interleaved statement by statement: any
  number of threads, each processing some delivery of a published message, on one database. The
  invariants of the whole messages survive: what a thread needs of the others is only that they
  undo nothing that has been applied.
\<close>

section \<open>Threads side by side\<close>

record consumer_thread =
  th_topic :: string
  th_occ :: occasion
  th_ctx :: ctx
  th_msg :: kafka_message
  th_stage :: stage

fun goes_on :: "consumer_thread \<Rightarrow> stage option \<Rightarrow> consumer_thread list" where
  "goes_on t None = []"
| "goes_on t (Some st) = [t\<lparr>th_stage := st\<rparr>]"

inductive interleaved_step ::
  "'db OrderService \<Rightarrow> ('db, 'k) Relay \<Rightarrow> ('db \<Rightarrow> Order view) \<Rightarrow> ('k \<Rightarrow> kafka_message list)
   \<Rightarrow> (string \<Rightarrow> ('bdb, 'bk, 'c) Consumer) \<Rightarrow> 'bdb BillingRepositoryInterface
   \<Rightarrow> (occasion \<Rightarrow> kafka_message \<Rightarrow> carried)
   \<Rightarrow> (('db order_state \<times> 'k) \<times> ('bdb, 'bk, 'c) billing_world) \<times> consumer_thread list
   \<Rightarrow> (('db order_state \<times> 'k) \<times> ('bdb, 'bk, 'c) billing_world) \<times> consumer_thread list \<Rightarrow> bool"
  for svc r orders log con repo ca where
  il_order: "order_step svc r orders (s, k) (s', k') \<Longrightarrow> clean_orders (orders (st_db s')) \<Longrightarrow>
    interleaved_step svc r orders log con repo ca (((s, k), w), ts) (((s', k'), w), ts)"
| il_begin: "m \<in> set (log k) \<Longrightarrow> begin_message (con (th_topic t)) (th_msg t) w = (st, w') \<Longrightarrow>
    th_msg t = delivery part off m \<Longrightarrow>
    interleaved_step svc r orders log con repo ca (((s, k), w), ts) (((s, k), w'), ts @ goes_on t st)"
| il_thread: "thread_next (con (th_topic t)) repo (ca (th_occ t) (th_msg t)) (th_occ t) (th_ctx t) (th_msg t)
      (th_stage t) w = (st, w') \<Longrightarrow>
    interleaved_step svc r orders log con repo ca (((s, k), w), xs @ t # ys) (((s, k), w'), xs @ goes_on t st @ ys)"

section \<open>What the halves of a handler do\<close>

text \<open>A write that succeeded, on the row it found then, which need not be the one that was read.\<close>

fun written :: "billing_event \<Rightarrow> Invoice option \<Rightarrow> Invoice \<Rightarrow> bool" where
  "written (BCreated newID e) row new \<longleftrightarrow> row = None \<and> new = new_invoice newID e"
| "written (BPaid e) row new \<longleftrightarrow>
     (\<exists>old. row = Some old \<and> new = set_status InvoiceStatusPaid (Some (time_Unix (bp_PaidAt e))) old)"
| "written (BCancelled e) row new \<longleftrightarrow> (\<exists>old. row = Some old \<and> new = set_status InvoiceStatusCancelled None old)"

text \<open>An event a read accepts without a write.\<close>

fun already :: "billing_event \<Rightarrow> Invoice option \<Rightarrow> bool" where
  "already (BCreated _ _) row \<longleftrightarrow> row \<noteq> None"
| "already (BPaid _) row \<longleftrightarrow> False"
| "already (BCancelled _) row \<longleftrightarrow> map_option inv_Status row = Some InvoiceStatusCancelled"

context billing_repository
begin

lemma event_read_effect:
  assumes "event_read repo ev s = (x, s')"
  shows "invoices s' = invoices s \<and> others s' = others s \<and> (x = Some None \<longrightarrow> already ev (invoices s (event_order ev)))"
proof -
  obtain y s1 where g: "repo_Get repo (event_order ev) s = (y, s1)" by fastforce
  note fr = Get_frame [OF g] and ok = Get_ok [of "event_order ev" s _ s1]
  show ?thesis
    using assms g fr ok by (cases ev; cases y) (auto simp: halves split: if_splits)
qed

lemma event_write_effect:
  assumes "event_write repo ev w = (r, w')"
  shows "others (bw_db w') = others (bw_db w)
    \<and> (case r of
         Some _ \<Rightarrow> invoices (bw_db w') = invoices (bw_db w)
       | None \<Rightarrow> (\<exists>new. written ev (invoices (bw_db w) (event_order ev)) new
                   \<and> invoices (bw_db w') = (invoices (bw_db w))(event_order ev \<mapsto> new)))"
proof (cases ev)
  case (BCreated newID e)
  obtain y db2 where c: "repo_Create repo (new_invoice newID e) (bw_db w) = (y, db2)" by fastforce
  show ?thesis
    using assms c Create_ok [of "new_invoice newID e" "bw_db w" db2] Create_err [of "new_invoice newID e" "bw_db w" _ db2]
    by (cases y) (auto simp: BCreated halves)
next
  case (BPaid e)
  let ?u = "repo_UpdateStatus repo (bp_OrderID e) InvoiceStatusPaid (Some (time_Unix (bp_PaidAt e))) (bw_db w)"
  obtain y db2 where c: "?u = (y, db2)" by fastforce
  show ?thesis
    using assms c Update_ok [where s = "bw_db w" and s' = db2, of "bp_OrderID e" InvoiceStatusPaid "Some (time_Unix (bp_PaidAt e))"]
      Update_err [where s = "bw_db w" and s' = db2, of "bp_OrderID e" InvoiceStatusPaid "Some (time_Unix (bp_PaidAt e))"]
    by (cases y) (auto simp: BPaid halves)
next
  case (BCancelled e)
  obtain y db2 where c: "repo_UpdateStatus repo (bx_OrderID e) InvoiceStatusCancelled None (bw_db w) = (y, db2)" by fastforce
  show ?thesis
    using assms c Update_ok [where s = "bw_db w" and s' = db2, of "bx_OrderID e" InvoiceStatusCancelled None]
      Update_err [where s = "bw_db w" and s' = db2, of "bx_OrderID e" InvoiceStatusCancelled None]
    by (cases y) (auto simp: BCancelled halves)
qed

end

text \<open>A true event written over a true row: nothing that was applied is undone.\<close>

lemma true_write:
  assumes o: "ord i = Some order" "OrderID order = i"
    and ev: "ty = EventOrderCreated \<and> ev = BCreated n (billing_created order)
            \<or> ty = EventOrderPaid \<and> OrderStatus order = OrderStatusPaid \<and> (\<exists>p. ev = BPaid p)
            \<or> ty = EventOrderCancelled \<and> OrderStatus order = OrderStatusCancelled \<and> (\<exists>p. ev = BCancelled p)"
    and old: "\<And>iv. row = Some iv \<Longrightarrow> invoice_truth ord i iv"
    and w: "written ev row new"
  shows "invoice_truth ord i new \<and> applied ty (Some new) \<and> (\<forall>ty'. applied ty' row \<longrightarrow> applied ty' (Some new))"
  using ev
proof (elim disjE conjE exE)
  assume "ty = EventOrderCreated" "ev = BCreated n (billing_created order)"
  with w o show ?thesis by (simp add: invoice_truth_def applied_def new_invoice_def billing_created_def)
next
  fix p assume a: "ty = EventOrderPaid" "OrderStatus order = OrderStatusPaid" "ev = BPaid p"
  then obtain iv where iv: "row = Some iv" "new = set_status InvoiceStatusPaid (Some (time_Unix (bp_PaidAt p))) iv"
    using w by auto
  with old [OF iv(1)] a o show ?thesis by (simp add: invoice_truth_def applied_def) auto
next
  fix p assume a: "ty = EventOrderCancelled" "OrderStatus order = OrderStatusCancelled" "ev = BCancelled p"
  then obtain iv where iv: "row = Some iv" "new = set_status InvoiceStatusCancelled None iv"
    using w by auto
  with old [OF iv(1)] a o show ?thesis by (simp add: invoice_truth_def applied_def) auto
qed

lemma already_applied:
  assumes ev: "ty = EventOrderCreated \<and> ev = BCreated n e
            \<or> ty = EventOrderPaid \<and> P \<and> (\<exists>p. ev = BPaid p)
            \<or> ty = EventOrderCancelled \<and> Q \<and> (\<exists>p. ev = BCancelled p)"
    and "already ev row"
  shows "applied ty row"
  using assms by (cases row) (auto simp: applied_def)

section \<open>The invariant of the threads\<close>

text \<open>
  What a thread relies on: its message is that of a true row, and when it has been answered with
  success, the event is applied.
\<close>

definition thread_ok :: "(EventType \<Rightarrow> string option) \<Rightarrow> Order view \<Rightarrow> Invoice view \<Rightarrow> consumer_thread \<Rightarrow> bool" where
  "thread_ok topics ord ivs t \<longleftrightarrow>
     (\<exists>e part off. th_msg t = delivery part off (event_message e) \<and> row_truth topics ord e
        \<and> (\<forall>i. th_stage t = Answered i None \<longrightarrow> applied (oe_EventType e) (ivs (oe_OrderID e))))"

lemma thread_ok_stable:
  assumes "thread_ok topics ord ivs t" and "\<And>i. order_kept (ord i) (ord' i)"
    and "\<And>i ty. applied ty (ivs i) \<Longrightarrow> applied ty (ivs' i)"
  shows "thread_ok topics ord' ivs' t"
proof -
  obtain e part off where e: "th_msg t = delivery part off (event_message e)" "row_truth topics ord e"
    and a: "\<forall>i. th_stage t = Answered i None \<longrightarrow> applied (oe_EventType e) (ivs (oe_OrderID e))"
    using assms(1) unfolding thread_ok_def by (elim exE conjE)
  have "row_truth topics ord' e" by (rule row_truth_kept [OF e(2)]) (rule assms(2))
  moreover have "\<forall>i. th_stage t = Answered i None \<longrightarrow> applied (oe_EventType e) (ivs' (oe_OrderID e))"
    using a assms(3) by blast
  ultimately show ?thesis unfolding thread_ok_def using e(1) by blast
qed

context two_services
begin

abbreviation carries :: "occasion \<Rightarrow> kafka_message \<Rightarrow> carried" where
  "carries occ msg \<equiv> carried_event (occ_newID occ) tc tp tx msg"

definition il_good ::
  "(('db order_state \<times> 'k) \<times> ('bdb, 'bk, 'c) billing_world) \<times> consumer_thread list \<Rightarrow> bool" where
  "il_good x \<longleftrightarrow> truthful (fst x)
     \<and> (\<forall>t \<in> set (snd x). thread_ok (os_topicMap svc) (orders (st_db (fst (fst (fst x))))) (invoices (bw_db (snd (fst x)))) t)"

lemma truthful_same:
  "truthful (sk, w) \<Longrightarrow> invoices (bw_db w') = invoices (bw_db w) \<Longrightarrow> processed (bw_db w') = processed (bw_db w) \<Longrightarrow>
   truthful (sk, w')"
  by (simp add: truthful_def)

lemma il_order_good:
  assumes G: "il_good (((s, k), w), ts)" and st: "order_step svc r orders (s, k) (s', k')"
    and c: "clean_orders (orders (st_db s'))"
  shows "il_good (((s', k'), w), ts)"
proof -
  have T: "truthful ((s, k), w)" using G by (simp add: il_good_def)
  then have g: "O.good (s, k)" by (simp add: truthful_def)
  have kept: "order_kept (orders (st_db s) i) (orders (st_db s') i)" for i
    using O.good_step [OF st g] by simp
  have "thread_ok (os_topicMap svc) (orders (st_db s')) (invoices (bw_db w)) t" if "t \<in> set ts" for t
  proof (rule thread_ok_stable [OF _ kept])
    show "thread_ok (os_topicMap svc) (orders (st_db s)) (invoices (bw_db w)) t" using G that by (simp add: il_good_def)
  qed
  with order_truthful_step [OF T st c] show ?thesis by (simp add: il_good_def)
qed

lemma begin_message_views:
  assumes "begin_message (con topic) msg w = (st, w')"
  shows "invoices (bw_db w') = invoices (bw_db w) \<and> processed (bw_db w') = processed (bw_db w)
    \<and> st \<in> {None, Some (Trying 0)}"
proof -
  obtain y db1 where e: "proc_Exists proc (event_key msg) (bw_db w) = (y, db1)" by fastforce
  from assms e B.Exists_frame [OF e] show ?thesis
    by (auto simp: begin_message_def commit_offset_def split: sum.splits bool.splits prod.splits)
qed

lemma il_begin_good:
  assumes G: "il_good (((s, k), w), ts)" and m: "m \<in> set (log k)"
    and b: "begin_message (con (th_topic t)) (th_msg t) w = (st, w')" and d: "th_msg t = delivery part off m"
  shows "il_good (((s, k), w'), ts @ goes_on t st)"
proof -
  note V = begin_message_views [OF b]
  have T: "truthful ((s, k), w)" using G by (simp add: il_good_def)
  obtain e where "m = event_message e" "row_truth (os_topicMap svc) (orders (st_db s)) e"
    using T m by (auto simp: truthful_def ledger_def)
  then have "thread_ok (os_topicMap svc) (orders (st_db s)) (invoices (bw_db w')) (t\<lparr>th_stage := Trying 0\<rparr>)"
    using d by (auto simp: thread_ok_def)
  with G V truthful_same [OF T, of w'] show ?thesis by (auto simp: il_good_def)
qed

text \<open>What a step of a thread with an event does to the views, whatever the others have done.\<close>

lemma thread_step_views:
  assumes ev: "carries (th_occ t) (th_msg t) = Event ev"
    and n: "thread_next (con (th_topic t)) repo (carries (th_occ t) (th_msg t)) (th_occ t) (th_ctx t) (th_msg t)
      (th_stage t) w = (st, w')"
  shows "(\<exists>j new. st = Some (Answered j None) \<and> written ev (invoices (bw_db w) (event_order ev)) new
        \<and> invoices (bw_db w') = (invoices (bw_db w))(event_order ev \<mapsto> new) \<and> processed (bw_db w') = processed (bw_db w))
    \<or> invoices (bw_db w') = invoices (bw_db w) \<and> processed (bw_db w') = processed (bw_db w)
        \<and> (\<forall>j. st = Some (Answered j None) \<longrightarrow> already ev (invoices (bw_db w) (event_order ev)))
    \<or> invoices (bw_db w') = invoices (bw_db w) \<and> st = None
        \<and> (\<exists>j rec. th_stage t = Answered j None \<and> processed (bw_db w') = (processed (bw_db w))(event_key (th_msg t) \<mapsto> rec))"
proof (cases "th_stage t")
  case (Trying j)
  obtain x s1 where rd: "event_read repo ev (bw_db w) = (x, s1)" by fastforce
  have "w' = w\<lparr>bw_db := s1\<rparr>" "st = Some (case x of None \<Rightarrow> Writing j | Some a \<Rightarrow> Answered j a)"
    using n rd by (auto simp: Trying ev split: option.splits)
  with B.event_read_effect [OF rd] show ?thesis by (auto split: option.splits)
next
  case (Writing j)
  obtain a w1 where wr: "event_write repo ev w = (a, w1)" by fastforce
  have "w' = w1" "st = Some (Answered j a)" using n wr by (auto simp: Writing ev)
  with B.event_write_effect [OF wr] show ?thesis by (cases a) auto
next
  case (Answered j a)
  show ?thesis
  proof (cases a)
    case (Some err)
    then have "st \<noteq> Some (Answered j' None) \<and> bw_db w' = bw_db w" for j'
      using n by (auto simp: Answered after_failure_def commit_offset_def Let_def split: prod.splits if_splits)
    then show ?thesis by simp
  next
    case None
    obtain y db2 where sv: "proc_Save proc (occ_savedAt (th_occ t)) (event_key (th_msg t)) (msg_Topic (th_msg t)) (bw_db w) = (y, db2)"
      by fastforce
    have "st = None" and "bw_db w' = db2"
      using n sv by (auto simp: Answered None after_success_def commit_offset_def Let_def split: prod.splits option.splits)
    with sv B.Save_ok [of _ _ _ "bw_db w" db2] B.Save_err [of _ _ _ "bw_db w" _ db2] show ?thesis
      by (cases y) (auto simp: Answered None)
  qed
qed

text \<open>What a step of a thread leaves: the invariant, itself, and everything applied before.\<close>

lemma thread_step_good:
  assumes T: "truthful ((s, k), w)" and t: "thread_ok (os_topicMap svc) (orders (st_db s)) (invoices (bw_db w)) t"
    and n: "thread_next (con (th_topic t)) repo (carries (th_occ t) (th_msg t)) (th_occ t) (th_ctx t) (th_msg t)
      (th_stage t) w = (st, w')"
  shows "truthful ((s, k), w')
    \<and> (\<forall>t' \<in> set (goes_on t st). thread_ok (os_topicMap svc) (orders (st_db s)) (invoices (bw_db w')) t')
    \<and> (\<forall>i ty. applied ty (invoices (bw_db w) i) \<longrightarrow> applied ty (invoices (bw_db w') i))"
proof -
  let ?ord = "orders (st_db s)" and ?iv = "invoices (bw_db w)" and ?iv' = "invoices (bw_db w')"
  obtain e part off where msg: "th_msg t = delivery part off (event_message e)" and row: "row_truth (os_topicMap svc) ?ord e"
    and app: "\<And>i. th_stage t = Answered i None \<Longrightarrow> applied (oe_EventType e) (?iv (oe_OrderID e))"
    using t by (auto simp: thread_ok_def)
  have clean: "clean_orders ?ord" and truth: "\<And>i iv. ?iv i = Some iv \<Longrightarrow> invoice_truth ?ord i iv"
    and recs: "records_truth (processed (bw_db w)) ?iv"
    using T by (auto simp: truthful_def)
  let ?i = "oe_OrderID e" and ?ty = "oe_EventType e"
  obtain order ev where o: "?ord ?i = Some order" "OrderID order = ?i"
    and key: "event_key (th_msg t) = ?ty @ ''-'' @ ?i" and ty: "?ty \<in> {EventOrderCreated, EventOrderPaid, EventOrderCancelled}"
    and ev: "carries (th_occ t) (th_msg t) = Event ev" "event_order ev = ?i"
    and kind: "?ty = EventOrderCreated \<and> ev = BCreated (occ_newID (th_occ t)) (billing_created order)
            \<or> ?ty = EventOrderPaid \<and> OrderStatus order = OrderStatusPaid \<and> (\<exists>p. ev = BPaid p)
            \<or> ?ty = EventOrderCancelled \<and> OrderStatus order = OrderStatusCancelled \<and> (\<exists>p. ev = BCancelled p)"
    using delivered_row [OF row clean topics different, of part off "occ_newID (th_occ t)"] unfolding msg
    by (elim exE conjE)
  have ok: "\<forall>t' \<in> set (goes_on t st). thread_ok (os_topicMap svc) ?ord ?iv' t'"
    if "\<And>j. st = Some (Answered j None) \<Longrightarrow> applied ?ty (?iv' ?i)"
    using that msg row by (cases st) (auto simp: thread_ok_def)
  from thread_step_views [OF ev(1) n, unfolded ev(2)] show ?thesis
  proof (elim disjE exE conjE)
    fix j new assume new: "written ev (?iv ?i) new" "?iv' = ?iv(?i \<mapsto> new)" and p: "processed (bw_db w') = processed (bw_db w)"
    note N = true_write [OF o kind truth new(1)]
    have app': "applied ty' (?iv' l)" if "applied ty' (?iv l)" for l ty'
      using that N by (cases "l = ?i") (auto simp: new(2))
    have "invoice_truth ?ord l iv" if "?iv' l = Some iv" for l iv
      using that truth N by (cases "l = ?i") (auto simp: new(2))
    moreover have "records_truth (processed (bw_db w')) ?iv'"
      using recs app' unfolding p by (auto simp: records_truth_def)
    ultimately have "truthful ((s, k), w')" using T by (simp add: truthful_def)
    with ok N app' show ?thesis by (simp add: new(2))
  next
    assume same: "?iv' = ?iv" "processed (bw_db w') = processed (bw_db w)"
      and a: "\<forall>j. st = Some (Answered j None) \<longrightarrow> already ev (?iv ?i)"
    have "\<And>j. st = Some (Answered j None) \<Longrightarrow> applied ?ty (?iv' ?i)"
      using a already_applied [OF kind] unfolding same(1) by blast
    with ok truthful_same [OF T same] same(1) show ?thesis by simp
  next
    fix j rec assume iv: "?iv' = ?iv" and st: "st = None" and ans: "th_stage t = Answered j None"
      and p: "processed (bw_db w') = (processed (bw_db w))(event_key (th_msg t) \<mapsto> rec)"
    have "records_truth (processed (bw_db w')) ?iv"
      using records_truth_new [OF recs app [OF ans] ty] unfolding p key .
    with T have "truthful ((s, k), w')" by (simp add: truthful_def iv)
    then show ?thesis by (simp add: st iv)
  qed
qed

lemma il_thread_good:
  assumes G: "il_good (((s, k), w), xs @ t # ys)"
    and n: "thread_next (con (th_topic t)) repo (carries (th_occ t) (th_msg t)) (th_occ t) (th_ctx t) (th_msg t)
      (th_stage t) w = (st, w')"
  shows "il_good (((s, k), w'), xs @ goes_on t st @ ys)"
proof -
  have T: "truthful ((s, k), w)" and t: "thread_ok (os_topicMap svc) (orders (st_db s)) (invoices (bw_db w)) t"
    using G by (simp_all add: il_good_def)
  note S = thread_step_good [OF T t n]
  have "thread_ok (os_topicMap svc) (orders (st_db s)) (invoices (bw_db w')) t'" if "t' \<in> set xs \<union> set ys" for t'
  proof (rule thread_ok_stable [OF _ order_kept_refl])
    show "thread_ok (os_topicMap svc) (orders (st_db s)) (invoices (bw_db w)) t'" using G that by (auto simp: il_good_def)
    show "applied ty (invoices (bw_db w') i)" if "applied ty (invoices (bw_db w) i)" for i ty using S that by blast
  qed
  with S show ?thesis by (auto simp: il_good_def)
qed

lemma il_good_step:
  "interleaved_step svc r orders log con repo carries x y \<Longrightarrow> il_good x \<Longrightarrow> il_good y"
  by (induction rule: interleaved_step.induct) (blast intro: il_order_good il_begin_good il_thread_good)+

lemma il_good_run:
  "(interleaved_step svc r orders log con repo carries)\<^sup>*\<^sup>* x y \<Longrightarrow> il_good x \<Longrightarrow> il_good y"
  by (induction rule: rtranclp_induct) (auto intro: il_good_step)

lemma fresh_il_good: "fresh_start x \<Longrightarrow> il_good (x, [])"
  by (simp add: il_good_def fresh_truthful)

text \<open>A whole message is a thread that nobody disturbs, so every run of whole messages is one of these.\<close>

abbreviation il_step where
  "il_step \<equiv> interleaved_step svc r orders log con repo carries"

lemma alone_steps:
  "thread_alone (con (th_topic t)) repo (carries (th_occ t) (th_msg t)) (th_occ t) (th_ctx t) (th_msg t) n (Some st, w) = (None, w')
   \<Longrightarrow> il_step\<^sup>*\<^sup>* (((s, k), w), [t\<lparr>th_stage := st\<rparr>]) (((s, k), w'), [])"
proof (induction n arbitrary: st w)
  case (Suc n)
  obtain st1 w1 where n: "thread_next (con (th_topic t)) repo (carries (th_occ t) (th_msg t)) (th_occ t) (th_ctx t) (th_msg t) st w = (st1, w1)"
    by fastforce
  have step: "il_step (((s, k), w), [t\<lparr>th_stage := st\<rparr>]) (((s, k), w1), goes_on (t\<lparr>th_stage := st\<rparr>) st1)"
    using il_thread [where xs = "[]" and ys = "[]" and t = "t\<lparr>th_stage := st\<rparr>" and st = st1 and w = w and w' = w1
        and con = con and repo = repo and ca = carries] n by simp
  show ?case
  proof (cases st1)
    case None
    then have "w1 = w'" using Suc.prems n by simp
    with step None show ?thesis by auto
  next
    case (Some st')
    then have "il_step\<^sup>*\<^sup>* (((s, k), w1), [t\<lparr>th_stage := st'\<rparr>]) (((s, k), w'), [])"
      using Suc.prems n by (intro Suc.IH) simp
    with step Some show ?thesis by (auto intro: converse_rtranclp_into_rtranclp)
  qed
qed simp

lemma whole_message_interleaved:
  assumes m: "m \<in> set (log k)" and run: "processMessage (con topic) occ c (delivery part off m) w = (x, w')"
  shows "il_step\<^sup>*\<^sup>* (((s, k), w), []) (((s, k), w'), [])"
proof -
  let ?t = "\<lparr>th_topic = topic, th_occ = occ, th_ctx = c, th_msg = delivery part off m, th_stage = Trying 0\<rparr>"
  obtain st w1 where b: "begin_message (con topic) (delivery part off m) w = (st, w1)" by fastforce
  have step: "il_step (((s, k), w), []) (((s, k), w1), goes_on ?t st)"
    using il_begin [where log = log and k = k and m = m and t = ?t and con = con and w = w and st = st and w' = w1 and ts = "[]"
        and part = part and off = off and svc = svc and r = r and orders = orders and repo = repo and ca = carries and s = s]
      m b by simp
  have A: "thread_alone (con topic) repo (carries occ (delivery part off m)) occ c (delivery part off m) 9 (st, w1) = (None, w')"
    using message_alone [OF refl run] unfolding b .
  show ?thesis
  proof (cases st)
    case None
    with A step show ?thesis by auto
  next
    case (Some st')
    have "il_step\<^sup>*\<^sup>* (((s, k), w1), [?t\<lparr>th_stage := st'\<rparr>]) (((s, k), w'), [])"
      using A by (intro alone_steps [where n = 9]) (simp add: Some)
    with step Some show ?thesis by (auto intro: converse_rtranclp_into_rtranclp)
  qed
qed

lemma system_step_interleaved:
  "system_step svc r orders log con x y \<Longrightarrow> il_step\<^sup>*\<^sup>* (x, []) (y, [])"
proof (induction rule: system_step.induct)
  case (step_order s k s' k' w)
  then have "il_step (((s, k), w), []) (((s', k'), w), [])" by (rule il_order)
  then show ?case by (rule r_into_rtranclp)
qed (rule whole_message_interleaved)

lemma system_run_interleaved:
  "(system_step svc r orders log con)\<^sup>*\<^sup>* x y \<Longrightarrow> il_step\<^sup>*\<^sup>* (x, []) (y, [])"
proof (induction rule: rtranclp_induct)
  case (step y z)
  from step(3) system_step_interleaved [OF step(2)] show ?case by (rule rtranclp_trans)
qed simp

end

text \<open>
  C4: Consumers at work at the same time do no harm: let any number of threads process deliveries of
  published messages on one database, their statements interleaved in any way with each other and
  with the order service, and whatever fails. In every state reached from empty tables every
  invoice is still for an order, its total and creation time, and PAID or CANCELLED only when the
  order is; and once every event of an order is recorded, the invoice exists, for the total, with
  the corresponding status. (The calls of the order service are whole here.)
\<close>

theorem interleaved_consumers_safe:
  assumes S: "two_services OT orders ET outbox txn get svc wr log r repo invoices processed proc wrb logb cm committed tc tp tx"
    and st: "(interleaved_step svc r orders log (\<lambda>topic. billing_consumer topic cm repo wrb proc tc tp tx) repo
        (\<lambda>occ msg. carried_event (occ_newID occ) tc tp tx msg))\<^sup>*\<^sup>* (x, []) (((s, k), w), ts)"
    and start: "x = ((s0, k0), w0)" "orders (st_db s0) = Map.empty" "outbox (st_db s0) = Map.empty" "log k0 = []"
      "invoices (bw_db w0) = Map.empty" "processed (bw_db w0) = Map.empty"
  shows "(\<forall>i iv. invoices (bw_db w) i = Some iv \<longrightarrow>
           (\<exists>order. orders (st_db s) i = Some order \<and> inv_OrderID iv = i \<and> inv_Amount iv = Total order
              \<and> inv_CreatedAt iv = CreatedAt order
              \<and> (inv_Status iv = InvoiceStatusPending
                 \<or> inv_Status iv = InvoiceStatusPaid \<and> OrderStatus order = OrderStatusPaid
                 \<or> inv_Status iv = InvoiceStatusCancelled \<and> OrderStatus order = OrderStatusCancelled)))
    \<and> (\<forall>i order. orders (st_db s) i = Some order
         \<longrightarrow> (\<forall>e \<in> ran (outbox (st_db s)). oe_OrderID e = i \<longrightarrow> processed (bw_db w) (oe_EventType e @ ''-'' @ i) \<noteq> None)
         \<longrightarrow> (\<exists>iv. invoices (bw_db w) i = Some iv \<and> inv_Amount iv = Total order
                \<and> inv_Status iv = invoice_status (OrderStatus order)))"
proof -
  have f: "two_services.fresh_start orders outbox log invoices processed x"
    using start by (simp add: two_services.fresh_start_def [OF S])
  have T: "two_services.truthful orders outbox svc log invoices processed ((s, k), w)"
    using two_services.il_good_run [OF S st two_services.fresh_il_good [OF S f]]
    by (simp add: two_services.il_good_def [OF S])
  have "\<forall>i iv. invoices (bw_db w) i = Some iv \<longrightarrow> invoice_truth (orders (st_db s)) i iv"
    using T by (simp add: two_services.truthful_def [OF S])
  then show ?thesis
    using two_services.recorded_agreement [OF S T] unfolding invoice_truth_def by blast
qed

theorem interleaved_consumers_safe_witness:
  "\<exists>order s k w iv. (interleaved_step mem_service mem_relay_50 mem_orders mk_log mem_consumers mem_billing
        (\<lambda>occ msg. carried_event (occ_newID occ) ''created'' ''paid'' ''cancelled'' msg))\<^sup>*\<^sup>*
      (((empty_state, \<lparr>mk_log = [], mk_fates = []\<rparr>), empty_billing []), []) (((s, k), w), [])
    \<and> mem_orders (st_db s) ''o2'' = Some order
    \<and> lookup_row inv_OrderID (mem_left (bw_db w)) ''o2'' = Some iv \<and> inv_Amount iv = Total order"
proof -
  obtain order s k w where run: "(system_step mem_service mem_relay_50 mem_orders mk_log mem_consumers)\<^sup>*\<^sup>*
      ((empty_state, \<lparr>mk_log = [], mk_fates = []\<rparr>), empty_billing []) ((s, k), w)"
    and o: "mem_orders (st_db s) ''o2'' = Some order"
    and all: "\<forall>e \<in> ran (mem_outbox (st_db s)).
         lookup_row pe_EventID (mem_right (bw_db w)) (oe_EventType e @ ''-'' @ ''o2'') \<noteq> None"
    using example_system_run by (elim exE conjE)
  note il = mem_two.system_run_interleaved [OF run]
  note R = interleaved_consumers_safe [OF mem_two.two_services_axioms il refl, THEN conjunct2, rule_format, OF _ _ _ _ _ o]
  obtain iv where "lookup_row inv_OrderID (mem_left (bw_db w)) ''o2'' = Some iv" "inv_Amount iv = Total order"
    using R all by (auto simp: fun_eq_iff)
  with il o show ?thesis by blast
qed

end
