(* ===== verification/OrderThreads.thy ===== *)
theory OrderThreads
  imports CrossService
begin

text \<open>
  Calls of the order service at the same time: a payment or a cancellation reads the order in one
  statement and writes it in a later transaction, so other calls can fall between. What survives of
  the invariants of whole calls, and where the two services end when a payment and a cancellation
  race.
\<close>

section \<open>Calls in progress\<close>

text \<open>A call that has read its order.\<close>

datatype order_call = Paying call_env Order | Cancelling call_env Order

fun call_order :: "order_call \<Rightarrow> Order" where
  "call_order (Paying _ order) = order"
| "call_order (Cancelling _ order) = order"

fun finish_call :: "'db OrderService \<Rightarrow> order_call \<Rightarrow> 'db order_state \<Rightarrow> (go_error + Order) \<times> 'db order_state" where
  "finish_call svc (Paying env order) s = pay_order svc env order s"
| "finish_call svc (Cancelling env order) s = cancel_order svc env order s"

lemma finish_call_eta:
  "(\<lambda>env order. finish_call svc (Paying env order)) = pay_order svc"
  "(\<lambda>env order. finish_call svc (Cancelling env order)) = cancel_order svc"
  by (simp_all add: fun_eq_iff)

inductive call_step ::
  "'db OrderService \<Rightarrow> ('db, 'k) Relay \<Rightarrow> ('db \<Rightarrow> Order view)
   \<Rightarrow> ('db order_state \<times> 'k) \<times> order_call list \<Rightarrow> ('db order_state \<times> 'k) \<times> order_call list \<Rightarrow> bool"
  for svc r orders where
  call_whole: "order_step svc r orders (s, k) (s', k') \<Longrightarrow> call_step svc r orders ((s, k), cs) ((s', k'), cs)"
| call_reads: "os_repo_GetOrder svc i (st_db s) = (Inr order, db') \<Longrightarrow> c \<in> {Paying env order, Cancelling env order} \<Longrightarrow>
    call_step svc r orders ((s, k), cs) ((s\<lparr>st_db := db'\<rparr>, k), cs @ [c])"
| call_writes: "finish_call svc c s = (x, s') \<Longrightarrow>
    call_step svc r orders ((s, k), xs @ c # ys) ((s', k), xs @ ys)"

text \<open>A whole call is its read and its write with nothing in between.\<close>

lemma MarkOrderPaid_halves:
  "i \<noteq> [] \<Longrightarrow> os_repo_GetOrder svc i (st_db s) = (Inr order, db') \<Longrightarrow>
   MarkOrderPaid svc env i s = finish_call svc (Paying env order) (s\<lparr>st_db := db'\<rparr>)"
  by (simp add: MarkOrderPaid_def with_order_def)

lemma CancelOrder_halves:
  "i \<noteq> [] \<Longrightarrow> os_repo_GetOrder svc i (st_db s) = (Inr order, db') \<Longrightarrow>
   CancelOrder svc env i s = finish_call svc (Cancelling env order) (s\<lparr>st_db := db'\<rparr>)"
  by (simp add: CancelOrder_def with_order_def)

section \<open>What survives\<close>

definition loose_truthful :: "Order option \<Rightarrow> (EventType \<Rightarrow> string set) \<Rightarrow> bool" where
  "loose_truthful row ids \<longleftrightarrow>
     (case row of
        None \<Rightarrow> (\<forall>ty. ids ty = {})
      | Some order \<Rightarrow>
          card (ids EventOrderCreated) = 1
          \<and> (OrderStatus order = OrderStatusCreated \<and> ids EventOrderPaid = {} \<and> ids EventOrderCancelled = {}
             \<or> OrderStatus order = OrderStatusPaid \<and> ids EventOrderPaid \<noteq> {}
             \<or> OrderStatus order = OrderStatusCancelled \<and> ids EventOrderCancelled \<noteq> {}))"

definition outbox_loose :: "Order view \<Rightarrow> OutboxEvent view \<Rightarrow> bool" where
  "outbox_loose ord out \<longleftrightarrow> (\<forall>i. loose_truthful (ord i) (event_ids out i))"

definition same_but_status :: "Order \<Rightarrow> Order \<Rightarrow> bool" where
  "same_but_status o1 o2 \<longleftrightarrow> o2\<lparr>OrderStatus := OrderStatus o1\<rparr> = o1"

lemma same_but_status_fields:
  "same_but_status o1 o2 \<longleftrightarrow>
     OrderID o2 = OrderID o1 \<and> Items o2 = Items o1 \<and> Total o2 = Total o1 \<and> CreatedAt o2 = CreatedAt o1"
  by (cases o1; cases o2) (auto simp: same_but_status_def)

text \<open>An order is never lost, only its status changes, and never back to CREATED.\<close>

definition order_moved :: "Order option \<Rightarrow> Order option \<Rightarrow> bool" where
  "order_moved old new \<longleftrightarrow>
     (\<forall>o1. old = Some o1 \<longrightarrow>
        (\<exists>o2. new = Some o2 \<and> same_but_status o1 o2
              \<and> (OrderStatus o1 \<noteq> OrderStatusCreated \<longrightarrow> OrderStatus o2 \<noteq> OrderStatusCreated)))"

lemma order_moved_refl [simp]: "order_moved row row"
  by (simp add: order_moved_def same_but_status_def)

lemma order_moved_None [simp]: "order_moved None row"
  by (simp add: order_moved_def)

lemma order_moved_trans: "order_moved a b \<Longrightarrow> order_moved b c \<Longrightarrow> order_moved a c"
proof (cases a)
  case (Some o1)
  assume ab: "order_moved a b" and bc: "order_moved b c"
  obtain o2 where o2: "b = Some o2" "same_but_status o1 o2"
      "OrderStatus o1 \<noteq> OrderStatusCreated \<longrightarrow> OrderStatus o2 \<noteq> OrderStatusCreated"
    using ab Some by (auto simp: order_moved_def)
  obtain o3 where o3: "c = Some o3" "same_but_status o2 o3"
      "OrderStatus o2 \<noteq> OrderStatusCreated \<longrightarrow> OrderStatus o3 \<noteq> OrderStatusCreated"
    using bc o2(1) by (auto simp: order_moved_def)
  have "same_but_status o1 o3" using o2(2) o3(2) by (simp add: same_but_status_fields)
  with o2(3) o3 Some show ?thesis by (simp add: order_moved_def)
qed simp

definition call_ok :: "Order view \<Rightarrow> order_call \<Rightarrow> bool" where
  "call_ok ord c \<longleftrightarrow> (\<exists>o2. ord (OrderID (call_order c)) = Some o2 \<and> same_but_status (call_order c) o2)"

lemma call_ok_moved:
  assumes "call_ok ord c" and "order_moved (ord (OrderID (call_order c))) (ord' (OrderID (call_order c)))"
  shows "call_ok ord' c"
proof -
  obtain o2 where o2: "ord (OrderID (call_order c)) = Some o2" "same_but_status (call_order c) o2"
    using assms(1) by (auto simp: call_ok_def)
  obtain o3 where o3: "ord' (OrderID (call_order c)) = Some o3" "same_but_status o2 o3"
    using assms(2) o2(1) by (auto simp: order_moved_def)
  have "same_but_status (call_order c) o3" using o2(2) o3(2) by (simp add: same_but_status_fields)
  with o3(1) show ?thesis by (simp add: call_ok_def)
qed

text \<open>Writing an order with its event.\<close>

lemma written_ids:
  assumes w: "order_written svc env order ev ty ord out ord' out'"
  shows "ord' = ord(OrderID order \<mapsto> order)"
    and "event_ids out' i t = (if i = OrderID order \<and> t = ty
      then insert (env_event_id env) (event_ids out i t) else event_ids out i t)"
proof -
  obtain topic payload where "ord' = ord(OrderID order \<mapsto> order)" and none: "out (env_event_id env) = None"
    and out': "out' = out(env_event_id env \<mapsto> outbox_event env order ty topic payload)"
    using w by (auto simp: order_written_def)
  then show "ord' = ord(OrderID order \<mapsto> order)" by simp
  show "event_ids out' i t = (if i = OrderID order \<and> t = ty
      then insert (env_event_id env) (event_ids out i t) else event_ids out i t)"
    unfolding out' event_ids_upd [where out = out and k = "env_event_id env", OF none] by auto
qed

lemma written_loose:
  assumes L: "outbox_loose ord out" and w: "order_written svc env order ev ty ord out ord' out'"
    and ev: "ord (OrderID order) = None \<and> ty = EventOrderCreated \<and> OrderStatus order = OrderStatusCreated
      \<or> ord (OrderID order) \<noteq> None \<and> ty = EventOrderPaid \<and> OrderStatus order = OrderStatusPaid
      \<or> ord (OrderID order) \<noteq> None \<and> ty = EventOrderCancelled \<and> OrderStatus order = OrderStatusCancelled"
  shows "outbox_loose ord' out'"
  unfolding outbox_loose_def
proof
  fix i
  note W = written_ids [OF w]
  have Li: "loose_truthful (ord i) (event_ids out i)" using L by (simp add: outbox_loose_def)
  show "loose_truthful (ord' i) (event_ids out' i)"
  proof (cases "i = OrderID order")
    case False
    then have "event_ids out' i = event_ids out i" by (intro ext) (simp add: W(2))
    with False Li show ?thesis by (simp add: W(1))
  next
    case True
    let ?i = "OrderID order"
    have row: "ord' ?i = Some order" by (simp add: W(1))
    have ids: "event_ids out' ?i t = (if t = ty then insert (env_event_id env) (event_ids out ?i t) else event_ids out ?i t)" for t
      by (simp add: W(2))
    note Li = Li [unfolded True]
    have "loose_truthful (ord' ?i) (event_ids out' ?i)"
    proof (cases "ord ?i")
      case None
      then have "event_ids out ?i t = {}" for t using Li by (simp add: loose_truthful_def)
      with ev None show ?thesis by (simp add: row loose_truthful_def ids)
    next
      case (Some old)
      then have "card (event_ids out ?i EventOrderCreated) = 1" using Li by (simp add: loose_truthful_def)
      moreover have "ty = EventOrderPaid \<and> OrderStatus order = OrderStatusPaid
          \<or> ty = EventOrderCancelled \<and> OrderStatus order = OrderStatusCancelled"
        using ev Some by auto
      ultimately show ?thesis by (elim disjE) (simp_all add: row loose_truthful_def ids)
    qed
    with True show ?thesis by simp
  qed
qed

context order_system
begin

lemma status_moved:
  assumes c: "orders s i = Some o2" "same_but_status order o2" and "OrderID order = i" and "st \<noteq> OrderStatusCreated"
  shows "order_moved (orders s j) (((orders s)(i \<mapsto> order\<lparr>OrderStatus := st\<rparr>)) j)"
  using assms by (cases "j = i") (simp_all add: order_moved_def same_but_status_fields)

text \<open>The second half of a call, whatever has happened since the first.\<close>

lemma finish_loose:
  assumes f: "finish_call svc c s = (x, s')" and c: "call_ok (orders (st_db s)) c"
    and L: "outbox_loose (orders (st_db s)) (outbox (st_db s))" and P: "sent_published (outbox (st_db s)) lg"
  shows "outbox_loose (orders (st_db s')) (outbox (st_db s')) \<and> sent_published (outbox (st_db s')) lg
    \<and> (\<forall>i. order_moved (orders (st_db s) i) (orders (st_db s') i))"
proof -
  let ?order = "call_order c"
  obtain o2 where o2: "orders (st_db s) (OrderID ?order) = Some o2" "same_but_status ?order o2"
    using c by (auto simp: call_ok_def)
  have "unchanged orders outbox s s'
      \<or> (\<exists>env st ev ty. (ty = EventOrderPaid \<and> st = OrderStatusPaid \<or> ty = EventOrderCancelled \<and> st = OrderStatusCancelled)
           \<and> order_written svc env (?order\<lparr>OrderStatus := st\<rparr>) ev ty
               (orders (st_db s)) (outbox (st_db s)) (orders (st_db s')) (outbox (st_db s')))"
  proof (cases c)
    case (Paying env order)
    then have "pay_order svc env order s = (x, s')" using f by simp
    from pay_order_cases [OF this] show ?thesis using Paying by auto
  next
    case (Cancelling env order)
    then have "cancel_order svc env order s = (x, s')" using f by simp
    from cancel_order_cases [OF this] show ?thesis using Cancelling by auto
  qed
  then show ?thesis
  proof (elim disjE exE conjE)
    assume "unchanged orders outbox s s'"
    with L P show ?thesis by (simp add: unchanged_def)
  next
    fix env st ev ty
    assume w: "order_written svc env (?order\<lparr>OrderStatus := st\<rparr>) ev ty
        (orders (st_db s)) (outbox (st_db s)) (orders (st_db s')) (outbox (st_db s'))"
      and ty: "ty = EventOrderPaid" "st = OrderStatusPaid"
    have "outbox_loose (orders (st_db s')) (outbox (st_db s'))" by (rule written_loose [OF L w]) (simp add: o2 ty)
    moreover have "sent_published (outbox (st_db s')) lg"
      using P w by (auto simp: order_written_def outbox_event_def intro!: sent_published_new)
    ultimately show ?thesis
      using status_moved [OF o2 refl, of st] written_ids(1) [OF w] by (simp add: ty)
  next
    fix env st ev ty
    assume w: "order_written svc env (?order\<lparr>OrderStatus := st\<rparr>) ev ty
        (orders (st_db s)) (outbox (st_db s)) (orders (st_db s')) (outbox (st_db s'))"
      and ty: "ty = EventOrderCancelled" "st = OrderStatusCancelled"
    have "outbox_loose (orders (st_db s')) (outbox (st_db s'))" by (rule written_loose [OF L w]) (simp add: o2 ty)
    moreover have "sent_published (outbox (st_db s')) lg"
      using P w by (auto simp: order_written_def outbox_event_def intro!: sent_published_new)
    ultimately show ?thesis
      using status_moved [OF o2 refl, of st] written_ids(1) [OF w] by (simp add: ty)
  qed
qed


text \<open>What has to hold for a state and the calls in progress.\<close>

definition loose_good :: "'db order_state \<times> 'k \<Rightarrow> bool" where
  "loose_good sk \<longleftrightarrow> outbox_loose (orders (st_db (fst sk))) (outbox (st_db (fst sk)))
     \<and> sent_published (outbox (st_db (fst sk))) (log (snd sk))"

lemma loose_unchanged:
  "loose_good (s, k) \<Longrightarrow> unchanged orders outbox s s' \<Longrightarrow>
   loose_good (s', k) \<and> (\<forall>i. order_moved (orders (st_db s) i) (orders (st_db s') i))"
  by (simp add: loose_good_def unchanged_def)

lemma finish_loose_good:
  assumes "finish_call svc c s = (x, s')" and "call_ok (orders (st_db s)) c" and "loose_good (s, k)"
  shows "loose_good (s', k) \<and> (\<forall>i. order_moved (orders (st_db s) i) (orders (st_db s') i))"
proof -
  have "outbox_loose (orders (st_db s)) (outbox (st_db s))" "sent_published (outbox (st_db s)) (log k)"
    using assms(3) by (simp_all add: loose_good_def)
  from finish_loose [OF assms(1,2) this] show ?thesis by (simp add: loose_good_def)
qed

lemma whole_call_loose:
  assumes w: "with_order (\<lambda>env order. finish_call svc (mk env order)) svc env i s = (x, s')"
    and mk: "\<And>order. call_order (mk env order) = order" and g: "loose_good (s, k)"
  shows "loose_good (s', k) \<and> (\<forall>i. order_moved (orders (st_db s) i) (orders (st_db s') i))"
  using with_order_cases [OF w]
proof (elim disjE exE conjE)
  fix order s1
  assume o: "orders (st_db s) i = Some order" "OrderID order = i"
    and u: "unchanged orders outbox s s1" and f: "finish_call svc (mk env order) s1 = (x, s')"
  have same: "orders (st_db s1) = orders (st_db s)" using u by (simp add: unchanged_def)
  have "call_ok (orders (st_db s1)) (mk env order)" using o by (simp add: call_ok_def mk same same_but_status_def)
  from finish_loose_good [OF f this] loose_unchanged [OF g u] show ?thesis by (simp add: same)
next
  assume "s' = s" with g show ?thesis by simp
next
  assume "unchanged orders outbox s s'" with loose_unchanged [OF g] show ?thesis by simp
qed

lemma whole_step_loose:
  assumes "order_step svc r orders (s, k) (s', k')" and g: "loose_good (s, k)"
  shows "loose_good (s', k') \<and> (\<forall>i. order_moved (orders (st_db s) i) (orders (st_db s') i))"
  using assms
proof (induction "(s, k)" "(s', k')" arbitrary: s k s' k' rule: order_step.induct)
  case (step_create s env items x s' k)
  show ?case
  proof (cases x)
    case (Inl e)
    with CreateOrder_cases [OF step_create(2)] loose_unchanged [OF step_create(3)] show ?thesis by simp
  next
    case (Inr order)
    with CreateOrder_cases [OF step_create(2)] obtain t where o: "order = new_order env items t"
      and w: "order_written svc env order (created_event order) EventOrderCreated
               (orders (st_db s)) (outbox (st_db s)) (orders (st_db s')) (outbox (st_db s'))" by auto
    have "outbox_loose (orders (st_db s')) (outbox (st_db s'))"
      by (rule written_loose [OF _ w]) (use step_create(1,3) in \<open>simp_all add: loose_good_def o\<close>)
    moreover have "sent_published (outbox (st_db s')) (log k)"
      using step_create(3) w by (auto simp: loose_good_def order_written_def outbox_event_def intro!: sent_published_new)
    moreover have "order_moved (orders (st_db s) i) (orders (st_db s') i)" for i
      using written_ids(1) [OF w] step_create(1) by (cases "i = env_id env") (simp_all add: o)
    ultimately show ?thesis by (simp add: loose_good_def)
  qed
next
  case (step_get i s x s' k)
  with GetOrder_cases [OF step_get(1)] loose_unchanged show ?case by blast
next
  case (step_pay env i s x s' k)
  then have "with_order (\<lambda>env order. finish_call svc (Paying env order)) svc env i s = (x, s')"
    by (simp only: MarkOrderPaid_def finish_call_eta)
  from whole_call_loose [where mk = Paying, OF this _ step_pay(2)] show ?case by simp
next
  case (step_cancel env i s x s' k)
  then have "with_order (\<lambda>env order. finish_call svc (Cancelling env order)) svc env i s = (x, s')"
    by (simp only: CancelOrder_def finish_call_eta)
  from whole_call_loose [where mk = Cancelling, OF this _ step_cancel(2)] show ?case by simp
next
  case (step_relay now s k y db' k')
  have P: "sent_published (outbox (st_db s)) (log k)" using step_relay(2) by (simp add: loose_good_def)
  note S = cycle_safe [OF P step_relay(1)]
  then obtain ms where "\<forall>i. relay_row now ms (outbox (st_db s) i) (outbox db' i)" by auto
  note ids = relay_event_ids [OF this [rule_format]]
  have "event_ids (outbox db') i = event_ids (outbox (st_db s)) i" for i by (rule ext) (rule ids(1))
  with step_relay(2) S show ?case by (simp add: loose_good_def outbox_loose_def)
qed

text \<open>Every step, with the calls that are in progress.\<close>

definition calls_good :: "('db order_state \<times> 'k) \<times> order_call list \<Rightarrow> bool" where
  "calls_good x \<longleftrightarrow> loose_good (fst x) \<and> (\<forall>c \<in> set (snd x). call_ok (orders (st_db (fst (fst x)))) c)"

lemma calls_moved:
  assumes "calls_good ((s, k), cs)" and "set cs' \<subseteq> set cs" and "loose_good (s', k')"
    and m: "\<forall>i. order_moved (orders (st_db s) i) (orders (st_db s') i)"
  shows "calls_good ((s', k'), cs')"
  using assms(1,2,3) by (auto simp: calls_good_def intro: call_ok_moved [OF _ m [rule_format]])

lemma call_step_good:
  assumes "call_step svc r orders x y" and "calls_good x"
  shows "calls_good y \<and> (\<forall>i. order_moved (orders (st_db (fst (fst x))) i) (orders (st_db (fst (fst y))) i))"
  using assms
proof (induction rule: call_step.induct)
  case (call_whole s k s' k' cs)
  have "loose_good (s, k)" using call_whole(2) by (simp add: calls_good_def)
  note W = whole_step_loose [OF call_whole(1) this]
  show ?case using calls_moved [OF call_whole(2) subset_refl] W by simp
next
  case (call_reads i s order db' c env k cs)
  have g: "get i (st_db s) = (Inr order, db')" using call_reads(1) by (simp add: svc_repo)
  note fr = R.get_frame [OF g] and o = R.get_ok [OF g]
  have "OrderID order = i" by (rule O.rows_key [OF o])
  then have "call_ok (orders db') c"
    using call_reads(2) o fr by (auto simp: call_ok_def same_but_status_def)
  with call_reads(3) fr show ?case by (auto simp: calls_good_def loose_good_def)
next
  case (call_writes c s x s' k xs ys)
  have "call_ok (orders (st_db s)) c" "loose_good (s, k)" using call_writes(2) by (simp_all add: calls_good_def)
  note W = finish_loose_good [OF call_writes(1) this]
  have "set (xs @ ys) \<subseteq> set (xs @ c # ys)" by auto
  from calls_moved [OF call_writes(2) this] W show ?case by simp
qed

lemma call_run_good:
  assumes "(call_step svc r orders)\<^sup>*\<^sup>* x y" and "calls_good x"
  shows "calls_good y \<and> (\<forall>i. order_moved (orders (st_db (fst (fst x))) i) (orders (st_db (fst (fst y))) i))"
  using assms
proof (induction rule: rtranclp_induct)
  case (step y z)
  with call_step_good [OF step(2)] show ?case by (blast intro: order_moved_trans)
qed simp

end

section \<open>Concurrent calls\<close>

text \<open>
  C5: What concurrent calls cannot break: with any number of payments and cancellations of the
  same orders in progress at once, each of them read and not yet written, in every state that can
  be reached from empty tables every order has exactly one creation event, a PAID order has a
  paid event and a CANCELLED order a cancellation event, a CREATED order has neither, there is no
  event for an unknown order and every event marked sent is in the broker's log; and along any
  run no order disappears, its items, total and creation time never change, and an order that was
  paid or cancelled never becomes CREATED again. (That an order has only one of the two events
  is what complete calls guarantee in addition, and what a race can break.)
\<close>

theorem concurrent_calls_safe:
  assumes "order_system OT orders ET outbox tx get svc wr log r"
    and "orders (st_db s0) = Map.empty" and "outbox (st_db s0) = Map.empty"
    and "(call_step svc r orders)\<^sup>*\<^sup>* ((s0, k0), []) ((s, k), cs)"
    and "(call_step svc r orders)\<^sup>*\<^sup>* ((s, k), cs) ((s', k'), cs')"
  shows "outbox_loose (orders (st_db s)) (outbox (st_db s)) \<and> sent_published (outbox (st_db s)) (log k)
    \<and> order_moved (orders (st_db s) i) (orders (st_db s') i)"
proof -
  note sys = assms(1)
  have "order_system.calls_good orders outbox log ((s0, k0), [])"
    using assms(2,3) by (simp add: order_system.calls_good_def [OF sys] order_system.loose_good_def [OF sys]
        outbox_loose_def loose_truthful_def event_ids_def sent_published_def)
  from order_system.call_run_good [OF sys assms(4) this]
  have g: "order_system.calls_good orders outbox log ((s, k), cs)" by simp
  from order_system.call_run_good [OF sys assms(5) g] g show ?thesis
    by (simp add: order_system.calls_good_def [OF sys] order_system.loose_good_def [OF sys])
qed

theorem concurrent_calls_safe_witness:
  "\<exists>order s. CreateOrder mem_service example_env [usd_item ''p'' 2 500] empty_state = (Inr order, s)
     \<and> outbox_loose (mem_orders (st_db s)) (mem_outbox (st_db s))
     \<and> (\<forall>s' k' cs. (call_step mem_service (NewRelay (right_table oe_ID) mem_write 2 0) mem_orders)\<^sup>*\<^sup>*
           ((s, \<lparr>mk_log = [], mk_fates = []\<rparr>), []) ((s', k'), cs)
         \<longrightarrow> order_moved (Some order) (mem_orders (st_db s') ''o2''))"
proof -
  obtain order s where run: "CreateOrder mem_service example_env [usd_item ''p'' 2 500] empty_state = (Inr order, s)"
    and row: "mem_orders (st_db s) ''o2'' = Some order"
    using example_create by blast
  let ?k = "\<lparr>mk_log = [], mk_fates = []\<rparr>" and ?r = "NewRelay (right_table oe_ID) mem_write 2 0"
  have "order_step mem_service ?r mem_orders (empty_state, ?k) (s, ?k)"
    using run by (rule step_create [rotated]) (simp add: lookup_row_def)
  then have st: "(call_step mem_service ?r mem_orders)\<^sup>*\<^sup>* ((empty_state, ?k), []) ((s, ?k), [])"
    by (blast intro: call_whole)
  have z: "mem_orders (st_db empty_state) = Map.empty" "mem_outbox (st_db empty_state) = Map.empty"
    by (simp_all add: lookup_row_def fun_eq_iff)
  note C = concurrent_calls_safe [OF mem_system.order_system_axioms z st]
  show ?thesis
  proof (intro exI conjI allI impI)
    show "outbox_loose (mem_orders (st_db s)) (mem_outbox (st_db s))" using C [OF rtranclp.rtrancl_refl] by simp
    fix s' k' cs
    assume "(call_step mem_service ?r mem_orders)\<^sup>*\<^sup>* ((s, ?k), []) ((s', k'), cs)"
    from C [OF this, of "''o2''"] show "order_moved (Some order) (mem_orders (st_db s') ''o2'')" by (simp only: row)
  qed (rule run)
qed

section \<open>A payment and a cancellation at once\<close>

lemma written_event:
  assumes w: "order_written svc env order ev ty ord out ord' out'"
    and topic: "os_topicMap svc EventOrderPaid = Some tp" "os_topicMap svc EventOrderCancelled = Some tx" "tp \<noteq> tx"
    and i: "OrderID order \<noteq> []" "utf8_valid (OrderID order)"
    and ev: "ev = Paid \<lparr>op_OrderID = OrderID order, op_PaidAt = t\<rparr> \<and> ty = EventOrderPaid
        \<and> bev = BPaid \<lparr>bp_OrderID = OrderID order, bp_PaidAt = t\<rparr>
      \<or> ev = Cancelled \<lparr>ox_OrderID = OrderID order, ox_CancelledAt = t\<rparr> \<and> ty = EventOrderCancelled
        \<and> bev = BCancelled \<lparr>bx_OrderID = OrderID order, bx_CancelledAt = t\<rparr>"
  shows "\<exists>row. out' (env_event_id env) = Some row
    \<and> (\<forall>part off. event_key (delivery part off (event_message row)) = ty @ ''-'' @ OrderID order)
    \<and> (\<forall>n part off. carried_event n tc tp tx (delivery part off (event_message row)) = Event bev)"
proof -
  obtain topic payload where t: "os_topicMap svc ty = Some topic" and p: "BuildPayload ev = Inr payload"
    and out: "out' (env_event_id env) = Some (outbox_event env order ty topic payload)"
    using w by (auto simp: order_written_def)
  have ty: "ty \<noteq> []" using ev by auto
  have "event_key (delivery part off (event_message (outbox_event env order ty topic payload))) = ty @ ''-'' @ OrderID order"
    for part off
    by (subst row_key) (use i ty in simp_all)
  moreover have "carried_event n tc tp tx (delivery part off (event_message (outbox_event env order ty topic payload)))
      = Event bev" for n part off
    using ev
  proof (elim disjE conjE)
    assume e: "ev = Paid \<lparr>op_OrderID = OrderID order, op_PaidAt = t\<rparr>" "ty = EventOrderPaid"
      "bev = BPaid \<lparr>bp_OrderID = OrderID order, bp_PaidAt = t\<rparr>"
    show ?thesis using unmarshal_Paid [OF p [unfolded e]] e t topic i by (simp add: carried_event_def)
  next
    assume e: "ev = Cancelled \<lparr>ox_OrderID = OrderID order, ox_CancelledAt = t\<rparr>" "ty = EventOrderCancelled"
      "bev = BCancelled \<lparr>bx_OrderID = OrderID order, bx_CancelledAt = t\<rparr>"
    show ?thesis using unmarshal_Cancelled [OF p [unfolded e]] e t topic i by (simp add: carried_event_def)
  qed
  ultimately show ?thesis using out by simp
qed

lemma race_rows:
  assumes B: "order_backend OT orders ET outbox txn get svc"
    and pay: "pay_order svc env order s = (Inr o1, s1)"
    and cancel: "cancel_order svc env' order s1 = (Inr o2, s2)"
  shows "order_written svc env (order\<lparr>OrderStatus := OrderStatusPaid\<rparr>)
           (Paid \<lparr>op_OrderID = OrderID order, op_PaidAt = Unix (env_now env)\<rparr>) EventOrderPaid
           (orders (st_db s)) (outbox (st_db s)) (orders (st_db s1)) (outbox (st_db s1))"
    and "order_written svc env' (order\<lparr>OrderStatus := OrderStatusCancelled\<rparr>)
           (Cancelled \<lparr>ox_OrderID = OrderID order, ox_CancelledAt = Unix (env_now env')\<rparr>) EventOrderCancelled
           (orders (st_db s1)) (outbox (st_db s1)) (orders (st_db s2)) (outbox (st_db s2))"
  using order_backend.pay_order_cases [OF B pay] order_backend.cancel_order_cases [OF B cancel]
  by (elim disjE conjE; simp)+

context order_consumer
begin

lemma recorded_processed:
  assumes "processMessage (the_consumer topic tc tp tx) occ c msg w = (x, w')"
    and "processed (bw_db w) (event_key msg) = None" and "processed (bw_db w') (event_key msg) \<noteq> None"
  shows "processed (bw_db w') = (processed (bw_db w))(event_key msg \<mapsto> processed_record occ msg)"
proof -
  obtain fate where f: "consumed_as (the_consumer topic tc tp tx) log processed committed occ msg fate w w'"
    using message_effect [OF assms(1)] by auto
  with assms(2,3) show ?thesis by (cases fate) (auto simp: consumed_as_def)
qed

text \<open>A payment that was recorded makes the cancellation of the same order a dead letter.\<close>

lemma paid_then_cancelled:
  assumes p1: "processMessage (the_consumer tp tc tp tx) occ c m1 w = (x, w1)"
    and p2: "processMessage (the_consumer tx tc tp tx) occ' c' m2 w1 = (y, w2)"
    and e1: "carried_event (occ_newID occ) tc tp tx m1 = Event (BPaid \<lparr>bp_OrderID = i, bp_PaidAt = t\<rparr>)"
    and e2: "carried_event (occ_newID occ') tc tp tx m2 = Event (BCancelled \<lparr>bx_OrderID = i, bx_CancelledAt = t'\<rparr>)"
    and k: "event_key m2 \<noteq> event_key m1"
    and new: "processed (bw_db w) (event_key m1) = None" "processed (bw_db w) (event_key m2) = None"
    and rec: "processed (bw_db w1) (event_key m1) \<noteq> None"
  shows "\<exists>iv. invoices (bw_db w2) i = Some iv \<and> inv_Status iv = InvoiceStatusPaid
    \<and> consumed_as (the_consumer tx tc tp tx) log processed committed occ' m2 Dead w1 w2"
proof -
  obtain iv where iv: "invoices (bw_db w1) i = Some iv" and st: "inv_Status iv = InvoiceStatusPaid"
    using recorded_effect [OF p1 e1 new(1) rec]
    by (cases "invoices (bw_db w) i") (auto simp: set_status_def split: if_splits)
  have "invoice_step (BCancelled \<lparr>bx_OrderID = i, bx_CancelledAt = t'\<rparr>) (invoices (bw_db w1) i) = None"
    by (simp add: iv st)
  moreover have "processed (bw_db w1) (event_key m2) = None"
    using recorded_processed [OF p1 new(1) rec] new(2) k by simp
  ultimately show ?thesis using refused_dead [OF p2 e2] iv st by simp
qed

end

text \<open>
  C38: Where a race ends: the check of a status and the write of it are not one transaction, so
  when a payment and a cancellation of one order have both read it before either writes, both
  succeed, and the order ends CANCELLED with both events queued. When the billing service then
  receives the payment first and records it, the invoice ends PAID: the cancellation goes to the
  dead letters and is counted as failed. The two services then disagree about the order, which no
  run of complete calls can produce: theory \<open>EndToEnd\<close>.
\<close>

theorem race_diverges:
  assumes B: "order_backend OT orders ET outbox txn get svc"
    and C: "order_consumer repo invoices processed proc wr log cm committed"
    and pay: "pay_order svc env order s = (Inr o1, s1)"
    and cancel: "cancel_order svc env' order s1 = (Inr o2, s2)"
    and topic: "os_topicMap svc EventOrderPaid = Some tp" "os_topicMap svc EventOrderCancelled = Some tx" "tp \<noteq> tx"
    and i: "OrderID order \<noteq> []" "utf8_valid (OrderID order)"
  shows "orders (st_db s2) (OrderID order) = Some (order\<lparr>OrderStatus := OrderStatusCancelled\<rparr>)
    \<and> (\<exists>paid cancelled. outbox (st_db s2) (env_event_id env) = Some paid
        \<and> outbox (st_db s2) (env_event_id env') = Some cancelled
        \<and> (\<forall>part off part' off' occ c x occ' c' y w w1 w2.
             let m1 = delivery part off (event_message paid); m2 = delivery part' off' (event_message cancelled) in
             processMessage (billing_consumer tp cm repo wr proc tc tp tx) occ c m1 w = (x, w1)
             \<longrightarrow> processMessage (billing_consumer tx cm repo wr proc tc tp tx) occ' c' m2 w1 = (y, w2)
             \<longrightarrow> processed (bw_db w) (event_key m1) = None \<longrightarrow> processed (bw_db w) (event_key m2) = None
             \<longrightarrow> processed (bw_db w1) (event_key m1) \<noteq> None
             \<longrightarrow> (\<exists>iv. invoices (bw_db w2) (OrderID order) = Some iv \<and> inv_Status iv = InvoiceStatusPaid
                  \<and> consumed_as (billing_consumer tx cm repo wr proc tc tp tx) log processed committed occ' m2 Dead w1 w2)))"
proof -
  note W = race_rows [OF B pay cancel]
  obtain paid where paid: "outbox (st_db s1) (env_event_id env) = Some paid"
    and pk: "\<forall>part off. event_key (delivery part off (event_message paid)) = EventOrderPaid @ ''-'' @ OrderID order"
    and pe: "\<forall>n part off. carried_event n tc tp tx (delivery part off (event_message paid))
        = Event (BPaid \<lparr>bp_OrderID = OrderID order, bp_PaidAt = Unix (env_now env)\<rparr>)"
    using written_event [OF W(1) topic, of "Unix (env_now env)"
        "BPaid \<lparr>bp_OrderID = OrderID order, bp_PaidAt = Unix (env_now env)\<rparr>" tc] i by auto
  obtain cancelled where canc: "outbox (st_db s2) (env_event_id env') = Some cancelled"
    and ck: "\<forall>part off. event_key (delivery part off (event_message cancelled)) = EventOrderCancelled @ ''-'' @ OrderID order"
    and ce: "\<forall>n part off. carried_event n tc tp tx (delivery part off (event_message cancelled))
        = Event (BCancelled \<lparr>bx_OrderID = OrderID order, bx_CancelledAt = Unix (env_now env')\<rparr>)"
    using written_event [OF W(2) topic, of "Unix (env_now env')"
        "BCancelled \<lparr>bx_OrderID = OrderID order, bx_CancelledAt = Unix (env_now env')\<rparr>" tc] i by auto
  have paid2: "outbox (st_db s2) (env_event_id env) = Some paid"
    using W(2) paid by (auto simp: order_written_def)
  show ?thesis
  proof (intro conjI exI allI)
    show "orders (st_db s2) (OrderID order) = Some (order\<lparr>OrderStatus := OrderStatusCancelled\<rparr>)"
      using written_ids(1) [OF W(2)] by simp
    show "outbox (st_db s2) (env_event_id env) = Some paid" "outbox (st_db s2) (env_event_id env') = Some cancelled"
      by (rule paid2, rule canc)
    fix part off part' off' occ c x occ' c' y w w1 w2
    let ?m1 = "delivery part off (event_message paid)" and ?m2 = "delivery part' off' (event_message cancelled)"
    have "event_key ?m2 \<noteq> event_key ?m1" unfolding pk [rule_format] ck [rule_format] by simp
    from order_consumer.paid_then_cancelled [OF C _ _ pe [rule_format] ce [rule_format] this]
    show "let m1 = ?m1; m2 = ?m2 in
        processMessage (billing_consumer tp cm repo wr proc tc tp tx) occ c m1 w = (x, w1)
        \<longrightarrow> processMessage (billing_consumer tx cm repo wr proc tc tp tx) occ' c' m2 w1 = (y, w2)
        \<longrightarrow> processed (bw_db w) (event_key m1) = None \<longrightarrow> processed (bw_db w) (event_key m2) = None
        \<longrightarrow> processed (bw_db w1) (event_key m1) \<noteq> None
        \<longrightarrow> (\<exists>iv. invoices (bw_db w2) (OrderID order) = Some iv \<and> inv_Status iv = InvoiceStatusPaid
             \<and> consumed_as (billing_consumer tx cm repo wr proc tc tp tx) log processed committed occ' m2 Dead w1 w2)"
      unfolding Let_def by (intro impI)
  qed
qed

theorem race_diverges_witness:
  "\<exists>s1 s2 paid cancelled w1 w2 y iv.
     pay_order mem_service example_env (example_order OrderStatusCreated) (example_state OrderStatusCreated []) = (Inr (example_order OrderStatusPaid), s1)
     \<and> cancel_order mem_service (example_env\<lparr>env_event_id := ''e2''\<rparr>) (example_order OrderStatusCreated) s1
         = (Inr (example_order OrderStatusCancelled), s2)
     \<and> mem_orders (st_db s2) ''o1'' = Some (example_order OrderStatusCancelled)
     \<and> mem_outbox (st_db s2) ''e1'' = Some paid \<and> mem_outbox (st_db s2) ''e2'' = Some cancelled
     \<and> processMessage (billing_consumer ''paid'' mem_commit mem_billing mem_write mem_proc ''created'' ''paid'' ''cancelled'')
         example_occasion \<lparr>ctx_request_id = None\<rparr> (delivery 0 7 (event_message paid)) (billing_example InvoiceStatusPending []) = (Returned (), w1)
     \<and> processMessage (billing_consumer ''cancelled'' mem_commit mem_billing mem_write mem_proc ''created'' ''paid'' ''cancelled'')
         example_occasion \<lparr>ctx_request_id = None\<rparr> (delivery 0 8 (event_message cancelled)) w1 = (y, w2)
     \<and> lookup_row inv_OrderID (mem_left (bw_db w2)) ''o1'' = Some iv \<and> inv_Status iv = InvoiceStatusPaid"
proof -
  let ?o = "example_order OrderStatusCreated" and ?env' = "example_env\<lparr>env_event_id := ''e2''\<rparr>"
  let ?con = "\<lambda>topic. billing_consumer topic mem_commit mem_billing mem_write mem_proc ''created'' ''paid'' ''cancelled''"
  let ?w = "billing_example InvoiceStatusPending []"
  obtain s1 s2 where run: "pay_order mem_service example_env ?o (example_state OrderStatusCreated []) = (Inr (example_order OrderStatusPaid), s1)"
      "cancel_order mem_service ?env' ?o s1 = (Inr (example_order OrderStatusCancelled), s2)"
    by (simp add: run_mem Let_def)
  have topic: "os_topicMap mem_service EventOrderPaid = Some ''paid''"
      "os_topicMap mem_service EventOrderCancelled = Some ''cancelled''" "''paid'' \<noteq> ''cancelled''"
    and i: "OrderID ?o \<noteq> []" "utf8_valid (OrderID ?o)"
    by (simp_all add: mem_topics_def example_order_def utf8_ascii byte_def)
  note R = race_diverges [OF mem_backend.order_backend_axioms mem_consumer.order_consumer_axioms run topic i,
      where tc = "''created''", unfolded Let_def]
  obtain paid cancelled where rows: "mem_outbox (st_db s2) (env_event_id example_env) = Some paid"
      "mem_outbox (st_db s2) (env_event_id ?env') = Some cancelled"
    and all: "\<forall>part off part' off' occ c x occ' c' y w w1 w2.
        processMessage (?con ''paid'') occ c (delivery part off (event_message paid)) w = (x, w1)
        \<longrightarrow> processMessage (?con ''cancelled'') occ' c' (delivery part' off' (event_message cancelled)) w1 = (y, w2)
        \<longrightarrow> lookup_row pe_EventID (mem_right (bw_db w)) (event_key (delivery part off (event_message paid))) = None
        \<longrightarrow> lookup_row pe_EventID (mem_right (bw_db w)) (event_key (delivery part' off' (event_message cancelled))) = None
        \<longrightarrow> lookup_row pe_EventID (mem_right (bw_db w1)) (event_key (delivery part off (event_message paid))) \<noteq> None
        \<longrightarrow> (\<exists>iv. lookup_row inv_OrderID (mem_left (bw_db w2)) (OrderID ?o) = Some iv \<and> inv_Status iv = InvoiceStatusPaid
             \<and> consumed_as (?con ''cancelled'') mk_log (\<lambda>s. lookup_row pe_EventID (mem_right s)) mem_committed
                 occ' (delivery part' off' (event_message cancelled)) Dead w1 w2)"
    using R by (elim conjE exE)
  note W = race_rows [OF mem_backend.order_backend_axioms run]
  have "mem_outbox (st_db s1) (env_event_id example_env) = Some paid"
    using W(2) rows(1) by (auto simp: order_written_def example_env_def)
  then have c: "carried_event (occ_newID example_occasion) ''created'' ''paid'' ''cancelled'' (delivery 0 7 (event_message paid))
      = Event (BPaid \<lparr>bp_OrderID = OrderID ?o, bp_PaidAt = Unix (env_now example_env)\<rparr>)"
    using written_event [OF W(1) topic, of "Unix (env_now example_env)" _ "''created''"] i by auto
  have e: "bw_db ?w = \<lparr>mem_left = [example_invoice ''o1'' InvoiceStatusPending 5], mem_right = [], mem_faults = []\<rparr>"
    by (simp add: billing_example_def)
  obtain wh l1 where h: "handle_event mem_billing (BPaid \<lparr>bp_OrderID = OrderID ?o, bp_PaidAt = Unix (env_now example_env)\<rparr>) ?w = (None, wh)"
      "bw_db wh = \<lparr>mem_left = l1, mem_right = [], mem_faults = []\<rparr>"
    by (simp add: run_billing Let_def example_order_def)
  obtain w1 where w1: "processMessage (?con ''paid'') example_occasion \<lparr>ctx_request_id = None\<rparr> (delivery 0 7 (event_message paid)) ?w = (Returned (), w1)"
      "lookup_row pe_EventID (mem_right (bw_db w1)) (event_key (delivery 0 7 (event_message paid))) \<noteq> None"
    using mem_recorded [OF c h(1) e h(2)] by blast
  obtain y w2 where w2: "processMessage (?con ''cancelled'') example_occasion \<lparr>ctx_request_id = None\<rparr> (delivery 0 8 (event_message cancelled)) w1 = (y, w2)"
    by fastforce
  have none: "lookup_row pe_EventID (mem_right (bw_db ?w)) k = None" for k by (simp add: e)
  from all [rule_format, OF w1(1) w2 none none w1(2)] obtain iv where
    iv: "lookup_row inv_OrderID (mem_left (bw_db w2)) ''o1'' = Some iv" "inv_Status iv = InvoiceStatusPaid"
    by (auto simp: example_order_def)
  have "mem_orders (st_db s2) ''o1'' = Some (example_order OrderStatusCancelled)"
    using R by (simp add: example_order_def)
  with run rows w1(1) w2 iv show ?thesis
    by (intro exI conjI) (assumption | simp add: example_env_def)+
qed

end
