(* ===== verification/Concurrent.thy ===== *)
theory Concurrent
  imports Interleaving OrderThreads
begin

text \<open>
  Everything at once: the order service with calls that overlap (\<open>call_step\<close>) and the billing
  service with consumers whose statements interleave. What the services still agree on, and that
  only an order on which a payment and a cancellation overlapped can end differently in the two.
\<close>

section \<open>The outbox of overlapping calls\<close>

text \<open>A row of the outbox is about an order and carries an event of it, whatever its status now.\<close>

definition loose_row :: "(EventType \<Rightarrow> string option) \<Rightarrow> Order view \<Rightarrow> OutboxEvent \<Rightarrow> bool" where
  "loose_row topics ord e \<longleftrightarrow>
     topics (oe_EventType e) = Some (oe_Topic e)
     \<and> (\<exists>order. ord (oe_OrderID e) = Some order \<and> OrderID order = oe_OrderID e
          \<and> (oe_EventType e = EventOrderCreated \<and> Currency (Total order) = ''USD''
               \<and> BuildPayload (created_event order) = Inr (oe_Payload e)
           \<or> oe_EventType e = EventOrderPaid
               \<and> (\<exists>t. BuildPayload (Paid \<lparr>op_OrderID = oe_OrderID e, op_PaidAt = t\<rparr>) = Inr (oe_Payload e))
           \<or> oe_EventType e = EventOrderCancelled
               \<and> (\<exists>t. BuildPayload (Cancelled \<lparr>ox_OrderID = oe_OrderID e, ox_CancelledAt = t\<rparr>) = Inr (oe_Payload e))))"

definition loose_rows :: "(EventType \<Rightarrow> string option) \<Rightarrow> Order view \<Rightarrow> OutboxEvent view \<Rightarrow> bool" where
  "loose_rows topics ord out \<longleftrightarrow> (\<forall>e \<in> ran out. loose_row topics ord e)"

definition from_rows :: "OutboxEvent view \<Rightarrow> kafka_message list \<Rightarrow> bool" where
  "from_rows out lg \<longleftrightarrow> (\<forall>m \<in> set lg. \<exists>e \<in> ran out. m = event_message e)"

lemma created_event_same: "same_but_status o1 o2 \<Longrightarrow> created_event o2 = created_event o1"
  by (simp add: same_but_status_fields created_event_def)

lemma billing_created_same: "same_but_status o1 o2 \<Longrightarrow> billing_created o2 = billing_created o1"
  by (simp add: same_but_status_fields billing_created_def)

lemma loose_row_moved:
  assumes "loose_row topics ord e" and m: "order_moved (ord (oe_OrderID e)) (ord' (oe_OrderID e))"
  shows "loose_row topics ord' e"
proof -
  obtain o1 where o1: "ord (oe_OrderID e) = Some o1" using assms(1) by (auto simp: loose_row_def)
  then obtain o2 where o2: "ord' (oe_OrderID e) = Some o2" and s: "same_but_status o1 o2"
    using m by (auto simp: order_moved_def)
  have "OrderID o2 = OrderID o1" "Total o2 = Total o1" using s by (simp_all add: same_but_status_fields)
  with assms(1) o1 o2 created_event_same [OF s] show ?thesis by (auto simp: loose_row_def)
qed

lemma loose_row_sent [simp]: "loose_row topics ord (mark_sent now e) = loose_row topics ord e"
  by (simp add: loose_row_def mark_sent_def)

text \<open>What a step of the order service writes.\<close>

definition new_event :: "Order \<Rightarrow> order_event \<Rightarrow> EventType \<Rightarrow> bool" where
  "new_event order ev ty \<longleftrightarrow>
     ty = EventOrderCreated \<and> Currency (Total order) = ''USD'' \<and> ev = created_event order
     \<or> ty = EventOrderPaid \<and> (\<exists>t. ev = Paid \<lparr>op_OrderID = OrderID order, op_PaidAt = t\<rparr>)
     \<or> ty = EventOrderCancelled \<and> (\<exists>t. ev = Cancelled \<lparr>ox_OrderID = OrderID order, ox_CancelledAt = t\<rparr>)"

lemma written_rows:
  assumes L: "loose_rows (os_topicMap svc) ord out"
    and w: "order_written svc env order ev ty ord out ord' out'" and ev: "new_event order ev ty"
    and m: "\<forall>i. order_moved (ord i) (ord' i)"
  shows "loose_rows (os_topicMap svc) ord' out' \<and> (from_rows out lg \<longrightarrow> from_rows out' lg)"
proof -
  obtain topic payload where t: "os_topicMap svc ty = Some topic" "BuildPayload ev = Inr payload"
    and ord': "ord' = ord(OrderID order \<mapsto> order)" and none: "out (env_event_id env) = None"
    and out': "out' = out(env_event_id env \<mapsto> outbox_event env order ty topic payload)"
    using w by (auto simp: order_written_def)
  have r: "ran out' = insert (outbox_event env order ty topic payload) (ran out)"
    unfolding out' using none by (rule ran_map_upd)
  have "loose_row (os_topicMap svc) ord' (outbox_event env order ty topic payload)"
    using ev t by (auto simp: new_event_def loose_row_def ord')
  with L loose_row_moved m show ?thesis by (auto simp: loose_rows_def from_rows_def r)
qed

lemma relayed_rows:
  assumes L: "loose_rows topics ord out" and rows: "\<And>i. relay_row now ms (out i) (out' i)"
  shows "loose_rows topics ord out'"
    and "from_rows out lg \<Longrightarrow> set ms \<subseteq> event_message ` pending out \<Longrightarrow> from_rows out' (lg @ ms)"
proof -
  have "loose_row topics ord e" if e: "out' i = Some e" for i e
  proof -
    consider "out i = Some e" | e0 where "out i = Some e0" "e = mark_sent now e0"
      using rows [of i] e by (auto simp: relay_row_def)
    then show ?thesis using L by cases (auto simp: loose_rows_def intro: ranI)
  qed
  then show "loose_rows topics ord out'" by (auto simp: loose_rows_def ran_def)
  have old: "\<exists>e' \<in> ran out'. event_message e = event_message e'" if "e \<in> ran out" for e
  proof -
    obtain i where "out i = Some e" using \<open>e \<in> ran out\<close> by (auto simp: ran_def)
    with rows [of i] have "out' i = Some e \<or> out' i = Some (mark_sent now e)" by (auto simp: relay_row_def)
    then obtain e' where "out' i = Some e'" "event_message e = event_message e'" by auto
    then show ?thesis by (auto intro: ranI)
  qed
  assume F: "from_rows out lg" and ms: "set ms \<subseteq> event_message ` pending out"
  have "set ms \<subseteq> event_message ` ran out" using ms by (auto simp: pending_def)
  then have "m \<in> event_message ` ran out" if "m \<in> set (lg @ ms)" for m
    using F that by (auto simp: from_rows_def)
  with old show "from_rows out' (lg @ ms)" by (fastforce simp: from_rows_def)
qed

context order_system
begin

text \<open>What one step, of a whole call or of half a call, does to the tables and the log.\<close>

definition order_effect :: "'db order_state \<times> 'k \<Rightarrow> 'db order_state \<times> 'k \<Rightarrow> bool" where
  "order_effect x y \<longleftrightarrow>
     (case (x, y) of ((s, k), (s', k')) \<Rightarrow>
        unchanged orders outbox s s' \<and> k' = k
        \<or> (\<exists>env order ev ty. new_event order ev ty \<and> k' = k
             \<and> order_written svc env order ev ty (orders (st_db s)) (outbox (st_db s)) (orders (st_db s')) (outbox (st_db s')))
        \<or> (\<exists>now ms. orders (st_db s') = orders (st_db s) \<and> log k' = log k @ ms
             \<and> set ms \<subseteq> event_message ` pending (outbox (st_db s))
             \<and> (\<forall>i. relay_row now ms (outbox (st_db s) i) (outbox (st_db s') i))))"

lemma effect_unchanged: "unchanged orders outbox s s' \<Longrightarrow> order_effect (s, k) (s', k)"
  by (simp add: order_effect_def)

lemma effect_written:
  "order_written svc env order ev ty (orders (st_db s)) (outbox (st_db s)) (orders (st_db s')) (outbox (st_db s')) \<Longrightarrow>
   new_event order ev ty \<Longrightarrow> order_effect (s, k) (s', k)"
  unfolding order_effect_def by (simp, blast)

lemma effect_relayed:
  assumes "orders (st_db s') = orders (st_db s)" and "log k' = log k @ ms"
    and "set ms \<subseteq> event_message ` pending (outbox (st_db s))"
    and "\<forall>i. relay_row now ms (outbox (st_db s) i) (outbox (st_db s') i)"
  shows "order_effect (s, k) (s', k')"
  using assms unfolding order_effect_def by (simp, blast)

lemma finish_effect:
  assumes "finish_call svc c s = (x, s')"
  shows "order_effect (s, k) (s', k)"
proof (cases c)
  case (Paying env order)
  then have "pay_order svc env order s = (x, s')" using assms by simp
  from pay_order_cases [OF this] show ?thesis
    by (elim disjE conjE exE) (simp_all add: effect_unchanged effect_written [where s = s and s' = s'] new_event_def)
next
  case (Cancelling env order)
  then have "cancel_order svc env order s = (x, s')" using assms by simp
  from cancel_order_cases [OF this] show ?thesis
    by (elim disjE conjE exE) (simp_all add: effect_unchanged effect_written [where s = s and s' = s'] new_event_def)
qed

lemma effect_after_read: "unchanged orders outbox s s1 \<Longrightarrow> order_effect (s1, k) (s', k') \<Longrightarrow> order_effect (s, k) (s', k')"
  by (simp add: order_effect_def unchanged_def)

lemma whole_call_effect:
  assumes "with_order (\<lambda>env order. finish_call svc (mk env order)) svc env i s = (x, s')"
  shows "order_effect (s, k) (s', k)"
  using with_order_cases [OF assms]
proof (elim disjE exE conjE)
  fix order s1
  assume "unchanged orders outbox s s1" and "finish_call svc (mk env order) s1 = (x, s')"
  then show ?thesis by (intro effect_after_read [OF _ finish_effect])
qed (simp_all add: effect_unchanged)

lemma whole_step_effect:
  assumes "order_step svc r orders (s, k) (s', k')" and g: "loose_good (s, k)"
  shows "order_effect (s, k) (s', k')"
  using assms
proof (induction "(s, k)" "(s', k')" arbitrary: s k s' k' rule: order_step.induct)
  case (step_create s env items x s' k)
  show ?case
  proof (cases x)
    case (Inl e)
    with CreateOrder_cases [OF step_create(2)] show ?thesis by (simp add: effect_unchanged)
  next
    case (Inr order)
    with CreateOrder_cases [OF step_create(2)] obtain t where o: "order = new_order env items t"
      and w: "order_written svc env order (created_event order) EventOrderCreated
               (orders (st_db s)) (outbox (st_db s)) (orders (st_db s')) (outbox (st_db s'))" by auto
    have "new_event order (created_event order) EventOrderCreated" by (simp add: new_event_def o new_order_def)
    with w show ?thesis by (rule effect_written)
  qed
next
  case (step_get i s x s' k)
  with GetOrder_cases [OF step_get(1)] show ?case by (simp add: effect_unchanged)
next
  case (step_pay env i s x s' k)
  then have "with_order (\<lambda>env order. finish_call svc (Paying env order)) svc env i s = (x, s')"
    by (simp only: MarkOrderPaid_def finish_call_eta)
  then show ?case by (rule whole_call_effect)
next
  case (step_cancel env i s x s' k)
  then have "with_order (\<lambda>env order. finish_call svc (Cancelling env order)) svc env i s = (x, s')"
    by (simp only: CancelOrder_def finish_call_eta)
  then show ?case by (rule whole_call_effect)
next
  case (step_relay now s k y db' k')
  have P: "sent_published (outbox (st_db s)) (log k)" using step_relay(2) by (simp add: loose_good_def)
  note S = cycle_safe [OF P step_relay(1)]
  then obtain ms evs where ms: "log k' = log k @ ms" "subseq ms (map event_message evs)"
      "set evs \<subseteq> pending (outbox (st_db s))" "\<forall>i. relay_row now ms (outbox (st_db s) i) (outbox db' i)" by blast
  have "set ms \<subseteq> set (map event_message evs)" using ms(2) by (auto elim: list_emb_set)
  then have "set ms \<subseteq> event_message ` pending (outbox (st_db s))" using ms(3) by auto
  from effect_relayed [OF _ ms(1) this] ms(4) S show ?case by simp
qed

lemma call_step_effect:
  assumes "call_step svc r orders (sk, cs) (sk', cs')" and "calls_good (sk, cs)"
  shows "order_effect sk sk'"
  using assms
proof (induction "(sk, cs)" "(sk', cs')" arbitrary: sk cs sk' cs' rule: call_step.induct)
  case (call_whole s k s' k' cs)
  then show ?case by (intro whole_step_effect) (simp_all add: calls_good_def)
next
  case (call_reads i s order db' c env k cs)
  have "get i (st_db s) = (Inr order, db')" using call_reads(1) by (simp add: svc_repo)
  from R.get_frame [OF this] show ?case by (intro effect_unchanged) (simp add: unchanged_def)
next
  case (call_writes c s x s' k xs ys)
  then show ?case by (intro finish_effect)
qed

text \<open>Rows and messages of the log stay true, and events once queued stay queued.\<close>

lemma effect_rows:
  assumes E: "order_effect (s, k) (s', k')" and m: "\<forall>i. order_moved (orders (st_db s) i) (orders (st_db s') i)"
    and L: "loose_rows (os_topicMap svc) (orders (st_db s)) (outbox (st_db s))"
  shows "loose_rows (os_topicMap svc) (orders (st_db s')) (outbox (st_db s'))
    \<and> (from_rows (outbox (st_db s)) (log k) \<longrightarrow> from_rows (outbox (st_db s')) (log k'))
    \<and> (\<forall>i ty. event_ids (outbox (st_db s)) i ty \<subseteq> event_ids (outbox (st_db s')) i ty) \<and> set (log k) \<subseteq> set (log k')"
  using E unfolding order_effect_def prod.case
proof (elim disjE exE conjE)
  assume "unchanged orders outbox s s'" "k' = k"
  with L show ?thesis by (simp add: unchanged_def)
next
  fix env order ev ty
  assume ev: "new_event order ev ty" and "k' = k"
    and w: "order_written svc env order ev ty (orders (st_db s)) (outbox (st_db s)) (orders (st_db s')) (outbox (st_db s'))"
  with written_rows [OF L w ev m, of "log k"] written_ids(2) [OF w] show ?thesis by auto
next
  fix now ms
  assume o: "orders (st_db s') = orders (st_db s)" and l: "log k' = log k @ ms"
    and ms: "set ms \<subseteq> event_message ` pending (outbox (st_db s))"
    and r: "\<forall>i. relay_row now ms (outbox (st_db s) i) (outbox (st_db s') i)"
  note R = relayed_rows [OF L r [rule_format]]
  show ?thesis
    using R(1) R(2) [OF _ ms] relay_event_ids(1) [OF r [rule_format]] by (simp add: o l)
qed

definition rows_good :: "('db order_state \<times> 'k) \<times> order_call list \<Rightarrow> bool" where
  "rows_good x \<longleftrightarrow> calls_good x
     \<and> loose_rows (os_topicMap svc) (orders (st_db (fst (fst x)))) (outbox (st_db (fst (fst x))))"

lemma rows_good_step:
  assumes "call_step svc r orders ((s, k), cs) ((s', k'), cs')" and G: "rows_good ((s, k), cs)"
  shows "rows_good ((s', k'), cs') \<and> (\<forall>i. order_moved (orders (st_db s) i) (orders (st_db s') i))
    \<and> (from_rows (outbox (st_db s)) (log k) \<longrightarrow> from_rows (outbox (st_db s')) (log k'))
    \<and> (\<forall>i ty. event_ids (outbox (st_db s)) i ty \<subseteq> event_ids (outbox (st_db s')) i ty) \<and> set (log k) \<subseteq> set (log k')"
proof -
  have c: "calls_good ((s, k), cs)" and L: "loose_rows (os_topicMap svc) (orders (st_db s)) (outbox (st_db s))"
    using G by (simp_all add: rows_good_def)
  note S = call_step_good [OF assms(1) c]
  have m: "\<forall>i. order_moved (orders (st_db s) i) (orders (st_db s') i)" using S by simp
  from effect_rows [OF call_step_effect [OF assms(1) c] m L] S m show ?thesis by (simp add: rows_good_def)
qed

lemma rows_good_run:
  assumes "(call_step svc r orders)\<^sup>*\<^sup>* x y" and "rows_good x"
  shows "rows_good y"
  using assms
proof (induction rule: rtranclp_induct)
  case (step y z)
  then show ?case
    using rows_good_step [of "fst (fst y)" "snd (fst y)" "snd y" "fst (fst z)" "snd (fst z)" "snd z"] by simp
qed simp

lemma fresh_rows_good:
  "orders (st_db s) = Map.empty \<Longrightarrow> outbox (st_db s) = Map.empty \<Longrightarrow> rows_good ((s, k), [])"
  by (simp add: rows_good_def calls_good_def loose_good_def outbox_loose_def loose_truthful_def event_ids_def
      sent_published_def loose_rows_def)

end

section \<open>Keys\<close>

lemma loose_row_type:
  "loose_row topics ord e \<Longrightarrow> oe_EventType e \<in> {EventOrderCreated, EventOrderPaid, EventOrderCancelled}"
  by (auto simp: loose_row_def)

text \<open>
  C14: Skipping duplicates never drops an event of another order or of another kind, even when calls
  overlap: in every state reached from empty tables with any number of payments and cancellations
  in progress at once, two messages published for outbox rows of orders with an id have the same
  key, by which the consumer recognises an event, only when they are events of the same kind for
  the same order, wherever and however often they are delivered; for a creation only when they are
  the same row. (Two payments of one order that overlap queue two rows with one key, and the
  consumer then handles one of them; without overlapping calls the key determines the row.)
\<close>

theorem keys_tell_orders_apart:
  assumes sys: "order_system OT orders ET outbox txn get svc wr log r"
    and start: "orders (st_db s0) = Map.empty" "outbox (st_db s0) = Map.empty"
    and run: "(call_step svc r orders)\<^sup>*\<^sup>* ((s0, k0), []) ((s, k), cs)"
    and rows: "outbox (st_db s) i = Some e1" "outbox (st_db s) j = Some e2"
    and ids: "oe_OrderID e1 \<noteq> []" "oe_OrderID e2 \<noteq> []"
    and key: "event_key (delivery p1 o1 (event_message e1)) = event_key (delivery p2 o2 (event_message e2))"
  shows "oe_OrderID e1 = oe_OrderID e2 \<and> oe_EventType e1 = oe_EventType e2
    \<and> (oe_EventType e1 = EventOrderCreated \<longrightarrow> i = j)"
proof -
  have G: "order_system.rows_good orders outbox svc log ((s, k), cs)"
    by (rule order_system.rows_good_run [OF sys run order_system.fresh_rows_good [OF sys start]])
  have L: "loose_rows (os_topicMap svc) (orders (st_db s)) (outbox (st_db s))"
    and O: "outbox_loose (orders (st_db s)) (outbox (st_db s))"
    using G by (simp_all add: order_system.rows_good_def [OF sys] order_system.calls_good_def [OF sys]
        order_system.loose_good_def [OF sys])
  have r1: "loose_row (os_topicMap svc) (orders (st_db s)) e1" and r2: "loose_row (os_topicMap svc) (orders (st_db s)) e2"
    using L rows by (auto simp: loose_rows_def intro: ranI)
  note t1 = loose_row_type [OF r1] and t2 = loose_row_type [OF r2]
  have "oe_EventType e1 @ ''-'' @ oe_OrderID e1 = oe_EventType e2 @ ''-'' @ oe_OrderID e2"
    using ids key t1 t2 by (subst (asm) row_key, force, force, subst (asm) row_key, force, force)
  from type_key_inject [OF this t1 t2] have same: "oe_EventType e1 = oe_EventType e2" "oe_OrderID e1 = oe_OrderID e2"
    by simp_all
  moreover have "i = j" if c: "oe_EventType e1 = EventOrderCreated"
  proof -
    have "i \<in> event_ids (outbox (st_db s)) (oe_OrderID e1) EventOrderCreated"
      "j \<in> event_ids (outbox (st_db s)) (oe_OrderID e1) EventOrderCreated"
      using rows same c by (simp_all add: event_ids_def)
    moreover obtain order where "orders (st_db s) (oe_OrderID e1) = Some order" using r1 by (auto simp: loose_row_def)
    then have "card (event_ids (outbox (st_db s)) (oe_OrderID e1) EventOrderCreated) = 1"
      using O [unfolded outbox_loose_def, rule_format, of "oe_OrderID e1"] by (simp add: loose_truthful_def)
    then obtain a where "event_ids (outbox (st_db s)) (oe_OrderID e1) EventOrderCreated = {a}" by (auto simp: card_1_singleton_iff)
    ultimately show ?thesis by simp
  qed
  ultimately show ?thesis by simp
qed

theorem keys_tell_orders_apart_witness:
  "\<exists>order s. CreateOrder mem_service example_env [usd_item ''p'' 2 500] empty_state = (Inr order, s)
     \<and> (\<forall>i j e1 e2. mem_outbox (st_db s) i = Some e1 \<longrightarrow> mem_outbox (st_db s) j = Some e2
         \<longrightarrow> oe_OrderID e1 = ''o2'' \<longrightarrow> oe_OrderID e2 \<noteq> []
         \<longrightarrow> event_key (delivery 0 1 (event_message e1)) = event_key (delivery 3 4 (event_message e2))
         \<longrightarrow> oe_OrderID e2 = ''o2'' \<and> (oe_EventType e1 = EventOrderCreated \<longrightarrow> i = j))"
proof -
  obtain order s where run: "CreateOrder mem_service example_env [usd_item ''p'' 2 500] empty_state = (Inr order, s)"
    using example_create by blast
  let ?k = "\<lparr>mk_log = [], mk_fates = []\<rparr>" and ?r = "NewRelay (right_table oe_ID) mem_write 2 0"
  have "order_step mem_service ?r mem_orders (empty_state, ?k) (s, ?k)"
    using run by (rule step_create [rotated]) (simp add: lookup_row_def)
  then have st: "(call_step mem_service ?r mem_orders)\<^sup>*\<^sup>* ((empty_state, ?k), []) ((s, ?k), [])"
    by (blast intro: call_whole)
  have z: "mem_orders (st_db empty_state) = Map.empty" "mem_outbox (st_db empty_state) = Map.empty"
    by (simp_all add: lookup_row_def fun_eq_iff)
  show ?thesis
  proof (rule exI [of _ order], rule exI [of _ s], intro conjI allI impI)
    fix i j e1 e2
    assume rows: "mem_outbox (st_db s) i = Some e1" "mem_outbox (st_db s) j = Some e2"
      and o: "oe_OrderID e1 = ''o2''" "oe_OrderID e2 \<noteq> []"
      and key: "event_key (delivery 0 1 (event_message e1)) = event_key (delivery 3 4 (event_message e2))"
    have "oe_OrderID e1 \<noteq> []" using o(1) by simp
    note K = keys_tell_orders_apart [OF mem_system.order_system_axioms z st rows this o(2) key]
    show "oe_OrderID e2 = ''o2''" using K o(1) by simp
    show "i = j" if "oe_EventType e1 = EventOrderCreated" using K that by blast
  qed (rule run)
qed

section \<open>Both services, everything interleaved\<close>

inductive concurrent_step ::
  "'db OrderService \<Rightarrow> ('db, 'k) Relay \<Rightarrow> ('db \<Rightarrow> Order view) \<Rightarrow> ('k \<Rightarrow> kafka_message list)
   \<Rightarrow> (string \<Rightarrow> ('bdb, 'bk, 'c) Consumer) \<Rightarrow> 'bdb BillingRepositoryInterface
   \<Rightarrow> (occasion \<Rightarrow> kafka_message \<Rightarrow> carried)
   \<Rightarrow> ((('db order_state \<times> 'k) \<times> order_call list) \<times> ('bdb, 'bk, 'c) billing_world) \<times> consumer_thread list
   \<Rightarrow> ((('db order_state \<times> 'k) \<times> order_call list) \<times> ('bdb, 'bk, 'c) billing_world) \<times> consumer_thread list \<Rightarrow> bool"
  for svc r orders log con repo ca where
  co_order: "call_step svc r orders ((s, k), cs) ((s', k'), cs') \<Longrightarrow> clean_orders (orders (st_db s')) \<Longrightarrow>
    concurrent_step svc r orders log con repo ca ((((s, k), cs), w), ts) ((((s', k'), cs'), w), ts)"
| co_begin: "m \<in> set (log k) \<Longrightarrow> begin_message (con (th_topic t)) (th_msg t) w = (st, w') \<Longrightarrow>
    th_msg t = delivery part off m \<Longrightarrow>
    concurrent_step svc r orders log con repo ca ((((s, k), cs), w), ts) ((((s, k), cs), w'), ts @ goes_on t st)"
| co_thread: "thread_next (con (th_topic t)) repo (ca (th_occ t) (th_msg t)) (th_occ t) (th_ctx t) (th_msg t)
      (th_stage t) w = (st, w') \<Longrightarrow>
    concurrent_step svc r orders log con repo ca ((((s, k), cs), w), xs @ t # ys) ((((s, k), cs), w'), xs @ goes_on t st @ ys)"

text \<open>
  An order on which a payment and a cancellation have both succeeded, which takes two calls that
  overlap.
\<close>

definition raced :: "OutboxEvent view \<Rightarrow> string \<Rightarrow> bool" where
  "raced out i \<longleftrightarrow> event_ids out i EventOrderPaid \<noteq> {} \<and> event_ids out i EventOrderCancelled \<noteq> {}"

text \<open>An invoice is for an order and its amount, and every status it has comes from an event.\<close>

definition backed_invoice :: "Order view \<Rightarrow> OutboxEvent view \<Rightarrow> string \<Rightarrow> Invoice \<Rightarrow> bool" where
  "backed_invoice ord out i iv \<longleftrightarrow>
     (\<exists>order. ord i = Some order \<and> inv_OrderID iv = i \<and> inv_Amount iv = Total order
        \<and> inv_CreatedAt iv = CreatedAt order
        \<and> (inv_Status iv = InvoiceStatusPending
           \<or> inv_Status iv = InvoiceStatusPaid \<and> event_ids out i EventOrderPaid \<noteq> {}
           \<or> inv_Status iv = InvoiceStatusCancelled \<and> event_ids out i EventOrderCancelled \<noteq> {}))"

text \<open>What the record of an event says about the invoice of its order, when others interfere.\<close>

definition taken :: "EventType \<Rightarrow> Invoice option \<Rightarrow> bool" where
  "taken ty row \<longleftrightarrow>
     (case row of None \<Rightarrow> False | Some iv \<Rightarrow> ty = EventOrderCreated \<or> inv_Status iv \<noteq> InvoiceStatusPending)"

definition records_taken :: "ProcessedEvent view \<Rightarrow> Invoice view \<Rightarrow> bool" where
  "records_taken recs ivs \<longleftrightarrow>
     (\<forall>i ty. ty \<in> {EventOrderCreated, EventOrderPaid, EventOrderCancelled} \<longrightarrow>
        recs (ty @ ''-'' @ i) \<noteq> None \<longrightarrow> taken ty (ivs i))"

lemma records_taken_new:
  assumes "records_taken recs ivs" and "taken ty (ivs i)"
    and "ty \<in> {EventOrderCreated, EventOrderPaid, EventOrderCancelled}"
  shows "records_taken (recs(ty @ ''-'' @ i \<mapsto> rec)) ivs"
  unfolding records_taken_def
proof (intro allI impI)
  fix j ty' assume t: "ty' \<in> {EventOrderCreated, EventOrderPaid, EventOrderCancelled}"
    and rj: "(recs(ty @ ''-'' @ i \<mapsto> rec)) (ty' @ ''-'' @ j) \<noteq> None"
  show "taken ty' (ivs j)"
  proof (cases "ty' @ ''-'' @ j = ty @ ''-'' @ i")
    case True
    with type_key_inject [OF True t assms(3)] assms(2) show ?thesis by simp
  next
    case False
    have "recs (ty' @ ''-'' @ j) \<noteq> None" using rj unfolding fun_upd_other [OF False] .
    with assms(1) t show ?thesis unfolding records_taken_def by blast
  qed
qed

lemma backed_invoice_moved:
  assumes "backed_invoice ord out i iv" and m: "order_moved (ord i) (ord' i)"
    and q: "\<And>ty. event_ids out i ty \<subseteq> event_ids out' i ty"
  shows "backed_invoice ord' out' i iv"
proof -
  obtain o1 where o1: "ord i = Some o1" "inv_OrderID iv = i" "inv_Amount iv = Total o1" "inv_CreatedAt iv = CreatedAt o1"
    and st: "inv_Status iv = InvoiceStatusPending
           \<or> inv_Status iv = InvoiceStatusPaid \<and> event_ids out i EventOrderPaid \<noteq> {}
           \<or> inv_Status iv = InvoiceStatusCancelled \<and> event_ids out i EventOrderCancelled \<noteq> {}"
    using assms(1) unfolding backed_invoice_def by (elim exE conjE)
  obtain o2 where o2: "ord' i = Some o2" "same_but_status o1 o2" using m o1(1) by (auto simp: order_moved_def)
  have "event_ids out' i ty \<noteq> {}" if "event_ids out i ty \<noteq> {}" for ty using q [of ty] that by auto
  with o1 o2 st show ?thesis unfolding backed_invoice_def by (auto simp: same_but_status_fields)
qed

text \<open>The message of a row carries its event; the status of the order does not matter for that.\<close>

lemma delivered_loose:
  assumes L: "loose_row topics ord e" and clean: "clean_orders ord"
    and t: "topics EventOrderCreated = Some tc" "topics EventOrderPaid = Some tp" "topics EventOrderCancelled = Some tx"
    and d: "tc \<noteq> tp" "tc \<noteq> tx" "tp \<noteq> tx"
  shows "\<exists>order ev. ord (oe_OrderID e) = Some order \<and> OrderID order = oe_OrderID e
    \<and> event_key (delivery part off (event_message e)) = oe_EventType e @ ''-'' @ oe_OrderID e
    \<and> carried_event n tc tp tx (delivery part off (event_message e)) = Event ev \<and> event_order ev = oe_OrderID e
    \<and> (oe_EventType e = EventOrderCreated \<and> ev = BCreated n (billing_created order)
       \<or> oe_EventType e = EventOrderPaid \<and> (\<exists>p. ev = BPaid p)
       \<or> oe_EventType e = EventOrderCancelled \<and> (\<exists>p. ev = BCancelled p))"
proof -
  let ?i = "oe_OrderID e"
  obtain order where o: "ord ?i = Some order" "OrderID order = ?i" using L by (auto simp: loose_row_def)
  define st where "st = (if oe_EventType e = EventOrderPaid then OrderStatusPaid
      else if oe_EventType e = EventOrderCancelled then OrderStatusCancelled else OrderStatus order)"
  let ?order = "order\<lparr>OrderStatus := st\<rparr>" and ?ord = "ord(?i \<mapsto> order\<lparr>OrderStatus := st\<rparr>)"
  have same: "created_event ?order = created_event order" "billing_created ?order = billing_created order"
    by (simp_all add: created_event_def billing_created_def)
  have R: "row_truth topics ?ord e" using L o by (auto simp: loose_row_def row_truth_def same st_def)
  have C: "clean_orders ?ord" using clean o by (auto simp: clean_orders_def)
  show ?thesis
    using delivered_row [OF R C t d, of part off n] o same(2) by auto
qed

text \<open>A successful write, whatever row it finds.\<close>

lemma loose_write:
  assumes o: "ord i = Some order" "OrderID order = i"
    and ev: "ty = EventOrderCreated \<and> ev = BCreated n (billing_created order)
            \<or> ty = EventOrderPaid \<and> (\<exists>p. ev = BPaid p) \<or> ty = EventOrderCancelled \<and> (\<exists>p. ev = BCancelled p)"
    and q: "event_ids out i ty \<noteq> {}"
    and old: "\<And>iv. row = Some iv \<Longrightarrow> backed_invoice ord out i iv"
    and w: "written ev row new"
  shows "backed_invoice ord out i new \<and> taken ty (Some new) \<and> (\<forall>ty'. taken ty' row \<longrightarrow> taken ty' (Some new))"
  using ev
proof (elim disjE conjE exE)
  assume "ty = EventOrderCreated" "ev = BCreated n (billing_created order)"
  with w o show ?thesis by (simp add: backed_invoice_def taken_def new_invoice_def billing_created_def)
next
  fix p assume a: "ty = EventOrderPaid" "ev = BPaid p"
  then obtain iv where iv: "row = Some iv" "new = set_status InvoiceStatusPaid (Some (time_Unix (bp_PaidAt p))) iv"
    using w by auto
  with old [OF iv(1)] a o q show ?thesis by (simp add: backed_invoice_def taken_def)
next
  fix p assume a: "ty = EventOrderCancelled" "ev = BCancelled p"
  then obtain iv where iv: "row = Some iv" "new = set_status InvoiceStatusCancelled None iv" using w by auto
  with old [OF iv(1)] a o q show ?thesis by (simp add: backed_invoice_def taken_def)
qed

lemma already_taken:
  assumes "ty = EventOrderCreated \<and> ev = BCreated n e
            \<or> ty = EventOrderPaid \<and> (\<exists>p. ev = BPaid p) \<or> ty = EventOrderCancelled \<and> (\<exists>p. ev = BCancelled p)"
    and "already ev row"
  shows "taken ty row"
  using assms by (cases row) (auto simp: taken_def)

text \<open>What a thread relies on: its message was published, and when it has been answered with success
  the event has been taken.\<close>

definition loose_thread :: "kafka_message list \<Rightarrow> Invoice view \<Rightarrow> consumer_thread \<Rightarrow> bool" where
  "loose_thread lg ivs t \<longleftrightarrow>
     (\<exists>m \<in> set lg. \<exists>part off. th_msg t = delivery part off m
        \<and> (\<forall>j e. th_stage t = Answered j None \<longrightarrow> m = event_message e \<longrightarrow> taken (oe_EventType e) (ivs (oe_OrderID e))))"

lemma loose_thread_stable:
  assumes "loose_thread lg ivs t" and "set lg \<subseteq> set lg'" and "\<And>i ty. taken ty (ivs i) \<Longrightarrow> taken ty (ivs' i)"
  shows "loose_thread lg' ivs' t"
proof -
  obtain m part off where m: "m \<in> set lg" "th_msg t = delivery part off m"
    and a: "\<And>j e. th_stage t = Answered j None \<Longrightarrow> m = event_message e \<Longrightarrow> taken (oe_EventType e) (ivs (oe_OrderID e))"
    using assms(1) unfolding loose_thread_def by blast
  have "m \<in> set lg'" using m(1) assms(2) by blast
  moreover have "\<forall>j e. th_stage t = Answered j None \<longrightarrow> m = event_message e \<longrightarrow> taken (oe_EventType e) (ivs' (oe_OrderID e))"
    using a assms(3) by blast
  ultimately show ?thesis unfolding loose_thread_def using m(2) by blast
qed

lemma event_message_same:
  "event_message e = event_message e' \<Longrightarrow> oe_EventType e = oe_EventType e' \<and> oe_OrderID e = oe_OrderID e'"
  by (simp add: event_message_def)

context two_services
begin

definition backed :: "(('db order_state \<times> 'k) \<times> order_call list) \<times> ('bdb, 'bk, 'c) billing_world \<Rightarrow> bool" where
  "backed x \<longleftrightarrow> (case x of (((s, k), cs), w) \<Rightarrow>
     O.rows_good ((s, k), cs) \<and> from_rows (outbox (st_db s)) (log k) \<and> clean_orders (orders (st_db s))
     \<and> (\<forall>i iv. invoices (bw_db w) i = Some iv \<longrightarrow> backed_invoice (orders (st_db s)) (outbox (st_db s)) i iv)
     \<and> records_taken (processed (bw_db w)) (invoices (bw_db w)))"

definition co_good ::
  "((('db order_state \<times> 'k) \<times> order_call list) \<times> ('bdb, 'bk, 'c) billing_world) \<times> consumer_thread list \<Rightarrow> bool" where
  "co_good x \<longleftrightarrow> backed (fst x)
     \<and> (\<forall>t \<in> set (snd x). loose_thread (log (snd (fst (fst (fst x))))) (invoices (bw_db (snd (fst x)))) t)"

lemma backed_same:
  "backed ((sk, cs), w) \<Longrightarrow> invoices (bw_db w') = invoices (bw_db w) \<Longrightarrow> processed (bw_db w') = processed (bw_db w) \<Longrightarrow>
   backed ((sk, cs), w')"
  by (auto simp: backed_def)

lemma co_order_good:
  assumes G: "co_good ((((s, k), cs), w), ts)" and st: "call_step svc r orders ((s, k), cs) ((s', k'), cs')"
    and c: "clean_orders (orders (st_db s'))"
  shows "co_good ((((s', k'), cs'), w), ts)"
proof -
  have B: "backed (((s, k), cs), w)" using G by (simp add: co_good_def)
  then have R: "O.rows_good ((s, k), cs)" by (simp add: backed_def)
  note S = O.rows_good_step [OF st R]
  have "backed_invoice (orders (st_db s')) (outbox (st_db s')) i iv" if "invoices (bw_db w) i = Some iv" for i iv
  proof (rule backed_invoice_moved)
    show "backed_invoice (orders (st_db s)) (outbox (st_db s)) i iv" using B that by (simp add: backed_def)
  qed (use S in auto)
  with B S c have "backed (((s', k'), cs'), w)" by (simp add: backed_def)
  moreover have "loose_thread (log k') (invoices (bw_db w)) t" if "t \<in> set ts" for t
  proof (rule loose_thread_stable)
    show "loose_thread (log k) (invoices (bw_db w)) t" using G that by (simp add: co_good_def)
  qed (use S in auto)
  ultimately show ?thesis by (simp add: co_good_def)
qed

lemma co_begin_good:
  assumes G: "co_good ((((s, k), cs), w), ts)" and m: "m \<in> set (log k)"
    and b: "begin_message (con (th_topic t)) (th_msg t) w = (st, w')" and d: "th_msg t = delivery part off m"
  shows "co_good ((((s, k), cs), w'), ts @ goes_on t st)"
proof -
  note V = begin_message_views [OF b]
  have B: "backed (((s, k), cs), w)" using G by (simp add: co_good_def)
  have "loose_thread (log k) (invoices (bw_db w')) (t\<lparr>th_stage := Trying 0\<rparr>)"
    using d m by (auto simp: loose_thread_def)
  with G V backed_same [OF B, of w'] show ?thesis by (auto simp: co_good_def)
qed

lemma loose_thread_step:
  assumes B: "backed (((s, k), cs), w)" and t: "loose_thread (log k) (invoices (bw_db w)) t"
    and n: "thread_next (con (th_topic t)) repo (carries (th_occ t) (th_msg t)) (th_occ t) (th_ctx t) (th_msg t)
      (th_stage t) w = (st, w')"
  shows "backed (((s, k), cs), w')
    \<and> (\<forall>t' \<in> set (goes_on t st). loose_thread (log k) (invoices (bw_db w')) t')
    \<and> (\<forall>i ty. taken ty (invoices (bw_db w) i) \<longrightarrow> taken ty (invoices (bw_db w') i))"
proof -
  let ?ord = "orders (st_db s)" and ?out = "outbox (st_db s)"
  let ?iv = "invoices (bw_db w)" and ?iv' = "invoices (bw_db w')"
  obtain m part off where m: "m \<in> set (log k)" and msg: "th_msg t = delivery part off m"
    and app: "\<And>j e. th_stage t = Answered j None \<Longrightarrow> m = event_message e \<Longrightarrow> taken (oe_EventType e) (?iv (oe_OrderID e))"
    using t unfolding loose_thread_def by blast
  have clean: "clean_orders ?ord" and truth: "\<And>i iv. ?iv i = Some iv \<Longrightarrow> backed_invoice ?ord ?out i iv"
    and recs: "records_taken (processed (bw_db w)) ?iv" and F: "from_rows ?out (log k)"
    and L: "loose_rows (os_topicMap svc) ?ord ?out"
    using B by (auto simp: backed_def O.rows_good_def)
  obtain e where e: "e \<in> ran ?out" "m = event_message e" using F m by (auto simp: from_rows_def)
  let ?i = "oe_OrderID e" and ?ty = "oe_EventType e"
  have row: "loose_row (os_topicMap svc) ?ord e" using L e(1) by (simp add: loose_rows_def)
  have queued: "event_ids ?out ?i ?ty \<noteq> {}" using e(1) by (auto simp: ran_def event_ids_def)
  obtain order ev where o: "?ord ?i = Some order" "OrderID order = ?i"
    and key: "event_key (th_msg t) = ?ty @ ''-'' @ ?i"
    and ev: "carries (th_occ t) (th_msg t) = Event ev" "event_order ev = ?i"
    and kind: "?ty = EventOrderCreated \<and> ev = BCreated (occ_newID (th_occ t)) (billing_created order)
            \<or> ?ty = EventOrderPaid \<and> (\<exists>p. ev = BPaid p) \<or> ?ty = EventOrderCancelled \<and> (\<exists>p. ev = BCancelled p)"
    using delivered_loose [OF row clean topics different, of part off "occ_newID (th_occ t)"] unfolding msg e(2)
    by (elim exE conjE)
  have ok: "\<forall>t' \<in> set (goes_on t st). loose_thread (log k) ?iv' t'"
    if new: "\<And>j. st = Some (Answered j None) \<Longrightarrow> taken ?ty (?iv' ?i)"
  proof
    fix t' assume "t' \<in> set (goes_on t st)"
    then obtain st' where st': "st = Some st'" "t' = t\<lparr>th_stage := st'\<rparr>" by (cases st) auto
    have "taken (oe_EventType e') (?iv' (oe_OrderID e'))" if "st' = Answered j None" "m = event_message e'" for j e'
    proof -
      have "taken ?ty (?iv' ?i)" by (rule new [of j]) (simp add: st'(1) that(1))
      then show ?thesis using event_message_same [of e e'] e(2) that(2) by simp
    qed
    then show "loose_thread (log k) ?iv' t'" unfolding loose_thread_def
      by (intro bexI [OF _ m] exI [of _ part] exI [of _ off]) (simp add: st'(2) msg)
  qed
  from thread_step_views [OF ev(1) n, unfolded ev(2)] show ?thesis
  proof (elim disjE exE conjE)
    fix j new assume new: "written ev (?iv ?i) new" "?iv' = ?iv(?i \<mapsto> new)" and p: "processed (bw_db w') = processed (bw_db w)"
    note N = loose_write [OF o kind queued truth new(1)]
    have app': "taken ty' (?iv' l)" if "taken ty' (?iv l)" for l ty'
      using that N by (cases "l = ?i") (auto simp: new(2))
    have "backed_invoice ?ord ?out l iv" if "?iv' l = Some iv" for l iv
      using that truth N by (cases "l = ?i") (auto simp: new(2))
    moreover have "records_taken (processed (bw_db w')) ?iv'"
      using recs app' unfolding p by (auto simp: records_taken_def)
    ultimately have "backed (((s, k), cs), w')" using B by (simp add: backed_def)
    with ok N app' show ?thesis by (simp add: new(2))
  next
    assume same: "?iv' = ?iv" "processed (bw_db w') = processed (bw_db w)"
      and a: "\<forall>j. st = Some (Answered j None) \<longrightarrow> already ev (?iv ?i)"
    have "\<And>j. st = Some (Answered j None) \<Longrightarrow> taken ?ty (?iv' ?i)"
      using a already_taken [OF kind] unfolding same(1) by blast
    with ok backed_same [OF B same] same(1) show ?thesis by simp
  next
    fix j rec assume iv: "?iv' = ?iv" and st: "st = None" and ans: "th_stage t = Answered j None"
      and p: "processed (bw_db w') = (processed (bw_db w))(event_key (th_msg t) \<mapsto> rec)"
    have "records_taken (processed (bw_db w')) ?iv"
      using records_taken_new [OF recs app [OF ans e(2)] loose_row_type [OF row]] unfolding p key .
    with B have "backed (((s, k), cs), w')" by (simp add: backed_def iv)
    then show ?thesis by (simp add: st iv)
  qed
qed

lemma co_thread_good:
  assumes G: "co_good ((((s, k), cs), w), xs @ t # ys)"
    and n: "thread_next (con (th_topic t)) repo (carries (th_occ t) (th_msg t)) (th_occ t) (th_ctx t) (th_msg t)
      (th_stage t) w = (st, w')"
  shows "co_good ((((s, k), cs), w'), xs @ goes_on t st @ ys)"
proof -
  have B: "backed (((s, k), cs), w)" and t: "loose_thread (log k) (invoices (bw_db w)) t"
    using G by (simp_all add: co_good_def)
  note S = loose_thread_step [OF B t n]
  have "loose_thread (log k) (invoices (bw_db w')) t'" if "t' \<in> set xs \<union> set ys" for t'
  proof (rule loose_thread_stable [OF _ subset_refl])
    show "loose_thread (log k) (invoices (bw_db w)) t'" using G that by (auto simp: co_good_def)
    show "taken ty (invoices (bw_db w') i)" if "taken ty (invoices (bw_db w) i)" for i ty using S that by blast
  qed
  with S show ?thesis by (auto simp: co_good_def)
qed

lemma co_good_run:
  "(concurrent_step svc r orders log con repo carries)\<^sup>*\<^sup>* x y \<Longrightarrow> co_good x \<Longrightarrow> co_good y"
proof (induction rule: rtranclp_induct)
  case (step y z)
  from step(2) step(3) [OF step(4)] show ?case
    by (induction rule: concurrent_step.induct) (blast intro: co_order_good co_begin_good co_thread_good)+
qed

lemma fresh_co_good:
  assumes "fresh_start ((s, k), w)"
  shows "co_good ((((s, k), []), w), [])"
proof -
  have z: "orders (st_db s) = Map.empty" "outbox (st_db s) = Map.empty" "log k = []"
      "invoices (bw_db w) = Map.empty" "processed (bw_db w) = Map.empty"
    using assms by (simp_all add: fresh_start_def)
  show ?thesis
    using O.fresh_rows_good [OF z(1,2), of k]
    by (simp add: co_good_def backed_def z from_rows_def clean_orders_def records_taken_def)
qed

text \<open>What the invariant says about an invoice, and about an order whose events are all recorded.\<close>

lemma backed_status:
  assumes B: "backed (((s, k), cs), w)" and iv: "invoices (bw_db w) i = Some iv"
  shows "\<exists>order. orders (st_db s) i = Some order \<and> inv_OrderID iv = i \<and> inv_Amount iv = Total order
    \<and> inv_CreatedAt iv = CreatedAt order
    \<and> (inv_Status iv = InvoiceStatusPending
       \<or> inv_Status iv = InvoiceStatusPaid \<and> (OrderStatus order = OrderStatusPaid \<or> raced (outbox (st_db s)) i)
       \<or> inv_Status iv = InvoiceStatusCancelled \<and> (OrderStatus order = OrderStatusCancelled \<or> raced (outbox (st_db s)) i))"
proof -
  let ?ids = "event_ids (outbox (st_db s)) i"
  have "backed_invoice (orders (st_db s)) (outbox (st_db s)) i iv" using B iv by (simp add: backed_def)
  then obtain order where o: "orders (st_db s) i = Some order" "inv_OrderID iv = i" "inv_Amount iv = Total order"
      "inv_CreatedAt iv = CreatedAt order"
    and st: "inv_Status iv = InvoiceStatusPending
           \<or> inv_Status iv = InvoiceStatusPaid \<and> ?ids EventOrderPaid \<noteq> {}
           \<or> inv_Status iv = InvoiceStatusCancelled \<and> ?ids EventOrderCancelled \<noteq> {}"
    unfolding backed_invoice_def by (elim exE conjE)
  have "loose_truthful (orders (st_db s) i) ?ids"
    using B by (simp add: backed_def O.rows_good_def O.calls_good_def O.loose_good_def outbox_loose_def)
  then have "OrderStatus order = OrderStatusCreated \<and> ?ids EventOrderPaid = {} \<and> ?ids EventOrderCancelled = {}
             \<or> OrderStatus order = OrderStatusPaid \<and> ?ids EventOrderPaid \<noteq> {}
             \<or> OrderStatus order = OrderStatusCancelled \<and> ?ids EventOrderCancelled \<noteq> {}"
    using o(1) by (simp add: loose_truthful_def)
  with o st show ?thesis by (auto simp: raced_def)
qed

lemma backed_recorded:
  assumes B: "backed (((s, k), cs), w)" and o: "orders (st_db s) i = Some order"
    and all: "\<And>e. e \<in> ran (outbox (st_db s)) \<Longrightarrow> oe_OrderID e = i \<Longrightarrow>
      processed (bw_db w) (oe_EventType e @ ''-'' @ i) \<noteq> None"
  shows "\<exists>iv. invoices (bw_db w) i = Some iv \<and> inv_Amount iv = Total order
    \<and> (if raced (outbox (st_db s)) i then inv_Status iv \<noteq> InvoiceStatusPending
       else inv_Status iv = invoice_status (OrderStatus order))"
proof -
  let ?ids = "event_ids (outbox (st_db s)) i"
  have recs: "records_taken (processed (bw_db w)) (invoices (bw_db w))" using B by (simp add: backed_def)
  have "loose_truthful (orders (st_db s) i) ?ids"
    using B by (simp add: backed_def O.rows_good_def O.calls_good_def O.loose_good_def outbox_loose_def)
  then have one: "card (?ids EventOrderCreated) = 1"
    and st: "OrderStatus order = OrderStatusCreated \<and> ?ids EventOrderPaid = {} \<and> ?ids EventOrderCancelled = {}
             \<or> OrderStatus order = OrderStatusPaid \<and> ?ids EventOrderPaid \<noteq> {}
             \<or> OrderStatus order = OrderStatusCancelled \<and> ?ids EventOrderCancelled \<noteq> {}"
    using o by (simp_all add: loose_truthful_def)
  have tk: "taken ty (invoices (bw_db w) i)"
    if ty: "ty \<in> {EventOrderCreated, EventOrderPaid, EventOrderCancelled}" and ne: "?ids ty \<noteq> {}" for ty
  proof -
    obtain e where e: "e \<in> ran (outbox (st_db s))" "oe_OrderID e = i" "oe_EventType e = ty"
      using ne by (auto simp: event_ids_def intro: ranI)
    from all [OF e(1,2)] e(3) have "processed (bw_db w) (ty @ ''-'' @ i) \<noteq> None" by simp
    with recs ty show ?thesis unfolding records_taken_def by blast
  qed
  have "?ids EventOrderCreated \<noteq> {}" using one by auto
  from tk [OF _ this] obtain iv where iv: "invoices (bw_db w) i = Some iv"
    by (auto simp: taken_def split: option.splits)
  have moved: "inv_Status iv \<noteq> InvoiceStatusPending" if "ty \<in> {EventOrderPaid, EventOrderCancelled}" "?ids ty \<noteq> {}" for ty
    using tk [of ty] that iv by (auto simp: taken_def)
  from backed_status [OF B iv] st moved [of EventOrderPaid] moved [of EventOrderCancelled] iv o show ?thesis
    by (auto simp: raced_def invoice_status_def)
qed

end

text \<open>Every run in which calls do not overlap is one of these.\<close>

lemma interleaved_concurrent:
  "interleaved_step svc r orders log con repo ca ((sk, w), ts) ((sk', w'), ts') \<Longrightarrow>
   concurrent_step svc r orders log con repo ca (((sk, []), w), ts) (((sk', []), w'), ts')"
  by (induction "((sk, w), ts)" "((sk', w'), ts')" arbitrary: sk w ts sk' w' ts' rule: interleaved_step.induct)
     (blast intro: co_order co_begin co_thread call_whole)+

lemma interleaved_run_concurrent:
  "(interleaved_step svc r orders log con repo ca)\<^sup>*\<^sup>* x y \<Longrightarrow>
   (concurrent_step svc r orders log con repo ca)\<^sup>*\<^sup>* (((fst (fst x), []), snd (fst x)), snd x) (((fst (fst y), []), snd (fst y)), snd y)"
proof (induction rule: rtranclp_induct)
  case (step y z)
  have "concurrent_step svc r orders log con repo ca
      (((fst (fst y), []), snd (fst y)), snd y) (((fst (fst z), []), snd (fst z)), snd z)"
    using step(2) by (intro interleaved_concurrent) simp
  with step(3) show ?case by (rule rtranclp.rtrancl_into_rtrancl)
qed simp

section \<open>Properties of the two services under full concurrency\<close>

text \<open>
  C2: Invoices match orders, whatever runs at the same time: with any number of calls in progress
  in the order service, any number of consumers whose statements interleave on the billing
  database, deliveries repeated and reordered, and any failures, in every state reached from empty
  tables every invoice is for an order, with its total and creation time, and is PAID or CANCELLED
  only when the order is; and once every event of an order is recorded as processed, the invoice
  exists, for the total, with the status that corresponds to that of the order. The one exception is
  stated too: an order on which a payment and a cancellation overlapped and both succeeded, so that
  both events are queued; its invoice may then end in the other of the two states, but it is still
  for the total and is not left PENDING.
\<close>

theorem concurrent_services_agree:
  assumes S: "two_services OT orders ET outbox txn get svc wr log r repo invoices processed proc wrb logb cm committed tc tp tx"
    and run: "(concurrent_step svc r orders log (\<lambda>topic. billing_consumer topic cm repo wrb proc tc tp tx) repo
        (\<lambda>occ msg. carried_event (occ_newID occ) tc tp tx msg))\<^sup>*\<^sup>* ((((s0, k0), []), w0), []) ((((s, k), cs), w), ts)"
    and start: "orders (st_db s0) = Map.empty" "outbox (st_db s0) = Map.empty" "log k0 = []"
      "invoices (bw_db w0) = Map.empty" "processed (bw_db w0) = Map.empty"
  shows "(\<forall>i iv. invoices (bw_db w) i = Some iv \<longrightarrow>
           (\<exists>order. orders (st_db s) i = Some order \<and> inv_OrderID iv = i \<and> inv_Amount iv = Total order
              \<and> inv_CreatedAt iv = CreatedAt order
              \<and> (inv_Status iv = InvoiceStatusPending
                 \<or> inv_Status iv = InvoiceStatusPaid \<and> (OrderStatus order = OrderStatusPaid \<or> raced (outbox (st_db s)) i)
                 \<or> inv_Status iv = InvoiceStatusCancelled \<and> (OrderStatus order = OrderStatusCancelled \<or> raced (outbox (st_db s)) i))))
    \<and> (\<forall>i order. orders (st_db s) i = Some order
         \<longrightarrow> (\<forall>e \<in> ran (outbox (st_db s)). oe_OrderID e = i \<longrightarrow> processed (bw_db w) (oe_EventType e @ ''-'' @ i) \<noteq> None)
         \<longrightarrow> (\<exists>iv. invoices (bw_db w) i = Some iv \<and> inv_Amount iv = Total order
                \<and> (if raced (outbox (st_db s)) i then inv_Status iv \<noteq> InvoiceStatusPending
                   else inv_Status iv = invoice_status (OrderStatus order))))"
proof -
  have "two_services.fresh_start orders outbox log invoices processed ((s0, k0), w0)"
    using start by (simp add: two_services.fresh_start_def [OF S])
  note G = two_services.co_good_run [OF S run two_services.fresh_co_good [OF S this]]
  have B: "two_services.backed orders outbox svc log invoices processed (((s, k), cs), w)"
    using G by (simp add: two_services.co_good_def [OF S])
  show ?thesis
  proof (intro conjI allI impI)
    fix i iv assume "invoices (bw_db w) i = Some iv"
    from two_services.backed_status [OF S B this] show "\<exists>order. orders (st_db s) i = Some order \<and> inv_OrderID iv = i
        \<and> inv_Amount iv = Total order \<and> inv_CreatedAt iv = CreatedAt order
        \<and> (inv_Status iv = InvoiceStatusPending
           \<or> inv_Status iv = InvoiceStatusPaid \<and> (OrderStatus order = OrderStatusPaid \<or> raced (outbox (st_db s)) i)
           \<or> inv_Status iv = InvoiceStatusCancelled \<and> (OrderStatus order = OrderStatusCancelled \<or> raced (outbox (st_db s)) i))" .
  next
    fix i order assume o: "orders (st_db s) i = Some order"
      and all: "\<forall>e \<in> ran (outbox (st_db s)). oe_OrderID e = i \<longrightarrow> processed (bw_db w) (oe_EventType e @ ''-'' @ i) \<noteq> None"
    from two_services.backed_recorded [OF S B o all [rule_format]]
    show "\<exists>iv. invoices (bw_db w) i = Some iv \<and> inv_Amount iv = Total order
        \<and> (if raced (outbox (st_db s)) i then inv_Status iv \<noteq> InvoiceStatusPending
           else inv_Status iv = invoice_status (OrderStatus order))" .
  qed
qed

theorem concurrent_services_agree_witness:
  "\<exists>order s k w iv. (concurrent_step mem_service mem_relay_50 mem_orders mk_log mem_consumers mem_billing
        (\<lambda>occ msg. carried_event (occ_newID occ) ''created'' ''paid'' ''cancelled'' msg))\<^sup>*\<^sup>*
      ((((empty_state, \<lparr>mk_log = [], mk_fates = []\<rparr>), []), empty_billing []), []) ((((s, k), []), w), [])
    \<and> mem_orders (st_db s) ''o2'' = Some order
    \<and> lookup_row inv_OrderID (mem_left (bw_db w)) ''o2'' = Some iv \<and> inv_Amount iv = Total order"
proof -
  obtain order s k w where run: "(system_step mem_service mem_relay_50 mem_orders mk_log mem_consumers)\<^sup>*\<^sup>*
      ((empty_state, \<lparr>mk_log = [], mk_fates = []\<rparr>), empty_billing []) ((s, k), w)"
    and o: "mem_orders (st_db s) ''o2'' = Some order"
    and all: "\<forall>e \<in> ran (mem_outbox (st_db s)).
         lookup_row pe_EventID (mem_right (bw_db w)) (oe_EventType e @ ''-'' @ ''o2'') \<noteq> None"
    using example_system_run by (elim exE conjE)
  note co = interleaved_run_concurrent [OF mem_two.system_run_interleaved [OF run], simplified]
  note R = concurrent_services_agree [OF mem_two.two_services_axioms co, THEN conjunct2, rule_format, OF _ _ _ _ _ o]
  obtain iv where "lookup_row inv_OrderID (mem_left (bw_db w)) ''o2'' = Some iv" "inv_Amount iv = Total order"
    using R all by (auto simp: fun_eq_iff)
  with co o show ?thesis by blast
qed

end
