(* ===== verification/Config.thy ===== *)
theory Config
  imports Errors
begin

text \<open>
  \<open>internal/config\<close> and \<open>internal/database\<close> of both services: the configuration read from
  environment variables, and opening the database with retries and migrations. \<open>log.Fatalf\<close>
  ends the process; its text is the \<open>Inl\<close> of a result. An environment is a function that gives
  the empty string for a variable that is not set, as \<open>os.Getenv\<close> does; it is the one after
  \<open>godotenv.Load\<close>.
\<close>

section \<open>Configuration\<close>

type_synonym environment = "string \<Rightarrow> string"

record Config =
  DBDSN :: string
  KafkaBrokers :: "string list"
  OrderCreatedTopic :: string
  OrderPaidTopic :: string
  OrderCancelledTopic :: string

record OrderConfig = Config +
  OutboxBatchSize :: int64

definition and_then :: "'e + 'a \<Rightarrow> ('a \<Rightarrow> 'e + 'b) \<Rightarrow> 'e + 'b" where
  "and_then x f = (case x of Inl e \<Rightarrow> Inl e | Inr a \<Rightarrow> f a)"

lemma and_then_simps [simp]: "and_then (Inl e) f = Inl e" "and_then (Inr a) f = f a"
  by (simp_all add: and_then_def)

lemma and_then_Inr: "and_then x f = Inr b \<longleftrightarrow> (\<exists>a. x = Inr a \<and> f a = Inr b)"
  by (cases x) auto

lemma and_then_Inl: "and_then x f = Inl e \<longleftrightarrow> x = Inl e \<or> (\<exists>a. x = Inr a \<and> f a = Inl e)"
  by (cases x) auto

definition not_set :: "string \<Rightarrow> string" where
  "not_set key = ''required environment variable '' @ [CHR 0x22] @ key @ [CHR 0x22] @ '' is not set''"

definition mustGetenv :: "environment \<Rightarrow> string \<Rightarrow> string + string" where
  "mustGetenv env key = (let v = env key in if v = [] then Inl (not_set key) else Inr v)"

definition dsn_text :: "string \<Rightarrow> string \<Rightarrow> string \<Rightarrow> string \<Rightarrow> string \<Rightarrow> string \<Rightarrow> string" where
  "dsn_text host user password dbname port sslMode =
     ''host='' @ host @ '' user='' @ user @ '' password='' @ password @ '' dbname='' @ dbname
     @ '' port='' @ port @ '' sslmode='' @ sslMode"

definition billing_LoadConfig :: "environment \<Rightarrow> string + Config" where
  "billing_LoadConfig env =
     (let sslMode = (if env ''DB_SSLMODE'' = [] then ''disable'' else env ''DB_SSLMODE'') in
      and_then (mustGetenv env ''DB_HOST'') (\<lambda>host.
      and_then (mustGetenv env ''DB_USER'') (\<lambda>user.
      and_then (mustGetenv env ''DB_PASSWORD'') (\<lambda>password.
      and_then (mustGetenv env ''DB_NAME'') (\<lambda>dbname.
      and_then (mustGetenv env ''DB_PORT'') (\<lambda>port.
      let dsn = dsn_text host user password dbname port sslMode in
      and_then (mustGetenv env ''KAFKA_BROKERS'') (\<lambda>brokersRaw.
      let brokers = Split brokersRaw CHR '','' in
      and_then (mustGetenv env ''ORDER_CREATED_TOPIC'') (\<lambda>created.
      and_then (mustGetenv env ''ORDER_PAID_TOPIC'') (\<lambda>paid.
      and_then (mustGetenv env ''ORDER_CANCELLED_TOPIC'') (\<lambda>cancelled.
      Inr \<lparr>DBDSN = dsn, KafkaBrokers = brokers, OrderCreatedTopic = created,
           OrderPaidTopic = paid, OrderCancelledTopic = cancelled\<rparr>))))))))))"

definition batch_size :: "environment \<Rightarrow> int64" where
  "batch_size env =
     (let v = env ''OUTBOX_BATCH_SIZE'' in
      if v \<noteq> [] then
        (case Atoi v of
           Inr n \<Rightarrow> if 0 < sint n then n else 50
         | Inl _ \<Rightarrow> 50)
      else 50)"

definition order_LoadConfig :: "environment \<Rightarrow> string + OrderConfig" where
  "order_LoadConfig env =
     (let sslMode = (if env ''DB_SSLMODE'' = [] then ''disable'' else env ''DB_SSLMODE'') in
      and_then (mustGetenv env ''DB_HOST'') (\<lambda>host.
      and_then (mustGetenv env ''DB_USER'') (\<lambda>user.
      and_then (mustGetenv env ''DB_PASSWORD'') (\<lambda>password.
      and_then (mustGetenv env ''DB_NAME'') (\<lambda>dbname.
      and_then (mustGetenv env ''DB_PORT'') (\<lambda>port.
      let dsn = dsn_text host user password dbname port sslMode in
      and_then (mustGetenv env ''KAFKA_BROKERS'') (\<lambda>brokersRaw.
      let brokers = Split brokersRaw CHR '','';
          batchSize = batch_size env in
      and_then (mustGetenv env ''ORDER_CREATED_TOPIC'') (\<lambda>created.
      and_then (mustGetenv env ''ORDER_PAID_TOPIC'') (\<lambda>paid.
      and_then (mustGetenv env ''ORDER_CANCELLED_TOPIC'') (\<lambda>cancelled.
      Inr \<lparr>DBDSN = dsn, KafkaBrokers = brokers, OrderCreatedTopic = created,
           OrderPaidTopic = paid, OrderCancelledTopic = cancelled,
           OutboxBatchSize = batchSize\<rparr>))))))))))"

text \<open>The required variables, in the order they are read.\<close>

definition required_vars :: "string list" where
  "required_vars = [''DB_HOST'', ''DB_USER'', ''DB_PASSWORD'', ''DB_NAME'', ''DB_PORT'', ''KAFKA_BROKERS'',
     ''ORDER_CREATED_TOPIC'', ''ORDER_PAID_TOPIC'', ''ORDER_CANCELLED_TOPIC'']"

lemma order_config_extends:
  "order_LoadConfig env = and_then (billing_LoadConfig env)
     (\<lambda>c. Inr \<lparr>DBDSN = DBDSN c, KafkaBrokers = KafkaBrokers c, OrderCreatedTopic = OrderCreatedTopic c,
           OrderPaidTopic = OrderPaidTopic c, OrderCancelledTopic = OrderCancelledTopic c,
           OutboxBatchSize = batch_size env\<rparr>)"
  by (simp add: order_LoadConfig_def billing_LoadConfig_def mustGetenv_def Let_def)

lemma batch_size_pos: "0 < sint (batch_size env)"
  by (simp add: batch_size_def Let_def split: sum.split)

lemma billing_LoadConfig_cases:
  "case find (\<lambda>k. env k = []) required_vars of
     Some k \<Rightarrow> billing_LoadConfig env = Inl (not_set k)
   | None \<Rightarrow> billing_LoadConfig env = Inr
       \<lparr>DBDSN = dsn_text (env ''DB_HOST'') (env ''DB_USER'') (env ''DB_PASSWORD'') (env ''DB_NAME'') (env ''DB_PORT'')
                 (if env ''DB_SSLMODE'' = [] then ''disable'' else env ''DB_SSLMODE''),
        KafkaBrokers = Split (env ''KAFKA_BROKERS'') CHR '','',
        OrderCreatedTopic = env ''ORDER_CREATED_TOPIC'', OrderPaidTopic = env ''ORDER_PAID_TOPIC'',
        OrderCancelledTopic = env ''ORDER_CANCELLED_TOPIC''\<rparr>"
  by (simp add: required_vars_def billing_LoadConfig_def mustGetenv_def Let_def)

text \<open>
  C32: Both services read the same configuration from the same variables: when a required
  variable is missing or empty, both stop and name the first one missing; otherwise both start
  with the same connection text, the same three topics (each as it is set) and the same list of
  brokers, which is never empty and joined with commas is the variable again. SSL is disabled
  unless the variable says otherwise, and the outbox batch size is positive whatever is set.
\<close>

theorem LoadConfig_spec:
  "case find (\<lambda>k. env k = []) required_vars of
     Some k \<Rightarrow> billing_LoadConfig env = Inl (not_set k) \<and> order_LoadConfig env = Inl (not_set k)
   | None \<Rightarrow>
       (\<exists>b c. billing_LoadConfig env = Inr b \<and> order_LoadConfig env = Inr c
          \<and> DBDSN b = dsn_text (env ''DB_HOST'') (env ''DB_USER'') (env ''DB_PASSWORD'') (env ''DB_NAME'') (env ''DB_PORT'')
               (if env ''DB_SSLMODE'' = [] then ''disable'' else env ''DB_SSLMODE'')
          \<and> DBDSN c = DBDSN b \<and> KafkaBrokers c = KafkaBrokers b
          \<and> OrderCreatedTopic b = env ''ORDER_CREATED_TOPIC'' \<and> OrderCreatedTopic c = OrderCreatedTopic b
          \<and> OrderPaidTopic b = env ''ORDER_PAID_TOPIC'' \<and> OrderPaidTopic c = OrderPaidTopic b
          \<and> OrderCancelledTopic b = env ''ORDER_CANCELLED_TOPIC'' \<and> OrderCancelledTopic c = OrderCancelledTopic b
          \<and> KafkaBrokers b \<noteq> [] \<and> Join (KafkaBrokers b) CHR '','' = env ''KAFKA_BROKERS''
          \<and> 0 < sint (OutboxBatchSize c))"
  using billing_LoadConfig_cases [of env]
  by (auto simp: order_config_extends batch_size_pos Join_Split split: option.splits)

section \<open>Opening the database\<close>

text \<open>
  \<open>opn n\<close> is what \<open>gorm.Open\<close> returns at attempt \<open>n\<close>. \<open>connect\<close> is the loop: attempts left, the
  number of the next, the intervals slept so far, and the last error; it returns the handle, the
  last error and the intervals slept.
\<close>

definition maxRetries :: nat where "maxRetries = 10"

definition retryInterval :: int where "retryInterval = 3 * 1000000000"

fun connect ::
  "nat \<Rightarrow> nat \<Rightarrow> (nat \<Rightarrow> go_error + 'h) \<Rightarrow> go_error option \<Rightarrow> int \<Rightarrow> 'h option \<times> go_error option \<times> int" where
  "connect 0 n opn err slept = (None, err, slept)"
| "connect (Suc left) n opn err slept =
     (case opn n of
        Inr db \<Rightarrow> (Some db, None, slept)
      | Inl e \<Rightarrow> connect left (Suc n) opn (Some e) (slept + retryInterval))"

text \<open>
  \<open>migrate\<close> is the service's migration on the handle; a handle that is not there would be a nil
  pointer. The second component is how long it slept.
\<close>

definition InitDB ::
  "(nat \<Rightarrow> go_error + 'h) \<Rightarrow> string \<Rightarrow> ('h \<Rightarrow> go_error option \<times> 'h) \<Rightarrow> (go_error + 'h) outcome \<times> int" where
  "InitDB opn migrate_text migrate =
     (case connect maxRetries 1 opn None 0 of
        (_, Some err, slept) \<Rightarrow>
          (Returned (Inl (WrapErr ''failed to connect to database after 10 attempts: '' err)), slept)
      | (None, None, slept) \<Rightarrow> (Panicked ''nil pointer dereference'', slept)
      | (Some db, None, slept) \<Rightarrow>
          (case migrate db of
             (Some err, _) \<Rightarrow> (Returned (Inl (WrapErr migrate_text err)), slept)
           | (None, db') \<Rightarrow> (Returned (Inr db'), slept)))"

definition order_InitDB ::
  "(nat \<Rightarrow> go_error + 'h) \<Rightarrow> (string list \<Rightarrow> 'h \<Rightarrow> go_error option \<times> 'h) \<Rightarrow> (go_error + 'h) outcome \<times> int" where
  "order_InitDB opn autoMigrate = InitDB opn ''failed to migrate: '' (autoMigrate [''Order''])"

text \<open>\<open>exec\<close> runs a statement, whose error is ignored.\<close>

definition runMigrations ::
  "(string \<Rightarrow> 'h \<Rightarrow> 'h) \<Rightarrow> (string list \<Rightarrow> 'h \<Rightarrow> go_error option \<times> 'h) \<Rightarrow> 'h \<Rightarrow> go_error option \<times> 'h" where
  "runMigrations exec autoMigrate db =
     (let db1 = exec ''ALTER TABLE invoices DROP CONSTRAINT IF EXISTS uni_invoices_order_id'' db;
          db2 = exec ''ALTER TABLE invoices DROP CONSTRAINT IF EXISTS invoices_order_id_key'' db1
      in autoMigrate [''Invoice'', ''ProcessedEvent''] db2)"

definition billing_InitDB ::
  "(nat \<Rightarrow> go_error + 'h) \<Rightarrow> (string \<Rightarrow> 'h \<Rightarrow> 'h) \<Rightarrow> (string list \<Rightarrow> 'h \<Rightarrow> go_error option \<times> 'h)
   \<Rightarrow> (go_error + 'h) outcome \<times> int" where
  "billing_InitDB opn exec autoMigrate =
     InitDB opn ''failed to run migrations: '' (runMigrations exec autoMigrate)"

text \<open>The loop in closed form: the first attempt that succeeds, if there is one.\<close>

lemma connect_run:
  "connect left n opn err slept =
     (case find (\<lambda>k. \<exists>db. opn k = Inr db) [n..<n + left] of
        Some k \<Rightarrow> (Some (projr (opn k)), None, slept + int (k - n) * retryInterval)
      | None \<Rightarrow> (None, if left = 0 then err else Some (projl (opn (n + left - 1))), slept + int left * retryInterval))"
proof (induction left arbitrary: n err slept)
  case (Suc left)
  have u: "[n..<n + Suc left] = n # [Suc n..<Suc n + left]" by (simp add: upt_conv_Cons)
  show ?case
  proof (cases "opn n")
    case (Inl e)
    have "n \<le> k" if "find (\<lambda>k. \<exists>db. opn k = Inr db) [Suc n..<Suc n + left] = Some k" for k
      using find_Some_set [OF that] by auto
    then show ?thesis
      unfolding u using Inl
      by (auto simp: Suc algebra_simps of_nat_diff dest!: find_Some_set split: option.split)
  qed (unfold u, simp)
qed simp

text \<open>
  Opening the database ends, without a panic, after at most ten attempts: with the first
  attempt that succeeds, after three seconds for each that failed before, and then the result is
  that of the migration, its error wrapped; when all ten fail, after thirty seconds (the last
  wait is for nothing), with the error of the tenth.
\<close>

lemma InitDB_spec:
  "case find (\<lambda>k. \<exists>db. opn k = Inr db) [1..<11] of
     Some k \<Rightarrow> k \<le> 10 \<and> snd (InitDB opn text migrate) = int (k - 1) * 3000000000
       \<and> fst (InitDB opn text migrate) = Returned
           (case migrate (projr (opn k)) of
              (Some e, _) \<Rightarrow> Inl (WrapErr text e)
            | (None, db) \<Rightarrow> Inr db)
   | None \<Rightarrow> InitDB opn text migrate =
       (Returned (Inl (WrapErr ''failed to connect to database after 10 attempts: '' (projl (opn 10)))), 30000000000)"
  using connect_run [of 10 1 opn None 0]
  by (auto simp: InitDB_def maxRetries_def retryInterval_def dest: find_Some_set split: option.splits prod.splits)

end
