(* ===== verification/OrderGrpc.thy ===== *)
theory OrderGrpc
  imports OrderSystem Middleware
begin

text \<open>
  \<open>order_service/internal/grpc\<close>: the mapping between protobuf messages and the domain, and the
  four handlers of the gRPC server, run under the interceptor chain. A pointer of a message is an
  option; reading through a nil pointer panics. The timestamp that \<open>timestamppb.New\<close> makes is a
  parameter. A protobuf enum is an \<open>int32\<close>.
\<close>

section \<open>Messages\<close>

record pb_Money =
  pbm_Amount :: int64
  pbm_Currency :: string

record pb_OrderItem =
  pbi_ProductId :: string
  pbi_Quantity :: int32
  pbi_Price :: "pb_Money option"

record 'ts pb_Order =
  pbo_Id :: string
  pbo_Items :: "pb_OrderItem option list"
  pbo_TotalPrice :: "pb_Money option"
  pbo_Status :: int32
  pbo_CreatedAt :: 'ts

abbreviation ORDER_STATUS_UNSPECIFIED :: int32 where "ORDER_STATUS_UNSPECIFIED \<equiv> 0"
abbreviation ORDER_STATUS_CREATED :: int32 where "ORDER_STATUS_CREATED \<equiv> 1"
abbreviation ORDER_STATUS_PAID :: int32 where "ORDER_STATUS_PAID \<equiv> 2"
abbreviation ORDER_STATUS_CANCELLED :: int32 where "ORDER_STATUS_CANCELLED \<equiv> 3"

section \<open>Mapping\<close>

definition nil_dereference :: string where
  "nil_dereference = ''runtime error: invalid memory address or nil pointer dereference''"

fun mapProtoItemsDomain :: "pb_OrderItem option list \<Rightarrow> OrderItem list outcome" where
  "mapProtoItemsDomain [] = Returned []"
| "mapProtoItemsDomain (None # items) = Panicked nil_dereference"
| "mapProtoItemsDomain (Some item # items) =
     (case pbi_Price item of
        None \<Rightarrow> Panicked nil_dereference
      | Some price \<Rightarrow>
          (case mapProtoItemsDomain items of
             Panicked p \<Rightarrow> Panicked p
           | Returned result \<Rightarrow> Returned
               (\<lparr>ProductID = pbi_ProductId item, Quantity = scast (pbi_Quantity item),
                 Price = \<lparr>Amount = pbm_Amount price, Currency = pbm_Currency price\<rparr>\<rparr> # result)))"

definition mapOrderStatusToProto :: "OrderStatus \<Rightarrow> int32" where
  "mapOrderStatusToProto status =
     (if status = OrderStatusCreated then ORDER_STATUS_CREATED
      else if status = OrderStatusPaid then ORDER_STATUS_PAID
      else if status = OrderStatusCancelled then ORDER_STATUS_CANCELLED
      else ORDER_STATUS_UNSPECIFIED)"

definition proto_item :: "OrderItem \<Rightarrow> pb_OrderItem" where
  "proto_item item =
     \<lparr>pbi_ProductId = ProductID item, pbi_Quantity = ucast (Quantity item),
      pbi_Price = Some \<lparr>pbm_Amount = Amount (Price item), pbm_Currency = Currency (Price item)\<rparr>\<rparr>"

definition mapProtoItemsProto :: "(gotime \<Rightarrow> 'ts) \<Rightarrow> Order \<Rightarrow> 'ts pb_Order" where
  "mapProtoItemsProto timestamppb_New order =
     \<lparr>pbo_Id = OrderID order, pbo_Items = map (Some \<circ> proto_item) (Items order),
      pbo_TotalPrice = Some \<lparr>pbm_Amount = Amount (Total order), pbm_Currency = Currency (Total order)\<rparr>,
      pbo_Status = mapOrderStatusToProto (OrderStatus order),
      pbo_CreatedAt = timestamppb_New (CreatedAt order)\<rparr>"

section \<open>Server\<close>

type_synonym ('req, 'db, 'ts) order_rpc = "('req, 'ts pb_Order, 'db order_state) grpc_handler"

text \<open>An order, or the status error of the service's error.\<close>

definition order_reply ::
  "(gotime \<Rightarrow> 'ts) \<Rightarrow> (go_error + Order) \<times> 'db order_state
   \<Rightarrow> (grpc_status + 'ts pb_Order) outcome \<times> 'db order_state" where
  "order_reply ts r =
     (case r of
        (Inl err, s') \<Rightarrow> (Returned (Inl (order_mapError err)), s')
      | (Inr order, s') \<Rightarrow> (Returned (Inr (mapProtoItemsProto ts order)), s'))"

definition Server_CreateOrder ::
  "'db OrderService \<Rightarrow> (gotime \<Rightarrow> 'ts) \<Rightarrow> call_env \<Rightarrow> (pb_OrderItem option list, 'db, 'ts) order_rpc" where
  "Server_CreateOrder svc ts env c req s =
     (case mapProtoItemsDomain req of
        Panicked p \<Rightarrow> (Panicked p, s)
      | Returned domainItems \<Rightarrow> order_reply ts (CreateOrder svc env domainItems s))"

definition Server_GetOrder :: "'db OrderService \<Rightarrow> (gotime \<Rightarrow> 'ts) \<Rightarrow> (string, 'db, 'ts) order_rpc" where
  "Server_GetOrder svc ts c orderId s = order_reply ts (GetOrder svc orderId s)"

definition Server_MarkOrderPaid ::
  "'db OrderService \<Rightarrow> (gotime \<Rightarrow> 'ts) \<Rightarrow> call_env \<Rightarrow> (string, 'db, 'ts) order_rpc" where
  "Server_MarkOrderPaid svc ts env c orderId s = order_reply ts (MarkOrderPaid svc env orderId s)"

definition Server_CancelOrder ::
  "'db OrderService \<Rightarrow> (gotime \<Rightarrow> 'ts) \<Rightarrow> call_env \<Rightarrow> (string, 'db, 'ts) order_rpc" where
  "Server_CancelOrder svc ts env c orderId s = order_reply ts (CancelOrder svc env orderId s)"

text \<open>The server as \<open>Run\<close> builds it: every method under the chain; no request type validates itself.\<close>

definition order_server ::
  "string list option \<Rightarrow> string \<Rightarrow> string \<Rightarrow> int \<Rightarrow> ('req, 'db, 'ts) order_rpc \<Rightarrow> ('req, 'db, 'ts) order_rpc" where
  "order_server md newID fullMethod duration =
     chain_interceptors md newID (\<lambda>_. None) (\<lambda>f s. s\<lparr>st_metrics := f (st_metrics s)\<rparr>) fullMethod duration"

section \<open>Mapping there and back\<close>

lemma scast_ucast_32:
  assumes "- (2 ^ 31) \<le> sint (w :: int64)" and "sint w < 2 ^ 31"
  shows "scast (ucast w :: int32) = w"
proof (rule sint64_eqI)
  have "sint (ucast w :: int32) = signed_take_bit 31 (uint w)"
    by (simp add: sint_uint unsigned_ucast_eq take_bit_word_eq_self signed_take_bit_take_bit min_def)
  also have "\<dots> = signed_take_bit 31 (sint w)"
    by (simp add: uint_sint signed_take_bit_take_bit)
  also have "\<dots> = sint w" using assms by (intro signed_take_bit_int_eq_self) auto
  finally have "sint (ucast w :: int32) = sint w" .
  then show "sint (scast (ucast w :: int32) :: int64) = sint w"
    by (metis in_int64_sint scast_eq sint_of_int64)
qed

lemma mapProtoItemsDomain_proto:
  "list_all (\<lambda>it. - (2 ^ 31) \<le> sint (Quantity it) \<and> sint (Quantity it) < 2 ^ 31) items \<Longrightarrow>
   mapProtoItemsDomain (map (Some \<circ> proto_item) items) = Returned items"
  by (induction items) (simp_all add: proto_item_def scast_ucast_32)

text \<open>
  An order's items survive the protobuf messages: mapping an order to its message and the
  items of the message back gives the items of the order, for all quantities that a request can
  carry (an \<open>int32\<close>).
\<close>

lemma proto_items_round_trip:
  assumes "list_all (\<lambda>it. - (2 ^ 31) \<le> sint (Quantity it) \<and> sint (Quantity it) < 2 ^ 31) (Items order)"
  shows "mapProtoItemsDomain (pbo_Items (mapProtoItemsProto ts order)) = Returned (Items order)"
  by (simp add: mapProtoItemsProto_def mapProtoItemsDomain_proto [OF assms])

lemma proto_items_round_trip_witness:
  "mapProtoItemsDomain (pbo_Items (mapProtoItemsProto (\<lambda>t. t) (example_order OrderStatusPaid)))
   = Returned [usd_item ''p'' 1 7]"
  using proto_items_round_trip [of "example_order OrderStatusPaid" "\<lambda>t. t"]
  by (simp add: example_order_def usd_item_def)

section \<open>Calls\<close>

lemma mapProtoItemsDomain_nil:
  "list_ex (\<lambda>x. Option.bind x pbi_Price = None) req \<Longrightarrow> mapProtoItemsDomain req = Panicked nil_dereference"
proof (induction req)
  case (Cons x req)
  then show ?case by (cases x) (auto split: option.split outcome.split)
qed simp

lemma order_server_run:
  assumes "newID \<noteq> []"
  shows "\<exists>j. order_server md newID m d h c req s =
      (case h (requestid_Set c j) req s of
         (Panicked _, s') \<Rightarrow> (Returned (Inl (Internal, ''internal server error'')), s')
       | (Returned r, s') \<Rightarrow> (Returned r, s'\<lparr>st_metrics := count_request m d (status_label r) (st_metrics s')\<rparr>))"
  using chain_run [OF assms, of md "\<lambda>_. None" "\<lambda>f s. s\<lparr>st_metrics := f (st_metrics s)\<rparr>" m d h c req s]
  unfolding order_server_def by auto

text \<open>
  A creation request in which an item has no price is answered INTERNAL, not
  INVALID_ARGUMENT: the mapping to the domain reads through the nil pointer before any
  validation, and the recovery interceptor turns the panic into an internal error. Nothing is
  stored, no event is queued and the call is not counted.
\<close>

lemma missing_price_is_internal:
  assumes "Some it \<in> set req" and "pbi_Price it = None" and "newID \<noteq> []"
  shows "order_server md newID m d (Server_CreateOrder svc ts env) c req s
         = (Returned (Inl (Internal, ''internal server error'')), s)"
proof -
  have p: "mapProtoItemsDomain req = Panicked nil_dereference"
    using assms(1,2) by (intro mapProtoItemsDomain_nil) (auto simp: list_ex_iff intro!: bexI [of _ "Some it"])
  obtain i where "order_server md newID m d (Server_CreateOrder svc ts env) c req s =
      (case Server_CreateOrder svc ts env (requestid_Set c i) req s of
         (Panicked _, s') \<Rightarrow> (Returned (Inl (Internal, ''internal server error'')), s')
       | (Returned r, s') \<Rightarrow> (Returned r, s'\<lparr>st_metrics := count_request m d (status_label r) (st_metrics s')\<rparr>))"
    using order_server_run [OF assms(3), of md m d "Server_CreateOrder svc ts env" c req s] by (elim exE)
  then show ?thesis by (simp add: Server_CreateOrder_def p)
qed

lemma missing_price_is_internal_witness:
  "fst (order_server None ''id'' ''/m'' 0 (Server_CreateOrder mem_service (\<lambda>t. t) example_env)
      \<lparr>ctx_request_id = None\<rparr> [Some \<lparr>pbi_ProductId = ''p'', pbi_Quantity = 1, pbi_Price = None\<rparr>]
      (example_state OrderStatusPaid [])) = Returned (Inl (Internal, ''internal server error''))"
  by (subst missing_price_is_internal [where it = "\<lparr>pbi_ProductId = ''p'', pbi_Quantity = 1, pbi_Price = None\<rparr>"])
     simp_all

text \<open>
  C31: A payment call over gRPC tells the truth: it is always answered, and counted once under
  the status of its answer; an OK answer carries the order that was asked for with status PAID,
  which is what is stored then; any other answer has one of four codes and leaves the orders
  and the outbox as they were.
\<close>

theorem pay_call_truthful:
  assumes "order_backend OT orders ET outbox tx get svc" and "newID \<noteq> []"
    and "order_server md newID m d (Server_MarkOrderPaid svc ts env) c i s = (x, s')"
  shows "\<exists>r. x = Returned r
    \<and> GRPCRequestsTotal (st_metrics s') = inc_at (GRPCRequestsTotal (st_metrics s)) (m, status_label r)
    \<and> (case r of
         Inr reply \<Rightarrow> pbo_Id reply = i \<and> pbo_Status reply = ORDER_STATUS_PAID
           \<and> map_option OrderStatus (orders (st_db s') i) = Some OrderStatusPaid
       | Inl st \<Rightarrow> fst st \<in> {InvalidArgument, NotFound, FailedPrecondition, Internal}
           \<and> orders (st_db s') = orders (st_db s) \<and> outbox (st_db s') = outbox (st_db s))"
proof -
  obtain j where run: "(x, s') =
      (case Server_MarkOrderPaid svc ts env (requestid_Set c j) i s of
         (Panicked _, s') \<Rightarrow> (Returned (Inl (Internal, ''internal server error'')), s')
       | (Returned r, s') \<Rightarrow> (Returned r, s'\<lparr>st_metrics := count_request m d (status_label r) (st_metrics s')\<rparr>))"
    using order_server_run [OF assms(2), of md m d "Server_MarkOrderPaid svc ts env" c i s]
    unfolding assms(3) by (elim exE)
  obtain y s1 where op: "MarkOrderPaid svc env i s = (y, s1)" by fastforce
  note C = order_backend.MarkOrderPaid_cases [OF assms(1) op]
  show ?thesis
  proof (cases y)
    case (Inl e)
    with run op C show ?thesis
      by (auto simp: Server_MarkOrderPaid_def order_reply_def unchanged_def count_request_def status_label_def)
  next
    case (Inr order)
    have o: "OrderID order = i" "OrderStatus order = OrderStatusPaid" "orders (st_db s1) i = Some order"
        "GRPCRequestsTotal (st_metrics s1) = GRPCRequestsTotal (st_metrics s)"
      using C Inr by (auto simp: status_change_def order_written_def)
    show ?thesis
      using run op Inr o
      by (simp add: Server_MarkOrderPaid_def order_reply_def count_request_def mapProtoItemsProto_def
          mapOrderStatusToProto_def)
  qed
qed

theorem pay_call_truthful_witness:
  "\<exists>reply s'. order_server None ''id'' ''/m'' 0 (Server_MarkOrderPaid mem_service (\<lambda>t. t) example_env)
      \<lparr>ctx_request_id = None\<rparr> ''o1'' (example_state OrderStatusCreated []) = (Returned (Inr reply), s')
    \<and> pbo_Status reply = ORDER_STATUS_PAID"
proof -
  obtain x s' where run: "order_server None ''id'' ''/m'' 0 (Server_MarkOrderPaid mem_service (\<lambda>t. t) example_env)
      \<lparr>ctx_request_id = None\<rparr> ''o1'' (example_state OrderStatusCreated []) = (x, s')" by fastforce
  have "\<exists>reply. x = Returned (Inr reply)"
    using run
    by (auto simp: order_server_def chain_interceptors_def RequestIDInterceptor_def ValidationInterceptor_def
        RecoveryInterceptor_def GRPCMetricsInterceptor_def Server_MarkOrderPaid_def order_reply_def
        run_mem Let_def)
  with pay_call_truthful [OF mem_backend.order_backend_axioms _ run] run show ?thesis by auto
qed

end
