(* ===== verification/BillingGrpc.thy ===== *)
theory BillingGrpc
  imports BillingService Middleware
begin

text \<open>
  \<open>billing_service/internal/grpc\<close>: the mapping of invoices to protobuf messages and the three
  query handlers over the query service. The timestamp that \<open>timestamppb.New\<close> makes is a
  parameter. The database, which every query leaves as it is, is the state.
\<close>

section \<open>Messages\<close>

record pbb_Money =
  pbb_Amount :: int64
  pbb_Currency :: string

record 'ts pb_Invoice =
  pbv_Id :: string
  pbv_OrderId :: string
  pbv_Amount :: "pbb_Money option"
  pbv_Status :: int32
  pbv_CreatedAt :: 'ts
  pbv_PaidAt :: "'ts option"

record pb_ListInvoicesRequest =
  pbl_Status :: int32
  pbl_Limit :: int32
  pbl_Offset :: int32

record pb_BillingStats =
  pbs_TotalInvoices :: int64
  pbs_PaidInvoices :: int64
  pbs_PendingInvoices :: int64
  pbs_CancelledInvoices :: int64
  pbs_TotalRevenue :: "pbb_Money option"

abbreviation INVOICE_STATUS_UNSPECIFIED :: int32 where "INVOICE_STATUS_UNSPECIFIED \<equiv> 0"
abbreviation INVOICE_STATUS_PENDING :: int32 where "INVOICE_STATUS_PENDING \<equiv> 1"
abbreviation INVOICE_STATUS_PAID :: int32 where "INVOICE_STATUS_PAID \<equiv> 2"
abbreviation INVOICE_STATUS_CANCELLED :: int32 where "INVOICE_STATUS_CANCELLED \<equiv> 3"

section \<open>Mapping\<close>

definition mapDomainStatus :: "InvoiceStatus \<Rightarrow> int32" where
  "mapDomainStatus s =
     (if s = InvoiceStatusPending then INVOICE_STATUS_PENDING
      else if s = InvoiceStatusPaid then INVOICE_STATUS_PAID
      else if s = InvoiceStatusCancelled then INVOICE_STATUS_CANCELLED
      else INVOICE_STATUS_UNSPECIFIED)"

definition mapProtoStatus :: "int32 \<Rightarrow> InvoiceStatus" where
  "mapProtoStatus s =
     (if s = INVOICE_STATUS_PENDING then InvoiceStatusPending
      else if s = INVOICE_STATUS_PAID then InvoiceStatusPaid
      else if s = INVOICE_STATUS_CANCELLED then InvoiceStatusCancelled
      else InvoiceStatusPending)"

definition mapInvoice :: "(gotime \<Rightarrow> 'ts) \<Rightarrow> Invoice \<Rightarrow> 'ts pb_Invoice" where
  "mapInvoice timestamppb_New iv =
     \<lparr>pbv_Id = inv_ID iv, pbv_OrderId = inv_OrderID iv,
      pbv_Amount = Some \<lparr>pbb_Amount = Amount (inv_Amount iv), pbb_Currency = Currency (inv_Amount iv)\<rparr>,
      pbv_Status = mapDomainStatus (inv_Status iv),
      pbv_CreatedAt = timestamppb_New (inv_CreatedAt iv),
      pbv_PaidAt = map_option timestamppb_New (inv_PaidAt iv)\<rparr>"

section \<open>Handlers\<close>

definition Handler_GetInvoiceByOrder ::
  "'db BillingReadRepository \<Rightarrow> (gotime \<Rightarrow> 'ts) \<Rightarrow> (string, 'ts pb_Invoice, 'db) grpc_handler" where
  "Handler_GetInvoiceByOrder q ts c orderId s =
     (case QueryService_GetByOrderID q orderId s of
        (Inl err, s') \<Rightarrow> (Returned (Inl (billing_mapError err)), s')
      | (Inr iv, s') \<Rightarrow> (Returned (Inr (mapInvoice ts iv)), s'))"

definition requested_status :: "int32 \<Rightarrow> InvoiceStatus option" where
  "requested_status st = (if st \<noteq> INVOICE_STATUS_UNSPECIFIED then Some (mapProtoStatus st) else None)"

definition Handler_ListInvoices ::
  "'db BillingReadRepository \<Rightarrow> (gotime \<Rightarrow> 'ts) \<Rightarrow> (pb_ListInvoicesRequest, 'ts pb_Invoice list, 'db) grpc_handler" where
  "Handler_ListInvoices q ts c req s =
     (case QueryService_List q (requested_status (pbl_Status req)) (scast (pbl_Limit req)) (scast (pbl_Offset req)) s of
        (Inl err, s') \<Rightarrow> (Returned (Inl (billing_mapError err)), s')
      | (Inr invoices, s') \<Rightarrow> (Returned (Inr (map (mapInvoice ts) invoices)), s'))"

definition Handler_GetBillingStats ::
  "'db BillingReadRepository \<Rightarrow> (unit, pb_BillingStats, 'db) grpc_handler" where
  "Handler_GetBillingStats q c req s =
     (case QueryService_GetStats q s of
        (Inl err, s') \<Rightarrow> (Returned (Inl (billing_mapError err)), s')
      | (Inr st, s') \<Rightarrow> (Returned (Inr
           \<lparr>pbs_TotalInvoices = TotalInvoices st, pbs_PaidInvoices = PaidInvoices st,
            pbs_PendingInvoices = PendingInvoices st, pbs_CancelledInvoices = CancelledInvoices st,
            pbs_TotalRevenue = Some \<lparr>pbb_Amount = Amount (TotalRevenue st), pbb_Currency = Currency (TotalRevenue st)\<rparr>\<rparr>), s'))"

section \<open>Properties\<close>

lemma mapStatus_back [simp]:
  "st \<in> {InvoiceStatusPending, InvoiceStatusPaid, InvoiceStatusCancelled} \<Longrightarrow> mapProtoStatus (mapDomainStatus st) = st"
  by (auto simp: mapProtoStatus_def mapDomainStatus_def)

lemma mapDomainStatus_back:
  "s \<in> {INVOICE_STATUS_PENDING, INVOICE_STATUS_PAID, INVOICE_STATUS_CANCELLED} \<Longrightarrow> mapDomainStatus (mapProtoStatus s) = s"
  by (auto simp: mapProtoStatus_def mapDomainStatus_def)

text \<open>
  A listing over gRPC answers what was asked: the reply has at most 100 invoices, the newest
  first; asked for one of the three statuses it holds only invoices with that status, and asked
  for none it holds invoices of any; any other status number is read as a request for PENDING
  invoices. The database is left as it was.
\<close>

lemma ListInvoices_answers:
  assumes T: "gorm_table IT invoices inv_OrderID others"
    and run: "Handler_ListInvoices (NewInvoiceReadRepository IT tx) ts c req s = (Returned (Inr reply), s')"
  shows "\<exists>page. reply = map (mapInvoice ts) page \<and> length page \<le> 100
    \<and> sorted_wrt (\<lambda>a b. inv_CreatedAt b \<le> inv_CreatedAt a) page
    \<and> (\<forall>iv \<in> set page. invoices s (inv_OrderID iv) = Some iv)
    \<and> (pbl_Status req \<in> {INVOICE_STATUS_PENDING, INVOICE_STATUS_PAID, INVOICE_STATUS_CANCELLED}
         \<longrightarrow> (\<forall>v \<in> set reply. pbv_Status v = pbl_Status req))
    \<and> (pbl_Status req \<notin> {INVOICE_STATUS_UNSPECIFIED, INVOICE_STATUS_PENDING, INVOICE_STATUS_PAID, INVOICE_STATUS_CANCELLED}
         \<longrightarrow> (\<forall>v \<in> set reply. pbv_Status v = INVOICE_STATUS_PENDING))
    \<and> invoices s' = invoices s"
proof -
  let ?st = "requested_status (pbl_Status req)"
  obtain page where l: "QueryService_List (NewInvoiceReadRepository IT tx) ?st
        (scast (pbl_Limit req)) (scast (pbl_Offset req)) s = (Inr page, s')"
    and r: "reply = map (mapInvoice ts) page"
    using run by (auto simp: Handler_ListInvoices_def split: prod.splits sum.splits)
  have "length page \<le> 100" "sorted_wrt (\<lambda>a b. inv_CreatedAt b \<le> inv_CreatedAt a) page"
    "\<forall>iv \<in> set page. invoices s (inv_OrderID iv) = Some iv" "invoices s' = invoices s"
    and st: "\<forall>iv \<in> set page. \<forall>st. ?st = Some st \<longrightarrow> inv_Status iv = st"
    using list_page [OF T l] by auto
  moreover have "\<forall>v \<in> set reply. pbv_Status v = pbl_Status req"
    if "pbl_Status req \<in> {INVOICE_STATUS_PENDING, INVOICE_STATUS_PAID, INVOICE_STATUS_CANCELLED}"
    using st that mapDomainStatus_back [OF that] by (auto simp: r mapInvoice_def requested_status_def)
  moreover have "\<forall>v \<in> set reply. pbv_Status v = INVOICE_STATUS_PENDING"
    if "pbl_Status req \<notin> {INVOICE_STATUS_UNSPECIFIED, INVOICE_STATUS_PENDING, INVOICE_STATUS_PAID, INVOICE_STATUS_CANCELLED}"
    using st that by (auto simp: r mapInvoice_def requested_status_def mapProtoStatus_def mapDomainStatus_def)
  ultimately show ?thesis using r by blast
qed

lemma ListInvoices_answers_witness:
  "\<exists>reply s'. Handler_ListInvoices (NewInvoiceReadRepository (left_table inv_OrderID) mem_transaction) (\<lambda>t. t)
      \<lparr>ctx_request_id = None\<rparr> \<lparr>pbl_Status = INVOICE_STATUS_PAID, pbl_Limit = 0, pbl_Offset = 0\<rparr> example_billing
      = (Returned (Inr reply), s') \<and> (\<forall>v \<in> set reply. pbv_Status v = INVOICE_STATUS_PAID)"
proof -
  obtain reply s' where run: "Handler_ListInvoices (NewInvoiceReadRepository (left_table inv_OrderID) mem_transaction) (\<lambda>t. t)
      \<lparr>ctx_request_id = None\<rparr> \<lparr>pbl_Status = INVOICE_STATUS_PAID, pbl_Limit = 0, pbl_Offset = 0\<rparr> example_billing
      = (Returned (Inr reply), s')"
    by (simp add: Handler_ListInvoices_def QueryService_List_def NewInvoiceReadRepository_def
        InvoiceReadRepository_List_def mem_store example_billing_def Let_def)
  from ListInvoices_answers [OF left_is_gorm_table [where h = "\<lambda>x. x"] run] run show ?thesis by auto
qed

text \<open>
  Looking an invoice up never lies about absence: the answer is the stored invoice of the
  order, NOT_FOUND only when there is none, and INTERNAL for any other failure of the database
  (whose errors are never the services' own \<open>AppError\<close>).
\<close>

lemma GetInvoice_answers:
  assumes T: "gorm_table IT invoices inv_OrderID others"
    and E: "\<forall>P s e s'. gorm_First IT P s = (Inl e, s') \<longrightarrow> as_AppError e = None"
    and run: "Handler_GetInvoiceByOrder (NewInvoiceReadRepository IT tx) ts c i s = (x, s')"
  shows "invoices s' = invoices s \<and>
    (\<exists>r. x = Returned r \<and>
      (case r of
         Inr reply \<Rightarrow> \<exists>iv. invoices s i = Some iv \<and> reply = mapInvoice ts iv
       | Inl st \<Rightarrow> (fst st = NotFound \<and> invoices s i = None) \<or> fst st = Internal))"
proof -
  obtain y where g: "gorm_First IT (\<lambda>iv. inv_OrderID iv = i) s = (y, s')"
    and x: "x = (case y of Inl e \<Rightarrow> Returned (Inl (billing_mapError
               (if is_RecordNotFound e then AppErr (ErrNotFound (''invoice not found for order '' @ i)) else e)))
             | Inr iv \<Rightarrow> Returned (Inr (mapInvoice ts iv)))"
    using run
    by (auto simp: Handler_GetInvoiceByOrder_def QueryService_GetByOrderID_def NewInvoiceReadRepository_def
        InvoiceReadRepository_GetByOrderID_def split: prod.splits sum.splits if_splits)
  show ?thesis
  proof (cases y)
    case (Inr iv)
    with gorm_table.First_key_ok [OF T g [unfolded Inr]] gorm_table.First_frame [OF T g] x
    show ?thesis by auto
  next
    case (Inl e)
    with gorm_table.First_key_none [OF T g [unfolded Inl]] gorm_table.First_frame [OF T g] x
      E [rule_format, OF g [unfolded Inl]]
    show ?thesis by (auto simp: billing_mapError_not_app) (simp add: billing_mapError_eq)
  qed
qed

lemma left_table_errors:
  "gorm_First (left_table key) P s = (Inl e, s') \<Longrightarrow> as_AppError e = None"
  by (auto simp: mem_store db_error_def Let_def split: prod.splits option.splits if_splits)

lemma GetInvoice_answers_witness:
  "\<exists>st s'. Handler_GetInvoiceByOrder (NewInvoiceReadRepository (left_table inv_OrderID) mem_transaction) (\<lambda>t. t)
      \<lparr>ctx_request_id = None\<rparr> ''z'' example_billing = (Returned (Inl st), s')
    \<and> (fst st = NotFound \<or> fst st = Internal)"
proof -
  obtain st s' where run: "Handler_GetInvoiceByOrder (NewInvoiceReadRepository (left_table inv_OrderID) mem_transaction) (\<lambda>t. t)
      \<lparr>ctx_request_id = None\<rparr> ''z'' example_billing = (Returned (Inl st), s')"
    by (simp add: Handler_GetInvoiceByOrder_def QueryService_GetByOrderID_def NewInvoiceReadRepository_def
        InvoiceReadRepository_GetByOrderID_def mem_store example_billing_def Let_def)
  have "\<forall>P (s :: billing_mem) e s'. gorm_First (left_table inv_OrderID) P s = (Inl e, s') \<longrightarrow> as_AppError e = None"
    using left_table_errors by blast
  from GetInvoice_answers [OF left_is_gorm_table [where h = "\<lambda>x. x"] this run] run
  show ?thesis by auto
qed

end
