(* ===== verification/Logger.thy ===== *)
theory Logger
  imports BillingModel Middleware
begin

text \<open>
  \<open>shared/logger\<close>: a log entry and its JSON, the standard logger it is written through, and how the
  log is read back. The other theories leave the log lines of the code out.
\<close>

type_synonym LogLevel = string

abbreviation INFO :: LogLevel where "INFO \<equiv> ''INFO''"
abbreviation ERROR :: LogLevel where "ERROR \<equiv> ''ERROR''"

record LogEntry =
  le_Level :: LogLevel
  le_Time :: string
  le_Service :: string
  le_Message :: string
  le_Error :: string
  le_RequestID :: string

definition enc_LogEntry :: "LogEntry \<Rightarrow> json" where
  "enc_LogEntry e = JObj
     ([member ''level'' (json_string (le_Level e)), member ''time'' (json_string (le_Time e)),
       member ''service'' (json_string (le_Service e)), member ''message'' (json_string (le_Message e))]
      @ omitempty ''error'' (le_Error e) @ omitempty ''request_id'' (le_RequestID e))"

section \<open>The standard logger\<close>

text \<open>
  The package keeps the name of the service and writes through the standard logger of the package
  \<open>log\<close>: its destination, the standard error until it is set, and its flags, 3 (date and time) until
  they are set; what has been written to the two outputs is part of the state. Of the flags the
  bits for the date (1) and the time (2) are modelled, with the clock in UTC; nothing in the
  repository sets another one.
\<close>

datatype log_output = Stdout | Stderr

record go_log =
  log_service :: string
  log_dest :: log_output
  log_flags :: nat
  log_stdout :: string
  log_stderr :: string

definition newline :: char where "newline = CHR 0x0A"

text \<open>What the standard logger puts before a text.\<close>

definition log_header :: "nat \<Rightarrow> gotime \<Rightarrow> string" where
  "log_header flags at =
     (let (y, m, d) = date_of at; sod = nat (at div 10 ^ 9 mod 86400) in
      (if odd flags then digits_w 4 (nat y) @ ''/'' @ digits_w 2 (nat m) @ ''/'' @ digits_w 2 (nat d) @ '' '' else [])
      @ (if odd (flags div 2)
         then digits_w 2 (sod div 3600) @ '':'' @ digits_w 2 (sod div 60 mod 60) @ '':'' @ digits_w 2 (sod mod 60) @ '' ''
         else []))"

text \<open>\<open>log.Println\<close> of one string, at the time \<open>at\<close>.\<close>

definition Println :: "gotime \<Rightarrow> string \<Rightarrow> go_log \<Rightarrow> go_log" where
  "Println at s l =
     (let line = log_header (log_flags l) at @ s @ [newline] in
      case log_dest l of
        Stdout \<Rightarrow> l\<lparr>log_stdout := log_stdout l @ line\<rparr>
      | Stderr \<Rightarrow> l\<lparr>log_stderr := log_stderr l @ line\<rparr>)"

section \<open>The package\<close>

definition logger_Init :: "string \<Rightarrow> go_log \<Rightarrow> go_log" where
  "logger_Init service l = l\<lparr>log_service := service, log_dest := Stdout, log_flags := 0\<rparr>"

text \<open>\<open>write\<close>; marshalling an entry cannot fail.\<close>

definition write_entry :: "gotime \<Rightarrow> LogEntry \<Rightarrow> go_log \<Rightarrow> go_log" where
  "write_entry at entry l = Println at (print_json (enc_LogEntry entry)) l"

text \<open>RFC 3339 to the second is the text with nanoseconds of the time cut to the second.\<close>

definition fmt_RFC3339 :: "gotime \<Rightarrow> string" where
  "fmt_RFC3339 t = fmt_RFC3339Nano (t div 10 ^ 9 * 10 ^ 9)"

text \<open>A call reads the clock for its entry (\<open>now\<close>), and the standard logger reads it again (\<open>at\<close>).\<close>

definition InfoCtx :: "gotime \<Rightarrow> gotime \<Rightarrow> ctx \<Rightarrow> string \<Rightarrow> go_log \<Rightarrow> go_log" where
  "InfoCtx now at c msg l =
     write_entry at \<lparr>le_Level = INFO, le_Time = fmt_RFC3339 now, le_Service = log_service l,
       le_Message = msg, le_Error = [], le_RequestID = requestid_Get c\<rparr> l"

text \<open>A nil error would be dereferenced.\<close>

definition ErrorCtx :: "gotime \<Rightarrow> gotime \<Rightarrow> ctx \<Rightarrow> string \<Rightarrow> go_error option \<Rightarrow> go_log \<Rightarrow> unit outcome \<times> go_log" where
  "ErrorCtx now at c msg err l =
     (case err of
        None \<Rightarrow> (Panicked ''nil pointer dereference'', l)
      | Some e \<Rightarrow> (Returned (), write_entry at
          \<lparr>le_Level = ERROR, le_Time = fmt_RFC3339 now, le_Service = log_service l,
           le_Message = msg, le_Error = Error e, le_RequestID = requestid_Get c\<rparr> l))"

section \<open>Lines\<close>

text \<open>Printable: no control character.\<close>

definition printable :: "string \<Rightarrow> bool" where
  "printable s \<longleftrightarrow> (\<forall>c \<in> set s. 32 \<le> byte c)"

lemma printable_simps [simp]:
  "printable []" "printable (c # s) \<longleftrightarrow> 32 \<le> byte c \<and> printable s"
  "printable (s @ t) \<longleftrightarrow> printable s \<and> printable t"
  by (auto simp: printable_def)

lemma printable_escape [simp]: "printable (escape s)"
proof (induction s rule: escape.induct)
  case (2 c cs)
  have a: "printable (escape_ascii c)"
    by (auto simp: escape_ascii_def byte_def hex_char_def digit_char_def)
  have h: "printable (take (rune_size (c # cs)) (c # cs))" if "\<not> byte c < 128" "rune_size (c # cs) \<noteq> 0"
    using rune_size_take(4) [OF that(2,1)] by (auto simp: printable_def)
  have u: "printable (backslash # ''ufffd'')" "printable (backslash # ''u2028'')" "printable (backslash # ''u2029'')"
    by (simp_all add: byte_def)
  show ?case
    using 2 a h u by (subst escape.simps(2)) (auto simp del: take_Suc_Cons)
qed simp

lemma printable_entry: "printable (print_json (enc_LogEntry e))"
  by (simp add: enc_LogEntry_def omitempty_def member_def json_string_def byte_def)

lemma entry_line:
  "newline \<notin> set (print_json (enc_LogEntry e))" "parse_json (print_json (enc_LogEntry e)) = Some (enc_LogEntry e)"
proof -
  show "newline \<notin> set (print_json (enc_LogEntry e))"
    using printable_entry [of e] by (force simp: printable_def newline_def byte_def)
  have "wf_json (enc_LogEntry e)" by (simp add: enc_LogEntry_def omitempty_def)
  then show "parse_json (print_json (enc_LogEntry e)) = Some (enc_LogEntry e)" by (rule parse_json_print)
qed

text \<open>How a log collector reads the log: line by line, each line as the JSON of an entry.\<close>

fun text_lines :: "string \<Rightarrow> string list" where
  "text_lines [] = []"
| "text_lines (c # cs) =
     (if c = newline then [] # text_lines cs
      else case text_lines cs of [] \<Rightarrow> [[c]] | line # rest \<Rightarrow> (c # line) # rest)"

definition dec_LogEntry :: "json \<Rightarrow> LogEntry \<Rightarrow> LogEntry option" where
  "dec_LogEntry = decode_struct [''level'', ''time'', ''service'', ''message'', ''error'', ''request_id'']
     (\<lambda>f v e. if f = ''level'' then map_option (\<lambda>s. e\<lparr>le_Level := s\<rparr>) (decode_string v (le_Level e))
              else if f = ''time'' then map_option (\<lambda>s. e\<lparr>le_Time := s\<rparr>) (decode_string v (le_Time e))
              else if f = ''service'' then map_option (\<lambda>s. e\<lparr>le_Service := s\<rparr>) (decode_string v (le_Service e))
              else if f = ''message'' then map_option (\<lambda>s. e\<lparr>le_Message := s\<rparr>) (decode_string v (le_Message e))
              else if f = ''error'' then map_option (\<lambda>s. e\<lparr>le_Error := s\<rparr>) (decode_string v (le_Error e))
              else map_option (\<lambda>s. e\<lparr>le_RequestID := s\<rparr>) (decode_string v (le_RequestID e)))"

definition zero_LogEntry :: LogEntry where
  "zero_LogEntry = \<lparr>le_Level = [], le_Time = [], le_Service = [], le_Message = [], le_Error = [], le_RequestID = []\<rparr>"

definition read_log :: "string \<Rightarrow> LogEntry option list" where
  "read_log text = map (unmarshal_json dec_LogEntry zero_LogEntry) (text_lines text)"

lemma text_lines_line: "newline \<notin> set j \<Longrightarrow> text_lines (j @ newline # s) = j # text_lines s"
  by (induction j) auto

text \<open>What JSON keeps of an entry: bytes that are not UTF-8 are replaced, and nothing else.\<close>

definition valid_entry :: "LogEntry \<Rightarrow> LogEntry" where
  "valid_entry e =
     \<lparr>le_Level = to_valid (le_Level e), le_Time = to_valid (le_Time e), le_Service = to_valid (le_Service e),
      le_Message = to_valid (le_Message e), le_Error = to_valid (le_Error e), le_RequestID = to_valid (le_RequestID e)\<rparr>"

lemma valid_entry_id:
  "list_all utf8_valid [le_Level e, le_Time e, le_Service e, le_Message e, le_Error e, le_RequestID e] \<Longrightarrow>
   valid_entry e = e"
  by (simp add: valid_entry_def to_valid_id)

lemma log_names [simp]:
  "utf8_valid ''level''" "utf8_valid ''time''" "utf8_valid ''service''" "utf8_valid ''message''"
  "utf8_valid ''error''" "utf8_valid ''request_id''"
  by (rule utf8_ascii, simp add: byte_def)+

lemma dec_LogEntry_enc: "dec_LogEntry (enc_LogEntry e) zero_LogEntry = Some (valid_entry e)"
  by (simp add: dec_LogEntry_def enc_LogEntry_def omitempty_def decode_struct_def zero_LogEntry_def valid_entry_def
      decode_string_any del: decode_string_json)

section \<open>The log of a process\<close>

datatype log_call = Info gotime gotime ctx string | Err gotime gotime ctx string "go_error option"

fun run_log :: "log_call list \<Rightarrow> go_log \<Rightarrow> go_log" where
  "run_log [] l = l"
| "run_log (Info now at c msg # calls) l = run_log calls (InfoCtx now at c msg l)"
| "run_log (Err now at c msg err # calls) l = run_log calls (snd (ErrorCtx now at c msg err l))"

text \<open>The entry a call is to write.\<close>

fun log_entry :: "string \<Rightarrow> log_call \<Rightarrow> LogEntry list" where
  "log_entry service (Info now at c msg) =
     [\<lparr>le_Level = INFO, le_Time = fmt_RFC3339 now, le_Service = service, le_Message = msg, le_Error = [],
       le_RequestID = requestid_Get c\<rparr>]"
| "log_entry service (Err now at c msg None) = []"
| "log_entry service (Err now at c msg (Some e)) =
     [\<lparr>le_Level = ERROR, le_Time = fmt_RFC3339 now, le_Service = service, le_Message = msg, le_Error = Error e,
       le_RequestID = requestid_Get c\<rparr>]"

text \<open>Once the package is initialised, every call appends one line to the standard output.\<close>

lemma write_entry_stdout:
  "log_dest l = Stdout \<Longrightarrow> log_flags l = 0 \<Longrightarrow>
   write_entry at e l = l\<lparr>log_stdout := log_stdout l @ print_json (enc_LogEntry e) @ [newline]\<rparr>"
  by (simp add: write_entry_def Println_def log_header_def)

lemma run_log_stdout:
  assumes "log_dest l = Stdout" "log_flags l = 0"
  shows "run_log calls l = l\<lparr>log_stdout := log_stdout l
    @ concat (map (\<lambda>e. print_json (enc_LogEntry e) @ [newline]) (concat (map (log_entry (log_service l)) calls)))\<rparr>"
  using assms
proof (induction calls arbitrary: l)
  case (Cons a calls)
  show ?case
  proof (cases a)
    case (Err now at c msg err)
    with Cons show ?thesis by (cases err) (simp_all add: ErrorCtx_def write_entry_stdout)
  qed (simp add: Cons InfoCtx_def write_entry_stdout)
qed simp

lemma read_log_entries:
  "read_log (concat (map (\<lambda>e. print_json (enc_LogEntry e) @ [newline]) es)) = map (\<lambda>e. Some (valid_entry e)) es"
  by (induction es)
     (simp_all add: read_log_def text_lines_line entry_line unmarshal_json_def dec_LogEntry_enc)

text \<open>
  C34: The log can be read back, whatever is logged: after \<open>Init\<close>, from any state of the logger
  (its flags and its destination included), a sequence of calls writes to the standard output only,
  and what it writes there reads back line by line, each line a JSON object of its own, as the
  entries of the calls, in their order and with the name of the service. A message or an error text
  with line breaks, quotes or control characters in it can neither split a line nor add members,
  and empty error texts and request ids that are omitted read back as empty. The texts of an entry
  are those of its call, except that bytes that are not valid UTF-8 have been replaced by U+FFFD
  (\<open>valid_entry\<close>; by \<open>valid_entry_id\<close> it changes no valid entry). A call with a nil error panics and
  writes nothing.
\<close>

theorem log_reads_back:
  "\<exists>text. run_log calls (logger_Init service l)
       = l\<lparr>log_service := service, log_dest := Stdout, log_flags := 0, log_stdout := log_stdout l @ text\<rparr>
     \<and> read_log text = map (\<lambda>e. Some (valid_entry e)) (concat (map (log_entry service) calls))"
  using read_log_entries by (simp add: run_log_stdout logger_Init_def) blast

end
