(* ===== verification/App.thy ===== *)
theory App
  imports Convergence Concurrent Config OrderGrpc BillingGrpc Logger
begin

text \<open>
  \<open>internal/app\<close> of both services: how \<open>Run\<close> wires the components from the configuration, in
  which order it starts and stops them, and the loop that samples the connection pool. The
  wiring is what the other theories assume of the components, and here it is shown to meet every
  contract. What \<open>Run\<close> does to the outside world is a list of actions; servers, listeners and
  signals are parameters.
\<close>

section \<open>Sampling the connection pool\<close>

datatype ticker_signal = Pool_Tick "go_error + pool_stats" | Ticker_Done

fun collectDBMetrics :: "ticker_signal list \<Rightarrow> metrics \<Rightarrow> bool \<times> metrics" where
  "collectDBMetrics [] m = (False, m)"
| "collectDBMetrics (Ticker_Done # _) m = (True, m)"
| "collectDBMetrics (Pool_Tick sqlDB # sigs) m = collectDBMetrics sigs (collectDBMetrics_tick sqlDB m)"

text \<open>The billing service has a second copy of the loop.\<close>

fun billing_collectDBMetrics :: "ticker_signal list \<Rightarrow> metrics \<Rightarrow> bool \<times> metrics" where
  "billing_collectDBMetrics [] m = (False, m)"
| "billing_collectDBMetrics (Ticker_Done # _) m = (True, m)"
| "billing_collectDBMetrics (Pool_Tick (Inl _) # sigs) m = billing_collectDBMetrics sigs m"
| "billing_collectDBMetrics (Pool_Tick (Inr stats) # sigs) m =
     billing_collectDBMetrics sigs (m\<lparr>DBOpenConnections := OpenConnections stats,
       DBInUseConnections := InUse stats, DBIdleConnections := Idle stats\<rparr>)"

lemma billing_collectDBMetrics_eq: "billing_collectDBMetrics sigs m = collectDBMetrics sigs m"
  by (induction sigs m rule: billing_collectDBMetrics.induct) (simp_all add: collectDBMetrics_tick_def)

section \<open>Wiring\<close>

definition order_topicMap :: "OrderConfig \<Rightarrow> EventType \<Rightarrow> string option" where
  "order_topicMap cfg =
     [EventOrderCreated \<mapsto> OrderCreatedTopic cfg, EventOrderPaid \<mapsto> OrderPaidTopic cfg,
      EventOrderCancelled \<mapsto> OrderCancelledTopic cfg]"

text \<open>
  The order service and its relay, over the two tables and the transaction of the database and
  the writer the relay opens for the brokers.
\<close>

definition order_wiring ::
  "OrderConfig \<Rightarrow> 'db order_table \<Rightarrow> 'db outbox_table \<Rightarrow> ('db, unit) gorm_transaction \<Rightarrow> 'k kafka_write
   \<Rightarrow> 'db OrderService \<times> ('db, 'k) Relay" where
  "order_wiring cfg OT ET txn wr =
     (let orderRepo = OrderRepository_GetOrder OT;
          orderService = NewOrderService OT txn orderRepo ET (order_topicMap cfg) ToUSD;
          relay = NewRelay ET wr (2 * 1000000000) (OutboxBatchSize cfg)
      in (orderService, relay))"

text \<open>The three consumers; \<open>cm\<close> gives each consumer group its \<open>CommitMessages\<close>.\<close>

definition billing_wiring ::
  "Config \<Rightarrow> 'db invoice_table \<Rightarrow> 'db processed_table \<Rightarrow> 'k kafka_write \<Rightarrow> (string \<Rightarrow> 'c kafka_commit)
   \<Rightarrow> ('db, 'k, 'c) Consumer list" where
  "billing_wiring cfg IT PT dlqProducer cm =
     (let billingRepo = NewBillingRepository IT;
          processedRepo = NewProcessedEventRepo PT;
          billingService = NewBillingService billingRepo;
          eventHandler = OrderHandler_Handle (NewOrderHandler billingService dlqProducer
            (OrderCreatedTopic cfg) (OrderPaidTopic cfg) (OrderCancelledTopic cfg));
          createdConsumer = NewConsumer (OrderCreatedTopic cfg) (cm ''billing-group-created'') eventHandler dlqProducer processedRepo;
          paidConsumer = NewConsumer (OrderPaidTopic cfg) (cm ''billing-group-paid'') eventHandler dlqProducer processedRepo;
          cancelledConsumer = NewConsumer (OrderCancelledTopic cfg) (cm ''billing-group-cancelled'') eventHandler dlqProducer processedRepo
      in [createdConsumer, paidConsumer, cancelledConsumer])"

lemma order_wiring_system:
  assumes "gorm_table OT orders OrderID outbox" and "gorm_table ET outbox oe_ID orders"
    and "gorm_transaction txn (\<lambda>s. (orders s, outbox s))" and "kafka_writer wr log"
    and "order_wiring cfg OT ET txn wr = (svc, r)"
  shows "order_system OT orders ET outbox txn (OrderRepository_GetOrder OT) svc wr log r"
proof -
  have svc: "svc = NewOrderService OT txn (OrderRepository_GetOrder OT) ET (order_topicMap cfg) ToUSD"
    and r: "r = NewRelay ET wr (2 * 1000000000) (OutboxBatchSize cfg)"
    using assms(5) by (simp_all add: order_wiring_def Let_def)
  have "order_backend OT orders ET outbox txn (OrderRepository_GetOrder OT) svc"
    using assms(1-3) OrderRepository_contract [OF assms(1)]
    by (simp add: order_backend_def order_backend_axioms_def svc NewOrderService_def)
  from order_system.intro [OF this NewRelay_outbox_relay [OF assms(2,4)]] show ?thesis
    unfolding r .
qed

lemma billing_wiring_consumers:
  "billing_wiring cfg IT PT wr cm =
     map (\<lambda>(topic, grp). billing_consumer topic (cm grp) (NewBillingRepository IT) wr (NewProcessedEventRepo PT)
            (OrderCreatedTopic cfg) (OrderPaidTopic cfg) (OrderCancelledTopic cfg))
       [(OrderCreatedTopic cfg, ''billing-group-created''), (OrderPaidTopic cfg, ''billing-group-paid''),
        (OrderCancelledTopic cfg, ''billing-group-cancelled'')]"
  by (simp add: billing_wiring_def billing_consumer_def Let_def)

lemma billing_wiring_contract:
  assumes "gorm_table IT invoices inv_OrderID processed" and "gorm_table PT processed pe_EventID invoices"
    and "kafka_writer wr log" and "kafka_committer c committed"
  shows "order_consumer (NewBillingRepository IT) invoices processed (NewProcessedEventRepo PT) wr log c committed"
  by (rule order_consumer.intro [OF BillingRepository_contract [OF assms(1)] eventRepository_contract [OF assms(2)] assms(3,4)])

text \<open>
  C21: The services \<open>Run\<close> puts together meet the contracts the properties assume. Over any
  database whose tables and transactions behave as GORM's, any broker and any consumer groups:
  the wired order service with its relay is an order system, each of the three wired consumers
  is a billing consumer in the sense of the properties, over repositories that meet their
  contracts, and when both services load their configuration from the same variables, the topic
  the order service publishes an event on is the topic of the consumer of that event.
\<close>

theorem wired_services:
  assumes "gorm_table OT orders OrderID outbox" and "gorm_table ET outbox oe_ID orders"
    and "gorm_transaction txn (\<lambda>s. (orders s, outbox s))" and "kafka_writer wr log"
    and "gorm_table IT invoices inv_OrderID processed" and "gorm_table PT processed pe_EventID invoices"
    and "kafka_writer wrb logb" and "\<forall>grp. kafka_committer (cm grp) (committed grp)"
    and "order_LoadConfig env = Inr oc" and "billing_LoadConfig env = Inr bc"
    and "order_wiring oc OT ET txn wr = (svc, r)"
  shows "order_system OT orders ET outbox txn (OrderRepository_GetOrder OT) svc wr log r
    \<and> (\<forall>grp. order_consumer (NewBillingRepository IT) invoices processed (NewProcessedEventRepo PT)
          wrb logb (cm grp) (committed grp))
    \<and> (\<exists>tc tp tx. os_topicMap svc EventOrderCreated = Some tc \<and> os_topicMap svc EventOrderPaid = Some tp
        \<and> os_topicMap svc EventOrderCancelled = Some tx
        \<and> billing_wiring bc IT PT wrb cm =
            map (\<lambda>(topic, grp). billing_consumer topic (cm grp) (NewBillingRepository IT) wrb (NewProcessedEventRepo PT) tc tp tx)
              [(tc, ''billing-group-created''), (tp, ''billing-group-paid''), (tx, ''billing-group-cancelled'')])"
proof -
  have "OrderCreatedTopic oc = OrderCreatedTopic bc \<and> OrderPaidTopic oc = OrderPaidTopic bc
      \<and> OrderCancelledTopic oc = OrderCancelledTopic bc"
    using assms(9,10) by (auto simp: order_config_extends)
  moreover have "os_topicMap svc = order_topicMap oc"
    using assms(11) by (auto simp: order_wiring_def Let_def NewOrderService_def)
  moreover have "order_consumer (NewBillingRepository IT) invoices processed (NewProcessedEventRepo PT)
      wrb logb (cm grp) (committed grp)" for grp
    using assms(8) by (intro billing_wiring_contract [OF assms(5-7)]) simp
  ultimately show ?thesis
    using order_wiring_system [OF assms(1-4,11)]
    by (simp add: billing_wiring_consumers order_topicMap_def)
qed

theorem wired_services_witness:
  "\<exists>oc bc svc r. order_LoadConfig (\<lambda>k. k) = Inr oc \<and> billing_LoadConfig (\<lambda>k. k) = Inr bc
     \<and> order_wiring oc (left_table OrderID) (right_table oe_ID) mem_transaction mem_write = (svc, r)
     \<and> order_system (left_table OrderID) mem_orders (right_table oe_ID) mem_outbox mem_transaction
          (OrderRepository_GetOrder (left_table OrderID)) svc mem_write mk_log r
     \<and> length (billing_wiring bc (left_table inv_OrderID) (right_table pe_EventID) mem_write (\<lambda>_. mem_commit)) = 3"
proof -
  let ?env = "\<lambda>k :: string. k"
  obtain bc where b: "billing_LoadConfig ?env = Inr bc"
    by (simp add: billing_LoadConfig_def mustGetenv_def Let_def)
  then obtain oc where o: "order_LoadConfig ?env = Inr oc" by (simp add: order_config_extends)
  obtain svc r where w: "order_wiring oc (left_table OrderID) (right_table oe_ID) mem_transaction mem_write = (svc, r)"
    by fastforce
  have t: "gorm_transaction mem_transaction (\<lambda>s. (mem_orders s, mem_outbox s))"
    using mem_transaction_view [where v = "\<lambda>l r. (lookup_row OrderID l, lookup_row oe_ID r)"] by simp
  from wired_services [OF left_is_gorm_table right_is_gorm_table t mem_writer.kafka_writer_axioms
      left_is_gorm_table right_is_gorm_table mem_writer.kafka_writer_axioms _ o b w, of "\<lambda>_. mem_commit" "\<lambda>_. mem_committed"]
  show ?thesis using o b w mem_committer.kafka_committer_axioms by auto
qed

section \<open>Starting and stopping\<close>

datatype action =
    ConnectDB string
  | StartMetrics string
  | StartDBMetrics
  | StartRelay
  | StartConsumer string
  | Serve string
  | SignalReceived
  | CloseConsumer string
  | GracefulStop
  | ForceStop
  | CloseDLQ
  | CloseDB

text \<open>
  How \<open>Run\<close> ends: the process exits in \<open>LoadConfig\<close>, a panic, an error that \<open>main\<close> reports, or
  a clean stop.
\<close>

datatype run_result = Exited string | Crashed string | Startup_failed go_error | Stopped

text \<open>
  What \<open>Run\<close> meets: the variables, the opening of the database and the migration of the outbox
  table, the registration of the collectors, listening on an address, whether the calls in
  progress end within thirty seconds after the signal, and whether the pool can be had to close it.
\<close>

record 'h surroundings =
  sr_env :: environment
  sr_InitDB :: "string \<Rightarrow> (go_error + 'h) outcome"
  sr_migrate_outbox :: "'h \<Rightarrow> go_error option"
  sr_NewMetrics :: "string \<Rightarrow> string \<Rightarrow> metrics outcome"
  sr_Listen :: "string \<Rightarrow> go_error option"
  sr_calls_end :: bool
  sr_pool :: bool

text \<open>\<open>StartServer\<close> starts its goroutines and always returns nil.\<close>

definition StartServer :: "string \<Rightarrow> go_error option" where
  "StartServer addr = None"

definition stop_server :: "'h surroundings \<Rightarrow> action list" where
  "stop_server sr = (if sr_calls_end sr then [GracefulStop] else [GracefulStop, ForceStop])"

definition close_pool :: "'h surroundings \<Rightarrow> action list" where
  "close_pool sr = (if sr_pool sr then [CloseDB] else [])"

definition order_Run :: "'h surroundings \<Rightarrow> run_result \<times> action list" where
  "order_Run sr =
     (case order_LoadConfig (sr_env sr) of
        Inl txt \<Rightarrow> (Exited txt, [])
      | Inr cfg \<Rightarrow>
     (case sr_InitDB sr (DBDSN cfg) of
        Panicked p \<Rightarrow> (Crashed p, [])
      | Returned (Inl err) \<Rightarrow> (Startup_failed (WrapErr ''failed to connect to database: '' err), [])
      | Returned (Inr db) \<Rightarrow>
     (case sr_migrate_outbox sr db of
        Some err \<Rightarrow> (Startup_failed (WrapErr ''failed to migrate outbox table: '' err), [ConnectDB (DBDSN cfg)])
      | None \<Rightarrow>
     (case sr_NewMetrics sr ''order_service'' ''order'' of
        Panicked p \<Rightarrow> (Crashed p, [ConnectDB (DBDSN cfg)])
      | Returned _ \<Rightarrow>
     (case StartServer '':9094'' of
        Some err \<Rightarrow> (Startup_failed (WrapErr ''failed to start metrics server: '' err), [ConnectDB (DBDSN cfg)])
      | None \<Rightarrow>
          let started = [ConnectDB (DBDSN cfg), StartMetrics '':9094'', StartDBMetrics, StartRelay] in
     (case sr_Listen sr '':50051'' of
        Some err \<Rightarrow> (Startup_failed (WrapErr ''failed to listen on :50051: '' err), started)
      | None \<Rightarrow>
          (Stopped, started @ [Serve '':50051'', SignalReceived] @ stop_server sr @ close_pool sr)))))))"

definition billing_Run :: "'h surroundings \<Rightarrow> run_result \<times> action list" where
  "billing_Run sr =
     (case billing_LoadConfig (sr_env sr) of
        Inl txt \<Rightarrow> (Exited txt, [])
      | Inr cfg \<Rightarrow>
     (case sr_InitDB sr (DBDSN cfg) of
        Panicked p \<Rightarrow> (Crashed p, [])
      | Returned (Inl err) \<Rightarrow> (Startup_failed (WrapErr ''failed to connect to database: '' err), [])
      | Returned (Inr db) \<Rightarrow>
     (case sr_NewMetrics sr ''billing_service'' ''billing'' of
        Panicked p \<Rightarrow> (Crashed p, [ConnectDB (DBDSN cfg)])
      | Returned _ \<Rightarrow>
     (case StartServer '':9093'' of
        Some err \<Rightarrow> (Startup_failed (WrapErr ''failed to start metrics server: '' err), [ConnectDB (DBDSN cfg)])
      | None \<Rightarrow>
          let topics = [OrderCreatedTopic cfg, OrderPaidTopic cfg, OrderCancelledTopic cfg];
              started = [ConnectDB (DBDSN cfg), StartMetrics '':9093'', StartDBMetrics] @ map StartConsumer topics in
     (case sr_Listen sr '':50052'' of
        Some err \<Rightarrow> (Startup_failed (WrapErr ''failed to listen on :50052: '' err), started)
      | None \<Rightarrow>
          (Stopped, started @ [Serve '':50052'', SignalReceived] @ map CloseConsumer topics
             @ stop_server sr @ [CloseDLQ] @ close_pool sr))))))"

text \<open>
  \<open>main\<close> of both services (\<open>cmd/api/main.go\<close>): the exit status of the process and the text it
  reports, without the newline; a panic ends a Go program with status 2.
\<close>

fun process_exit :: "run_result \<Rightarrow> nat \<times> string" where
  "process_exit Stopped = (0, [])"
| "process_exit (Startup_failed err) = (1, ''startup failed: '' @ Error err)"
| "process_exit (Exited txt) = (1, txt)"
| "process_exit (Crashed p) = (2, ''panic: '' @ p)"

definition order_main :: "'h surroundings \<Rightarrow> nat \<times> string" where
  "order_main sr = process_exit (fst (order_Run sr))"

definition billing_main :: "'h surroundings \<Rightarrow> nat \<times> string" where
  "billing_main sr = process_exit (fst (billing_Run sr))"

text \<open>The status is 0 exactly when the service was serving until a signal came.\<close>

lemma order_main_status: "fst (order_main sr) = 0 \<longleftrightarrow> SignalReceived \<in> set (snd (order_Run sr))"
  by (auto simp: order_main_def order_Run_def StartServer_def Let_def split: sum.splits outcome.splits option.splits)

lemma billing_main_status: "fst (billing_main sr) = 0 \<longleftrightarrow> SignalReceived \<in> set (snd (billing_Run sr))"
  by (auto simp: billing_main_def billing_Run_def StartServer_def Let_def split: sum.splits outcome.splits option.splits)

text \<open>No \<open>b\<close> occurs before the first \<open>a\<close>.\<close>

fun happens_before :: "action list \<Rightarrow> action \<Rightarrow> action \<Rightarrow> bool" where
  "happens_before [] a b \<longleftrightarrow> True"
| "happens_before (x # acts) a b \<longleftrightarrow> x = a \<or> x \<noteq> b \<and> happens_before acts a b"

text \<open>
  The billing service starts and stops in order, whatever its surroundings do: a consumer
  starts only after the database is connected and the metrics are up; a consumer that was
  started is closed exactly when the run ends cleanly (when the listener cannot be had the
  run ends with the consumers open); no consumer is closed before the signal; the server stops
  only after every consumer is closed, dead letters can be written until the server has stopped,
  and the pool is closed last.
\<close>

lemma billing_Run_in_order:
  assumes "billing_Run sr = (res, acts)" and "StartConsumer t \<in> set acts"
  shows "(\<exists>dsn. happens_before acts (ConnectDB dsn) (StartConsumer t)) \<and> happens_before acts StartDBMetrics (StartConsumer t)
    \<and> (CloseConsumer t \<in> set acts \<longleftrightarrow> res = Stopped)
    \<and> happens_before acts SignalReceived (CloseConsumer t)
    \<and> happens_before acts (CloseConsumer t) GracefulStop \<and> happens_before acts GracefulStop CloseDLQ
    \<and> happens_before acts CloseDLQ CloseDB"
  using assms
  by (auto simp: billing_Run_def StartServer_def stop_server_def close_pool_def Let_def
      split: sum.splits outcome.splits option.splits if_splits)

lemma billing_Run_in_order_witness:
  "\<exists>acts. billing_Run \<lparr>sr_env = (\<lambda>k. k), sr_InitDB = (\<lambda>dsn. Returned (Inr ())), sr_migrate_outbox = (\<lambda>_. None),
       sr_NewMetrics = (\<lambda>n s. Returned (zero_metrics [] n)), sr_Listen = (\<lambda>_. None), sr_calls_end = False, sr_pool = True\<rparr>
     = (Stopped, acts) \<and> happens_before acts (CloseConsumer ''ORDER_PAID_TOPIC'') GracefulStop"
proof -
  let ?sr = "\<lparr>sr_env = (\<lambda>k. k), sr_InitDB = (\<lambda>dsn. Returned (Inr ())), sr_migrate_outbox = (\<lambda>_. None),
       sr_NewMetrics = (\<lambda>n s. Returned (zero_metrics [] n)), sr_Listen = (\<lambda>_. None), sr_calls_end = False, sr_pool = True\<rparr>"
  obtain acts where r: "billing_Run ?sr = (Stopped, acts)" and s: "StartConsumer ''ORDER_PAID_TOPIC'' \<in> set acts"
    by (simp add: billing_Run_def billing_LoadConfig_def mustGetenv_def StartServer_def Let_def)
  from billing_Run_in_order [OF r s] r show ?thesis by blast
qed

end
